(* ===== verification/Errors.thy ===== *)
theory Errors
  imports Prelude
begin

text \<open>
  The crate-wide error type of \<open>tinyagents-harness/src/error.rs\<close> and its classification.
  \<open>ProviderError\<close> belongs to the inference crate; the record holds the fields the runtime reads.
  The code \<open>CONTEXT_OVERFLOW_CODE\<close> and the rendering of a provider error are defined in that crate
  and are arguments here.  Payloads of third-party types (\<open>Usage\<close>, \<open>serde_json::Error\<close>) are carried
  as JSON and as text.
\<close>

record ProviderError =
  pe_provider :: string
  pe_model :: "string option"
  pe_status :: "u16 option"
  pe_code :: "string option"
  pe_message :: string
  pe_retryable :: bool
  pe_retry_after_ms :: "u64 option"

datatype DispatchRefusalReason = Deadline | CallLimit | DispatchCancelled

record DispatchRefusal =
  dr_reason :: DispatchRefusalReason

definition dispatch_refusal_display :: "DispatchRefusal \<Rightarrow> string" where
  "dispatch_refusal_display r = (case dr_reason r of
      Deadline \<Rightarrow> ''physical dispatch deadline elapsed''
    | CallLimit \<Rightarrow> ''physical dispatch call limit reached''
    | DispatchCancelled \<Rightarrow> ''physical dispatch cancelled'')"

datatype TinyAgentsError =
    MissingStart
  | MissingNode string
  | MissingEdgeTarget string
  | MissingRoute string string
  | RecursionLimit nat
  | SubAgentDepth nat
  | NodeVisitLimit string nat
  | Model string
  | SummarizationUsage TinyAgentsError json
  | GenerationStalled
  | Provider ProviderError
  | PhysicalDispatchAdmission DispatchRefusal
  | ContextOverflow string "string option" string
  | Tool string
  | ModelRetry string
  | ToolFailed string
  | ToolRefused string
  | ApprovalRequired json
  | CallDeferred json
  | ToolNotFound string
  | ModelNotFound string
  | Validation string
  | StructuredOutput string
  | LimitExceeded string
  | RateLimited string
  | StreamIdleTimeout string
  | EmptyResponse
  | Timeout string
  | CallTimeout string
  | Cancelled
  | Middleware string
  | Steering_error string
  | Memory string
  | Embedding string
  | Graph string
  | Interrupted string string
  | InvalidConcurrentUpdate string
  | Checkpoint string
  | Resume_error string
  | Capability string
  | DuplicateComponent string
  | Serialization string
  | Storage string

definition is_terminal_limit :: "TinyAgentsError \<Rightarrow> bool" where
  "is_terminal_limit e =
     (case e of LimitExceeded _ \<Rightarrow> True | PhysicalDispatchAdmission _ \<Rightarrow> True | _ \<Rightarrow> False)"

definition from_provider_error :: "string \<Rightarrow> ProviderError \<Rightarrow> TinyAgentsError" where
  "from_provider_error overflow_code e =
     (if pe_code e = Some overflow_code
      then ContextOverflow (pe_provider e) (pe_model e) (pe_message e)
      else Provider e)"

definition is_context_overflow :: "string \<Rightarrow> TinyAgentsError \<Rightarrow> bool" where
  "is_context_overflow overflow_code err =
     (case err of
        ContextOverflow _ _ _ \<Rightarrow> True
      | Provider e \<Rightarrow> pe_code e = Some overflow_code
      | _ \<Rightarrow> False)"

text \<open>Promotion keeps the overflow reading: the typed error and the coded error agree.\<close>

lemma from_provider_error_overflow:
  "is_context_overflow k (from_provider_error k e) \<longleftrightarrow> pe_code e = Some k"
  by (simp add: from_provider_error_def is_context_overflow_def)

lemma from_provider_error_not_coded:
  "from_provider_error k e = Provider e' \<Longrightarrow> e' = e \<and> pe_code e \<noteq> Some k"
  by (simp add: from_provider_error_def split: if_splits)

section \<open>Rendering\<close>

text \<open>The \<open>Display\<close> implementation derived from the \<open>error(...)\<close> attributes.\<close>

definition quoted :: "string \<Rightarrow> string" where
  "quoted s = ''`'' @ s @ ''`''"

primrec error_display :: "(ProviderError \<Rightarrow> string) \<Rightarrow> TinyAgentsError \<Rightarrow> string" where
  "error_display pd MissingStart = ''graph start node is not configured''"
| "error_display pd (MissingNode n) = ''node '' @ quoted n @ '' does not exist''"
| "error_display pd (MissingEdgeTarget n) = ''edge points to missing node '' @ quoted n"
| "error_display pd (MissingRoute n r) =
     ''conditional route '' @ quoted r @ '' from node '' @ quoted n @ '' does not exist''"
| "error_display pd (RecursionLimit k) =
     ''graph exceeded the recursion limit of '' @ show_nat k @ '' steps''"
| "error_display pd (SubAgentDepth k) =
     ''sub-agent recursion exceeded the maximum depth of '' @ show_nat k"
| "error_display pd (NodeVisitLimit n k) =
     ''node '' @ quoted n @ '' exceeded its visit limit of '' @ show_nat k"
| "error_display pd (Model m) = ''model error: '' @ m"
| "error_display pd (SummarizationUsage e u) = ''summarizer error: '' @ error_display pd e"
| "error_display pd GenerationStalled = ''streamed response stalled on repeated narration''"
| "error_display pd (Provider e) = ''model error: '' @ pd e"
| "error_display pd (PhysicalDispatchAdmission r) =
     ''physical dispatch refused: '' @ dispatch_refusal_display r"
| "error_display pd (ContextOverflow p m t) = ''context overflow: '' @ t"
| "error_display pd (Tool m) = ''tool error: '' @ m"
| "error_display pd (ModelRetry m) = ''retryable failure: '' @ m"
| "error_display pd (ToolFailed m) = ''permanent tool failure: '' @ m"
| "error_display pd (ToolRefused m) = ''tool call refused: '' @ m"
| "error_display pd (ApprovalRequired _) = ''tool call requires approval''"
| "error_display pd (CallDeferred _) = ''tool call deferred to the host''"
| "error_display pd (ToolNotFound n) = ''tool '' @ quoted n @ '' is not registered''"
| "error_display pd (ModelNotFound n) = ''model '' @ quoted n @ '' is not registered''"
| "error_display pd (Validation m) = ''validation error: '' @ m"
| "error_display pd (StructuredOutput m) = ''structured output error: '' @ m"
| "error_display pd (LimitExceeded m) = ''limit exceeded: '' @ m"
| "error_display pd (RateLimited m) = ''rate limited: '' @ m"
| "error_display pd (StreamIdleTimeout m) = ''stream idle timeout limit: '' @ m"
| "error_display pd EmptyResponse = ''model returned an empty response''"
| "error_display pd (Timeout m) = ''run timed out: '' @ m"
| "error_display pd (CallTimeout m) = ''call timed out: '' @ m"
| "error_display pd Cancelled = ''run cancelled''"
| "error_display pd (Middleware m) = ''middleware error: '' @ m"
| "error_display pd (Steering_error m) = ''steering error: '' @ m"
| "error_display pd (Memory m) = ''memory error: '' @ m"
| "error_display pd (Embedding m) = ''embedding error: '' @ m"
| "error_display pd (Graph m) = ''graph error: '' @ m"
| "error_display pd (Interrupted n m) = ''graph interrupted at node '' @ quoted n @ '': '' @ m"
| "error_display pd (InvalidConcurrentUpdate m) = ''invalid concurrent update: '' @ m"
| "error_display pd (Checkpoint m) = ''checkpoint error: '' @ m"
| "error_display pd (Resume_error m) = ''cannot resume: '' @ m"
| "error_display pd (Capability m) = ''capability error: '' @ m"
| "error_display pd (DuplicateComponent m) = ''duplicate component: '' @ m"
| "error_display pd (Serialization m) = ''serialization error: '' @ m"
| "error_display pd (Storage m) = ''storage error: '' @ m"

declare error_display.simps [simp del]

end
