(* ===== verification/Limits.thy ===== *)
theory Limits
  imports Errors
begin

text \<open>
  Run limits: \<open>tinyagents-harness/src/limits/types.rs\<close> and \<open>limits/mod.rs\<close>.

  \<open>RunLimits\<close> is the policy record, \<open>LimitTracker\<close> the per-run counters.  An \<open>Instant\<close> is a number
  of nanoseconds of the monotonic clock, passed as \<open>now\<close> to the operations that read the clock.
  The nested-call counter is an atomic shared by concurrent tool futures: its compare-and-swap loop is
  the step relation \<open>nested_step\<close>, and \<open>update_nested\<close> is the atomic operation that relation refines.
  The locale \<open>bounded_counter\<close> is the contract the two call counters share.
\<close>

section \<open>Policy\<close>

datatype LimitBehavior = LimitBehavior_Error | StopWithPartial
datatype LimitKind = ModelCalls | ToolCalls
datatype LimitOutcome = Proceed | Stop LimitKind

fun limit_behavior_as_str :: "LimitBehavior \<Rightarrow> string" where
  "limit_behavior_as_str LimitBehavior_Error = ''error''"
| "limit_behavior_as_str StopWithPartial = ''stop_with_partial''"

fun limit_kind_as_str :: "LimitKind \<Rightarrow> string" where
  "limit_kind_as_str ModelCalls = ''model_calls''"
| "limit_kind_as_str ToolCalls = ''tool_calls''"

record RunLimits =
  max_model_calls :: nat
  max_tool_calls :: nat
  max_wall_clock_ms :: "u64 option"
  max_model_call_ms :: "u64 option"
  max_retries_per_call :: nat
  max_depth :: nat
  behavior :: LimitBehavior
  max_tool_concurrency :: "nat option"
  max_nested_depth :: nat
  stream_idle_timeout_ms :: "u64 option"
  stream_first_event_timeout_ms :: "u64 option"
  max_consecutive_stream_idle_timeouts :: "nat option"

definition default_run_limits :: RunLimits where
  "default_run_limits = \<lparr>
     max_model_calls = 25,
     max_tool_calls = 50,
     max_wall_clock_ms = None,
     max_model_call_ms = None,
     max_retries_per_call = 3,
     max_depth = 8,
     behavior = LimitBehavior_Error,
     max_tool_concurrency = None,
     max_nested_depth = 0,
     stream_idle_timeout_ms = Some 120000,
     stream_first_event_timeout_ms = None,
     max_consecutive_stream_idle_timeouts = Some 5 \<rparr>"

section \<open>Builders\<close>

definition with_max_model_calls :: "nat \<Rightarrow> RunLimits \<Rightarrow> RunLimits" where
  "with_max_model_calls v l = l\<lparr>max_model_calls := v\<rparr>"

definition with_max_tool_calls :: "nat \<Rightarrow> RunLimits \<Rightarrow> RunLimits" where
  "with_max_tool_calls v l = l\<lparr>max_tool_calls := v\<rparr>"

definition with_max_wall_clock_ms :: "u64 option \<Rightarrow> RunLimits \<Rightarrow> RunLimits" where
  "with_max_wall_clock_ms v l = l\<lparr>max_wall_clock_ms := v\<rparr>"

definition with_max_model_call_ms :: "u64 option \<Rightarrow> RunLimits \<Rightarrow> RunLimits" where
  "with_max_model_call_ms v l = l\<lparr>max_model_call_ms := v\<rparr>"

definition with_max_retries_per_call :: "nat \<Rightarrow> RunLimits \<Rightarrow> RunLimits" where
  "with_max_retries_per_call v l = l\<lparr>max_retries_per_call := v\<rparr>"

definition with_max_depth :: "nat \<Rightarrow> RunLimits \<Rightarrow> RunLimits" where
  "with_max_depth v l = l\<lparr>max_depth := v\<rparr>"

definition with_behavior :: "LimitBehavior \<Rightarrow> RunLimits \<Rightarrow> RunLimits" where
  "with_behavior v l = l\<lparr>behavior := v\<rparr>"

definition with_max_tool_concurrency :: "nat option \<Rightarrow> RunLimits \<Rightarrow> RunLimits" where
  "with_max_tool_concurrency v l = l\<lparr>max_tool_concurrency := v\<rparr>"

definition with_max_nested_depth :: "nat \<Rightarrow> RunLimits \<Rightarrow> RunLimits" where
  "with_max_nested_depth v l = l\<lparr>max_nested_depth := v\<rparr>"

definition with_stream_idle_timeout_ms :: "u64 option \<Rightarrow> RunLimits \<Rightarrow> RunLimits" where
  "with_stream_idle_timeout_ms v l = l\<lparr>stream_idle_timeout_ms := v\<rparr>"

definition with_stream_first_event_timeout_ms :: "u64 option \<Rightarrow> RunLimits \<Rightarrow> RunLimits" where
  "with_stream_first_event_timeout_ms v l = l\<lparr>stream_first_event_timeout_ms := v\<rparr>"

definition with_max_consecutive_stream_idle_timeouts :: "nat option \<Rightarrow> RunLimits \<Rightarrow> RunLimits" where
  "with_max_consecutive_stream_idle_timeouts v l = l\<lparr>max_consecutive_stream_idle_timeouts := v\<rparr>"

section \<open>Tracker\<close>

record LimitTracker =
  limits :: RunLimits
  model_calls :: nat
  tool_calls :: nat
  nested_tool_calls :: nat
  consecutive_stream_idle_timeouts :: nat
  stream_idle_timeouts_by_model :: "string \<rightharpoonup> nat"
  skipped_models :: "string set"
  started_at :: nat

definition tracker_new :: "RunLimits \<Rightarrow> nat \<Rightarrow> LimitTracker" where
  "tracker_new l now = \<lparr>
     limits = l,
     model_calls = 0,
     tool_calls = 0,
     nested_tool_calls = 0,
     consecutive_stream_idle_timeouts = 0,
     stream_idle_timeouts_by_model = Map.empty,
     skipped_models = {},
     started_at = now \<rparr>"

definition record_stream_idle_timeout :: "LimitTracker \<Rightarrow> nat \<times> LimitTracker" where
  "record_stream_idle_timeout t =
     (let n = Suc (consecutive_stream_idle_timeouts t)
      in (n, t\<lparr>consecutive_stream_idle_timeouts := n\<rparr>))"

definition reset_stream_idle_timeouts :: "LimitTracker \<Rightarrow> LimitTracker" where
  "reset_stream_idle_timeouts t = t\<lparr>consecutive_stream_idle_timeouts := 0\<rparr>"

definition consecutive_stream_idle_timeouts_for :: "LimitTracker \<Rightarrow> string \<Rightarrow> nat" where
  "consecutive_stream_idle_timeouts_for t m =
     (case stream_idle_timeouts_by_model t m of Some n \<Rightarrow> n | None \<Rightarrow> 0)"

definition record_stream_idle_timeout_for :: "string \<Rightarrow> LimitTracker \<Rightarrow> nat \<times> LimitTracker" where
  "record_stream_idle_timeout_for m t =
     (let n = Suc (case stream_idle_timeouts_by_model t m of Some k \<Rightarrow> k | None \<Rightarrow> 0)
      in (n, t\<lparr>stream_idle_timeouts_by_model := (stream_idle_timeouts_by_model t)(m \<mapsto> n)\<rparr>))"

definition reset_stream_idle_timeouts_for :: "string \<Rightarrow> LimitTracker \<Rightarrow> LimitTracker" where
  "reset_stream_idle_timeouts_for m t =
     t\<lparr>stream_idle_timeouts_by_model := (stream_idle_timeouts_by_model t)(m := None)\<rparr>"

definition skip_model_for_run :: "string \<Rightarrow> LimitTracker \<Rightarrow> LimitTracker" where
  "skip_model_for_run m t = t\<lparr>skipped_models := insert m (skipped_models t)\<rparr>"

definition is_model_skipped :: "LimitTracker \<Rightarrow> string \<Rightarrow> bool" where
  "is_model_skipped t m \<longleftrightarrow> m \<in> skipped_models t"

definition restart :: "nat \<Rightarrow> LimitTracker \<Rightarrow> LimitTracker" where
  "restart now t = t\<lparr>started_at := now\<rparr>"

definition exhausted ::
  "LimitTracker \<Rightarrow> LimitKind \<Rightarrow> nat \<Rightarrow> (TinyAgentsError, LimitOutcome) result" where
  "exhausted t kind cap =
     (case behavior (limits t) of
        LimitBehavior_Error \<Rightarrow>
          Inl (Validation (''max '' @ (case kind of ModelCalls \<Rightarrow> ''model calls''
                                                  | ToolCalls \<Rightarrow> ''tool calls'')
                           @ '' ('' @ show_nat cap @ '') exceeded''))
      | StopWithPartial \<Rightarrow> Inr (Stop kind))"

definition try_record_model_call ::
  "LimitTracker \<Rightarrow> (TinyAgentsError, LimitOutcome) result \<times> LimitTracker" where
  "try_record_model_call t =
     (let t' = t\<lparr>model_calls := Suc (model_calls t)\<rparr> in
      if model_calls t' > max_model_calls (limits t')
      then (exhausted t' ModelCalls (max_model_calls (limits t')), t')
      else (Inr Proceed, t'))"

definition try_record_tool_call ::
  "LimitTracker \<Rightarrow> (TinyAgentsError, LimitOutcome) result \<times> LimitTracker" where
  "try_record_tool_call t =
     (let t' = t\<lparr>tool_calls := Suc (tool_calls t)\<rparr> in
      if tool_calls t' + nested_tool_calls t' > max_tool_calls (limits t')
      then (exhausted t' ToolCalls (max_tool_calls (limits t')), t')
      else (Inr Proceed, t'))"

definition record_model_call ::
  "LimitTracker \<Rightarrow> (TinyAgentsError, unit) result \<times> LimitTracker" where
  "record_model_call t =
     (case try_record_model_call t of (r, t') \<Rightarrow> (result_bind r (\<lambda>_. Inr ()), t'))"

definition record_tool_call ::
  "LimitTracker \<Rightarrow> (TinyAgentsError, unit) result \<times> LimitTracker" where
  "record_tool_call t =
     (case try_record_tool_call t of (r, t') \<Rightarrow> (result_bind r (\<lambda>_. Inr ()), t'))"

definition rollback_tool_calls :: "nat \<Rightarrow> LimitTracker \<Rightarrow> LimitTracker" where
  "rollback_tool_calls n t = t\<lparr>tool_calls := tool_calls t - n\<rparr>"

definition remaining_model_calls :: "LimitTracker \<Rightarrow> nat" where
  "remaining_model_calls t = max_model_calls (limits t) - model_calls t"

definition sync_call_limits :: "nat \<Rightarrow> nat \<Rightarrow> LimitTracker \<Rightarrow> LimitTracker" where
  "sync_call_limits m n t =
     t\<lparr>limits := (limits t)\<lparr>max_model_calls := m, max_tool_calls := n\<rparr>\<rparr>"

definition tighten_call_limits :: "nat \<Rightarrow> nat \<Rightarrow> LimitTracker \<Rightarrow> LimitTracker" where
  "tighten_call_limits m n t =
     t\<lparr>limits := (limits t)\<lparr>max_model_calls := min (max_model_calls (limits t)) m,
                              max_tool_calls := min (max_tool_calls (limits t)) n\<rparr>\<rparr>"

section \<open>Wall clock\<close>

definition nanos_per_ms :: nat where
  "nanos_per_ms = 1000000"

definition elapsed :: "nat \<Rightarrow> LimitTracker \<Rightarrow> nat" where
  "elapsed now t = now - started_at t"

definition check_wall_clock :: "nat \<Rightarrow> LimitTracker \<Rightarrow> (TinyAgentsError, unit) result" where
  "check_wall_clock now t =
     (case max_wall_clock_ms (limits t) of
        Some max_ms \<Rightarrow>
          let elapsed_ms = (of_nat (elapsed now t div nanos_per_ms) :: u64) in
          if elapsed_ms > max_ms
          then Inl (Validation (''wall-clock limit ('' @ show_nat (unat max_ms)
                      @ '' ms) exceeded after '' @ show_nat (unat elapsed_ms) @ '' ms''))
          else Inr ()
      | None \<Rightarrow> Inr ())"

text \<open>The remaining budget, in nanoseconds; truncated subtraction is the saturation at zero.\<close>

definition remaining_wall_clock :: "nat \<Rightarrow> LimitTracker \<Rightarrow> nat option" where
  "remaining_wall_clock now t =
     map_option (\<lambda>ms. unat ms * nanos_per_ms - elapsed now t) (max_wall_clock_ms (limits t))"

section \<open>Nested calls\<close>

definition update_nested :: "(nat \<Rightarrow> nat option) \<Rightarrow> LimitTracker \<Rightarrow> bool \<times> LimitTracker" where
  "update_nested f t =
     (case f (nested_tool_calls t) of
        None \<Rightarrow> (False, t)
      | Some n \<Rightarrow> (True, t\<lparr>nested_tool_calls := n\<rparr>))"

definition reserve_fn :: "nat \<Rightarrow> nat \<Rightarrow> nat \<Rightarrow> nat option" where
  "reserve_fn cap issued nested = (if issued + nested < cap then Some (nested + 1) else None)"

definition release_fn :: "nat \<Rightarrow> nat option" where
  "release_fn nested = (if nested \<ge> 1 then Some (nested - 1) else None)"

definition try_reserve_nested_tool_call ::
  "LimitTracker \<Rightarrow> (TinyAgentsError, unit) result \<times> LimitTracker" where
  "try_reserve_nested_tool_call t =
     (let cap = max_tool_calls (limits t);
          issued = tool_calls t in
      case update_nested (reserve_fn cap issued) t of
        (True, t') \<Rightarrow> (Inr (), t')
      | (False, t') \<Rightarrow>
          (Inl (LimitExceeded (''max tool calls ('' @ show_nat cap
                               @ '') exceeded by a nested tool call'')), t'))"

definition release_nested_tool_call :: "LimitTracker \<Rightarrow> LimitTracker" where
  "release_nested_tool_call t = snd (update_nested release_fn t)"

text \<open>
  The loop of \<open>update_nested\<close> as concurrent tool futures run it.  A thread that has loaded the
  counter holds the operation and the value it saw; \<open>ns_done\<close> is the history of operations whose
  compare-and-swap succeeded, oldest first.  \<open>compare_exchange_weak\<close> may fail at any time, and a
  failure re-loads the counter.
\<close>

datatype nested_op = Reserve | Release

fun nested_fn :: "nat \<Rightarrow> nat \<Rightarrow> nested_op \<Rightarrow> nat \<Rightarrow> nat option" where
  "nested_fn cap issued Reserve n = reserve_fn cap issued n"
| "nested_fn cap issued Release n = release_fn n"

record nested_state =
  ns_counter :: nat
  ns_threads :: "nat \<rightharpoonup> nested_op \<times> nat"
  ns_done :: "nested_op list"

inductive nested_step :: "nat \<Rightarrow> nat \<Rightarrow> nested_state \<Rightarrow> nested_state \<Rightarrow> bool"
  for cap issued :: nat where
  load: "ns_threads s i = None \<Longrightarrow>
    nested_step cap issued s (s\<lparr>ns_threads := (ns_threads s)(i \<mapsto> (op, ns_counter s))\<rparr>)"
| decline: "ns_threads s i = Some (op, cur) \<Longrightarrow> nested_fn cap issued op cur = None \<Longrightarrow>
    nested_step cap issued s (s\<lparr>ns_threads := (ns_threads s)(i := None)\<rparr>)"
| swap: "ns_threads s i = Some (op, cur) \<Longrightarrow> nested_fn cap issued op cur = Some nxt \<Longrightarrow>
    ns_counter s = cur \<Longrightarrow>
    nested_step cap issued s
      (s\<lparr>ns_counter := nxt, ns_threads := (ns_threads s)(i := None), ns_done := ns_done s @ [op]\<rparr>)"
| retry: "ns_threads s i = Some (op, cur) \<Longrightarrow> nested_fn cap issued op cur = Some nxt \<Longrightarrow>
    nested_step cap issued s (s\<lparr>ns_threads := (ns_threads s)(i \<mapsto> (op, ns_counter s))\<rparr>)"

definition nested_init :: "nat \<Rightarrow> nested_state" where
  "nested_init c = \<lparr>ns_counter = c, ns_threads = Map.empty, ns_done = []\<rparr>"

text \<open>The sequential reading of a history: each operation applied to the counter in turn.\<close>

fun nested_replay :: "nat \<Rightarrow> nat \<Rightarrow> nested_op list \<Rightarrow> nat \<Rightarrow> nat option" where
  "nested_replay cap issued [] n = Some n"
| "nested_replay cap issued (op # ops) n =
     (case nested_fn cap issued op n of None \<Rightarrow> None | Some m \<Rightarrow> nested_replay cap issued ops m)"

lemma nested_replay_append:
  "nested_replay cap issued (xs @ ys) n =
     (case nested_replay cap issued xs n of None \<Rightarrow> None | Some m \<Rightarrow> nested_replay cap issued ys m)"
  by (induction xs arbitrary: n) (auto split: option.splits)

lemma nested_replay_bound:
  "nested_replay cap issued ops n = Some m \<Longrightarrow> issued + n \<le> cap \<Longrightarrow> issued + m \<le> cap"
proof (induction ops arbitrary: n)
  case (Cons op ops)
  then show ?case
    by (cases op) (auto simp: reserve_fn_def release_fn_def split: if_splits option.splits)
qed simp

lemma nested_replay_balance:
  "nested_replay cap issued ops n = Some m \<Longrightarrow>
     m + count_list ops Release = n + count_list ops Reserve"
proof (induction ops arbitrary: n)
  case (Cons op ops)
  then show ?case
    by (cases op) (fastforce simp: reserve_fn_def release_fn_def split: if_splits option.splits)+
qed simp

lemma nested_step_replay:
  assumes "nested_step cap issued s s'"
    and "nested_replay cap issued (ns_done s) n = Some (ns_counter s)"
  shows "nested_replay cap issued (ns_done s') n = Some (ns_counter s')"
  using assms by cases (auto simp: nested_replay_append)

lemma nested_reachable_replay:
  assumes "(nested_step cap issued)\<^sup>*\<^sup>* (nested_init n) s"
  shows "nested_replay cap issued (ns_done s) n = Some (ns_counter s)"
  using assms
  by (induction rule: rtranclp_induct) (auto simp: nested_init_def intro: nested_step_replay)

section \<open>The contract of the two call counters\<close>

primrec record_n :: "('t \<Rightarrow> 'r \<times> 't) \<Rightarrow> nat \<Rightarrow> 't \<Rightarrow> 'r list \<times> 't" where
  "record_n f 0 t = ([], t)"
| "record_n f (Suc n) t =
     (let (r, t') = f t; (rs, t'') = record_n f n t' in (r # rs, t''))"

locale bounded_counter =
  fixes record_call :: "'t \<Rightarrow> ('e, LimitOutcome) result \<times> 't"
    and used :: "'t \<Rightarrow> nat"
    and cap :: "'t \<Rightarrow> nat"
    and refusal :: "'t \<Rightarrow> ('e, LimitOutcome) result"
  assumes used_record: "used (snd (record_call t)) = Suc (used t)"
    and cap_record: "cap (snd (record_call t)) = cap t"
    and refusal_record: "refusal (snd (record_call t)) = refusal t"
    and admit: "used t < cap t \<Longrightarrow> fst (record_call t) = Inr Proceed"
    and refuse: "cap t \<le> used t \<Longrightarrow> fst (record_call t) = refusal t"
begin

lemma record_n_used: "used (snd (record_n record_call n t)) = used t + n"
  by (induction n arbitrary: t) (simp_all add: Let_def split_beta used_record)

lemma record_n_outcomes:
  "fst (record_n record_call n t) =
     replicate (min n (cap t - used t)) (Inr Proceed) @ replicate (n - (cap t - used t)) (refusal t)"
proof (induction n arbitrary: t)
  case (Suc n)
  show ?case
  proof (cases "used t < cap t")
    case True
    then have "cap t - used t = Suc (cap t - Suc (used t))" by simp
    with True show ?thesis
      by (simp add: Let_def split_beta admit Suc.IH used_record cap_record refusal_record)
  next
    case False
    then show ?thesis
      by (simp add: Let_def split_beta refuse Suc.IH used_record cap_record refusal_record)
  qed
qed simp

end

lemma exhausted_update [simp]:
  "exhausted (t\<lparr>model_calls := n\<rparr>) k c = exhausted t k c"
  "exhausted (t\<lparr>tool_calls := n\<rparr>) k c = exhausted t k c"
  by (simp_all add: exhausted_def)

lemma try_record_fields [simp]:
  "snd (try_record_model_call t) = t\<lparr>model_calls := Suc (model_calls t)\<rparr>"
  "snd (try_record_tool_call t) = t\<lparr>tool_calls := Suc (tool_calls t)\<rparr>"
  by (simp_all add: try_record_model_call_def try_record_tool_call_def Let_def)

interpretation mc: bounded_counter try_record_model_call model_calls
  "\<lambda>t. max_model_calls (limits t)"
  "\<lambda>t. exhausted t ModelCalls (max_model_calls (limits t))"
  by unfold_locales (simp_all add: try_record_model_call_def Let_def)

interpretation tc: bounded_counter try_record_tool_call
  "\<lambda>t. tool_calls t + nested_tool_calls t"
  "\<lambda>t. max_tool_calls (limits t)"
  "\<lambda>t. exhausted t ToolCalls (max_tool_calls (limits t))"
  by unfold_locales (simp_all add: try_record_tool_call_def Let_def)

lemma record_n_tool_calls:
  "snd (record_n try_record_tool_call n t) = t\<lparr>tool_calls := tool_calls t + n\<rparr>"
  by (induction n arbitrary: t) (simp_all add: Let_def split_beta)

section \<open>Properties\<close>


text \<open>
  A batch of \<open>n\<close> tool calls counts nested calls against the same cap, and rolling back the refused
  ones leaves exactly the executed calls counted: the combined count is then within the cap whenever
  it was before.
\<close>

theorem tool_batch_rollback:
  assumes "tool_calls t + nested_tool_calls t \<le> max_tool_calls (limits t)"
  shows "let (outcomes, t') = record_n try_record_tool_call n t;
             executed = length (filter (\<lambda>r. r = Inr Proceed) outcomes);
             t'' = rollback_tool_calls (n - executed) t'
         in executed = min n (max_tool_calls (limits t) - (tool_calls t + nested_tool_calls t)) \<and>
            tool_calls t'' = tool_calls t + executed \<and>
            tool_calls t'' + nested_tool_calls t'' \<le> max_tool_calls (limits t'')"
proof -
  let ?room = "max_tool_calls (limits t) - (tool_calls t + nested_tool_calls t)"
  have "exhausted t ToolCalls (max_tool_calls (limits t)) \<noteq> Inr Proceed"
    by (simp add: exhausted_def split: LimitBehavior.split)
  then have "length (filter (\<lambda>r. r = Inr Proceed) (fst (record_n try_record_tool_call n t)))
               = min n ?room"
    by (simp add: tc.record_n_outcomes)
  with assms show ?thesis
    by (simp add: split_beta Let_def record_n_tool_calls rollback_tool_calls_def)
qed

theorem tool_batch_rollback_witness:
  "let t = tracker_new (default_run_limits\<lparr>max_tool_calls := 2\<rparr>) 0;
       (outcomes, t') = record_n try_record_tool_call 5 t;
       executed = length (filter (\<lambda>r. r = Inr Proceed) outcomes)
   in executed = 2 \<and> tool_calls (rollback_tool_calls (5 - executed) t') = 2"
  using tool_batch_rollback [of "tracker_new (default_run_limits\<lparr>max_tool_calls := 2\<rparr>) 0" 5]
  by (auto simp: tracker_new_def split_beta Let_def)

text \<open>
  C8. Concurrent nested reservations cannot overspend the tool-call cap, whatever the interleaving and
  however often \<open>compare_exchange_weak\<close> fails: the counter equals the sequential replay of the
  operations that returned \<open>true\<close>, it is the initial value plus reservations minus releases, and
  together with the model-issued calls it stays within the cap.
\<close>

theorem nested_reservations_linearizable:
  assumes "(nested_step cap issued)\<^sup>*\<^sup>* (nested_init n) s"
    and "issued + n \<le> cap"
  shows "nested_replay cap issued (ns_done s) n = Some (ns_counter s) \<and>
         ns_counter s + count_list (ns_done s) Release = n + count_list (ns_done s) Reserve \<and>
         issued + ns_counter s \<le> cap"
  using nested_reachable_replay [OF assms(1)] assms(2) nested_replay_bound nested_replay_balance
  by blast

theorem nested_reservations_linearizable_witness:
  "\<exists>s. (nested_step 3 1)\<^sup>*\<^sup>* (nested_init 1) s \<and> ns_done s = [Reserve] \<and> ns_counter s = 2 \<and>
       nested_replay 3 1 (ns_done s) 1 = Some (ns_counter s) \<and> 1 + ns_counter s \<le> 3"
proof -
  let ?s1 = "(nested_init 1)\<lparr>ns_threads := [0 \<mapsto> (Reserve, 1)]\<rparr>"
  let ?s2 = "?s1\<lparr>ns_counter := 2, ns_threads := (ns_threads ?s1)(0 := None), ns_done := [Reserve]\<rparr>"
  have "nested_step 3 1 (nested_init 1) ?s1"
    using nested_step.load [of "nested_init 1" 0 3 1 Reserve] by (simp add: nested_init_def)
  moreover have "nested_step 3 1 ?s1 ?s2"
    using nested_step.swap [of ?s1 0 Reserve 1 3 1 2]
    by (simp add: nested_init_def reserve_fn_def)
  ultimately have r: "(nested_step 3 1)\<^sup>*\<^sup>* (nested_init 1) ?s2"
    by (meson rtranclp.rtrancl_into_rtrancl rtranclp.rtrancl_refl)
  then show ?thesis
    using nested_reservations_linearizable [OF r] by (intro exI [of _ ?s2]) (simp add: nested_init_def)
qed

text \<open>
  The two wall-clock readings agree: once \<open>check_wall_clock\<close> reports the deadline as passed, the
  remaining budget is zero, and while budget remains the check succeeds.  A run without a deadline is
  never bounded.
\<close>

theorem wall_clock_check_agrees:
  "(\<forall>e. check_wall_clock now t = Inl e \<longrightarrow> remaining_wall_clock now t = Some 0) \<and>
   (remaining_wall_clock now t = None \<longleftrightarrow> max_wall_clock_ms (limits t) = None) \<and>
   (\<forall>r. remaining_wall_clock now t = Some r \<and> r > 0 \<longrightarrow> check_wall_clock now t = Inr ())"
proof -
  have le: "unat m * nanos_per_ms \<le> elapsed now t"
    if "m < (of_nat (elapsed now t div nanos_per_ms) :: u64)" for m :: u64
  proof -
    have "unat m < unat (of_nat (elapsed now t div nanos_per_ms) :: u64)"
      using that by (simp add: word_less_nat_alt)
    also have "\<dots> \<le> elapsed now t div nanos_per_ms"
      by (simp add: unat_of_nat)
    finally have "unat m * nanos_per_ms \<le> elapsed now t div nanos_per_ms * nanos_per_ms"
      by simp
    then show ?thesis
      by (meson div_times_less_eq_dividend le_trans)
  qed
  then show ?thesis
    by (fastforce simp: check_wall_clock_def remaining_wall_clock_def Let_def
                  split: option.splits if_splits)
qed

theorem wall_clock_check_agrees_witness:
  "let t = tracker_new (default_run_limits\<lparr>max_wall_clock_ms := Some 5\<rparr>) 0
   in is_ok (check_wall_clock 3000000 t) \<and> remaining_wall_clock 3000000 t = Some 2000000 \<and>
      \<not> is_ok (check_wall_clock 7000000 t) \<and> remaining_wall_clock 7000000 t = Some 0"
proof -
  let ?t = "tracker_new (default_run_limits\<lparr>max_wall_clock_ms := Some 5\<rparr>) 0"
  have "remaining_wall_clock 3000000 ?t = Some 2000000" "\<exists>e. check_wall_clock 7000000 ?t = Inl e"
    by (simp_all add: remaining_wall_clock_def check_wall_clock_def tracker_new_def elapsed_def
                      nanos_per_ms_def)
  then show ?thesis
    using wall_clock_check_agrees [of 3000000 ?t] wall_clock_check_agrees [of 7000000 ?t] by auto
qed

end
