(* ===== verification/Failover.thy ===== *)
theory Failover
  imports Errors
begin

text \<open>
  Retry policy and reason-aware failover: \<open>tinyagents-harness/src/retry/types.rs\<close>,
  \<open>retry/mod.rs\<close> and \<open>retry/failover.rs\<close>.

  The provider-message matchers of \<open>tinyinference_llm::failure\<close> are third-party; they are the fields
  of the record \<open>failure_port\<close>, an argument of the classification.  Its failure classes are the ones
  the code names, plus \<open>OtherFailureClass\<close>.  The floating-point backoff schedule
  (\<open>backoff_for_attempt\<close>) and the token bucket \<open>RateLimiter\<close> are not modelled; a computed backoff
  is an argument of \<open>backoff_for_error\<close>, and an \<open>f64\<close> field is kept as its bit pattern.
\<close>

section \<open>Third-party matchers\<close>

datatype ProviderFailureClass =
    NonRetryableRateLimit
  | RateLimitedClass
  | UpstreamUnhealthy
  | NonRetryable
  | OtherFailureClass nat

record failure_port =
  classify_provider_failure :: "u16 option \<Rightarrow> string option \<Rightarrow> string \<Rightarrow> ProviderFailureClass"
  class_is_retryable :: "ProviderFailureClass \<Rightarrow> bool"
  is_context_window_exceeded_message :: "string \<Rightarrow> bool"
  body_indicates_insufficient_credits :: "string \<Rightarrow> bool"
  body_indicates_quota_exhausted :: "string \<Rightarrow> bool"
  body_indicates_auth_key_error :: "string \<Rightarrow> bool"
  body_indicates_provider_access_policy_denied :: "string \<Rightarrow> bool"
  body_indicates_no_model_loaded :: "string \<Rightarrow> bool"
  structured_http_status :: "string \<Rightarrow> u16 option"
  parse_retry_after_ms :: "string \<Rightarrow> u64 option"

section \<open>Retry policy\<close>

record RetryPolicy =
  max_attempts :: nat
  initial_backoff_ms :: u64
  max_backoff_ms :: u64
  multiplier_bits :: u64
  jitter :: bool
  backoff_sleep :: bool
  max_retry_after_ms :: u64
  retry_on :: "(TinyAgentsError \<Rightarrow> bool) option"

definition DEFAULT_MAX_RETRY_AFTER_MS :: u64 where
  "DEFAULT_MAX_RETRY_AFTER_MS = 120000"

text \<open>\<open>0x4000000000000000\<close> is the bit pattern of the \<open>f64\<close> value 2.0.\<close>

definition default_retry_policy :: RetryPolicy where
  "default_retry_policy = \<lparr>
     max_attempts = 4,
     initial_backoff_ms = 200,
     max_backoff_ms = 30000,
     multiplier_bits = 0x4000000000000000,
     jitter = False,
     backoff_sleep = True,
     max_retry_after_ms = DEFAULT_MAX_RETRY_AFTER_MS,
     retry_on = None \<rparr>"

definition with_max_attempts :: "nat \<Rightarrow> RetryPolicy \<Rightarrow> RetryPolicy" where
  "with_max_attempts n p = p\<lparr>max_attempts := n\<rparr>"

definition is_retryable :: "failure_port \<Rightarrow> TinyAgentsError \<Rightarrow> bool" where
  "is_retryable fp err =
     (case err of
        Provider e \<Rightarrow> pe_retryable e
      | Model message \<Rightarrow>
          class_is_retryable fp (classify_provider_failure fp None None message)
      | Tool _ \<Rightarrow> True
      | ModelRetry _ \<Rightarrow> True
      | ToolFailed _ \<Rightarrow> False
      | CallTimeout _ \<Rightarrow> True
      | RateLimited _ \<Rightarrow> True
      | _ \<Rightarrow> False)"

definition is_retryable_error :: "failure_port \<Rightarrow> RetryPolicy \<Rightarrow> TinyAgentsError \<Rightarrow> bool" where
  "is_retryable_error fp p e =
     (case retry_on p of Some predicate \<Rightarrow> predicate e | None \<Rightarrow> is_retryable fp e)"

definition should_retry :: "RetryPolicy \<Rightarrow> nat \<Rightarrow> bool" where
  "should_retry p attempt \<longleftrightarrow> attempt + 1 < max_attempts p"

definition should_retry_error :: "failure_port \<Rightarrow> RetryPolicy \<Rightarrow> nat \<Rightarrow> TinyAgentsError \<Rightarrow> bool" where
  "should_retry_error fp p attempt e \<longleftrightarrow> is_retryable_error fp p e \<and> should_retry p attempt"

definition max_attempts_capped_at :: "RetryPolicy \<Rightarrow> nat \<Rightarrow> nat" where
  "max_attempts_capped_at p max_retries = min (max_attempts p) (max_retries + 1)"

text \<open>Delays are milliseconds; a server-supplied delay can only lengthen the computed one.\<close>

definition retry_after_hint :: "failure_port \<Rightarrow> TinyAgentsError \<Rightarrow> u64 option" where
  "retry_after_hint fp e =
     (case e of
        Provider pe \<Rightarrow>
          (case pe_retry_after_ms pe of
             Some ms \<Rightarrow> Some ms
           | None \<Rightarrow> parse_retry_after_ms fp (pe_message pe))
      | Model message \<Rightarrow> parse_retry_after_ms fp message
      | Tool message \<Rightarrow> parse_retry_after_ms fp message
      | _ \<Rightarrow> None)"

definition clamped_retry_after :: "failure_port \<Rightarrow> RetryPolicy \<Rightarrow> TinyAgentsError \<Rightarrow> u64 option" where
  "clamped_retry_after fp p e =
     map_option (\<lambda>hint. min hint (max_retry_after_ms p)) (retry_after_hint fp e)"

definition backoff_for_error ::
  "failure_port \<Rightarrow> RetryPolicy \<Rightarrow> u64 \<Rightarrow> TinyAgentsError \<Rightarrow> u64" where
  "backoff_for_error fp p computed e =
     (case clamped_retry_after fp p e of Some hint \<Rightarrow> max computed hint | None \<Rightarrow> computed)"

section \<open>Failover reasons and decisions\<close>

datatype FailoverReason =
    Auth | AuthPermanent | Billing | RateLimit | Overloaded | LimitExceeded_reason
  | StreamIdleTimeout_reason | Timeout_reason | Format | ContextOverflow_reason
  | ModelNotFound_reason | EmptyResponse_reason | Transport | Unknown

datatype FailoverDecision = RetrySame | Fallback | Surface

record FailoverState =
  fs_retryable :: bool
  attempts_remaining :: bool
  larger_window_available :: bool

definition for_error ::
  "failure_port \<Rightarrow> RetryPolicy \<Rightarrow> nat \<Rightarrow> TinyAgentsError \<Rightarrow> FailoverState" where
  "for_error fp p attempt e = \<lparr>
     fs_retryable = is_retryable_error fp p e,
     attempts_remaining = should_retry p attempt,
     larger_window_available = False \<rparr>"

fun failover_reason_as_str :: "FailoverReason \<Rightarrow> string" where
  "failover_reason_as_str Auth = ''auth''"
| "failover_reason_as_str AuthPermanent = ''auth_permanent''"
| "failover_reason_as_str Billing = ''billing''"
| "failover_reason_as_str RateLimit = ''rate_limit''"
| "failover_reason_as_str Overloaded = ''overloaded''"
| "failover_reason_as_str LimitExceeded_reason = ''limit_exceeded''"
| "failover_reason_as_str StreamIdleTimeout_reason = ''stream_idle_timeout''"
| "failover_reason_as_str Timeout_reason = ''timeout''"
| "failover_reason_as_str Format = ''format''"
| "failover_reason_as_str ContextOverflow_reason = ''context_overflow''"
| "failover_reason_as_str ModelNotFound_reason = ''model_not_found''"
| "failover_reason_as_str EmptyResponse_reason = ''empty_response''"
| "failover_reason_as_str Transport = ''transport''"
| "failover_reason_as_str Unknown = ''unknown''"

definition skips_model_for_run :: "FailoverReason \<Rightarrow> bool" where
  "skips_model_for_run r \<longleftrightarrow> r = AuthPermanent"

fun decide :: "FailoverReason \<Rightarrow> FailoverState \<Rightarrow> FailoverDecision" where
  "decide RateLimit s = (if fs_retryable s \<and> attempts_remaining s then RetrySame else Fallback)"
| "decide Overloaded s = (if fs_retryable s \<and> attempts_remaining s then RetrySame else Fallback)"
| "decide Timeout_reason s = (if fs_retryable s \<and> attempts_remaining s then RetrySame else Fallback)"
| "decide Transport s = (if fs_retryable s \<and> attempts_remaining s then RetrySame else Fallback)"
| "decide EmptyResponse_reason s =
     (if fs_retryable s \<and> attempts_remaining s then RetrySame else Fallback)"
| "decide Unknown s = (if fs_retryable s \<and> attempts_remaining s then RetrySame else Fallback)"
| "decide Auth s = Fallback"
| "decide AuthPermanent s = Fallback"
| "decide Billing s = Fallback"
| "decide ModelNotFound_reason s = Fallback"
| "decide Format s = Fallback"
| "decide LimitExceeded_reason s = Surface"
| "decide StreamIdleTimeout_reason s = Fallback"
| "decide ContextOverflow_reason s = (if larger_window_available s then Fallback else Surface)"

section \<open>Classification\<close>

definition PERMANENT_AUTH_MARKERS :: "string list" where
  "PERMANENT_AUTH_MARKERS = [''revoked'', ''deactivated'', ''suspended'', ''banned'']"

definition is_ascii_digit :: "char \<Rightarrow> bool" where
  "is_ascii_digit c \<longleftrightarrow> 48 \<le> (of_char c :: nat) \<and> (of_char c :: nat) \<le> 57"

definition is_ascii_alphanumeric :: "char \<Rightarrow> bool" where
  "is_ascii_alphanumeric c \<longleftrightarrow>
     is_ascii_digit c \<or>
     (65 \<le> (of_char c :: nat) \<and> (of_char c :: nat) \<le> 90) \<or>
     (97 \<le> (of_char c :: nat) \<and> (of_char c :: nat) \<le> 122)"

definition ascii_lower :: "char \<Rightarrow> char" where
  "ascii_lower c =
     (let n = (of_char c :: nat) in if 65 \<le> n \<and> n \<le> 90 then char_of (n + 32) else c)"

definition to_ascii_lowercase :: "string \<Rightarrow> string" where
  "to_ascii_lowercase s = map ascii_lower s"

text \<open>The maximal runs of alphanumeric bytes: \<open>split\<close> on the rest, empty pieces dropped.\<close>

fun split_words :: "string \<Rightarrow> string \<Rightarrow> string list" where
  "split_words acc [] = (if acc = [] then [] else [rev acc])"
| "split_words acc (c # cs) =
     (if is_ascii_alphanumeric c then split_words (c # acc) cs
      else (if acc = [] then split_words [] cs else rev acc # split_words [] cs))"

definition has_transient_transport_phrase :: "string \<Rightarrow> bool" where
  "has_transient_transport_phrase lower =
     (let words = split_words [] lower;
          has_phrase = (\<lambda>phrase. sublist phrase words) in
      has_phrase [''connection'']
      \<or> has_phrase [''connect'', ''error'']
      \<or> has_phrase [''broken'', ''pipe'']
      \<or> has_phrase [''reset'', ''by'', ''peer'']
      \<or> has_phrase [''deadline'', ''exceeded'']
      \<or> has_phrase [''temporarily'', ''unavailable'']
      \<or> list_ex (\<lambda>w. length w = 3 \<and> take 1 w = ''5'' \<and> list_all is_ascii_digit w) words)"

definition status_in :: "u16 option \<Rightarrow> nat \<Rightarrow> nat \<Rightarrow> bool" where
  "status_in status lo hi =
     (case status of Some s \<Rightarrow> lo \<le> unat s \<and> unat s \<le> hi | None \<Rightarrow> False)"

definition classify_text ::
  "failure_port \<Rightarrow> u16 option \<Rightarrow> string option \<Rightarrow> string \<Rightarrow> bool \<Rightarrow> FailoverReason \<Rightarrow> FailoverReason"
where
  "classify_text fp status0 code message provider_retryable unknown_fallback =
    (let lower = (case code of
                    Some c \<Rightarrow> if str_trim c \<noteq> [] then to_ascii_lowercase (message @ '' '' @ c)
                             else to_ascii_lowercase message
                  | None \<Rightarrow> to_ascii_lowercase message);
         status = (case status0 of Some s \<Rightarrow> Some s | None \<Rightarrow> structured_http_status fp message);
         failure = classify_provider_failure fp status code message;
         key_error = (body_indicates_auth_key_error fp message
                      \<or> body_indicates_provider_access_policy_denied fp message);
         client_error = (status_in status 400 499 \<and> status \<noteq> Some 408)
     in
     if is_context_window_exceeded_message fp message \<or> contains lower ''context_length_exceeded''
     then ContextOverflow_reason
     else if status = Some 402
          \<or> failure = NonRetryableRateLimit
          \<or> body_indicates_insufficient_credits fp message
          \<or> body_indicates_quota_exhausted fp message
          \<or> contains lower ''insufficient_quota''
          \<or> contains lower ''current quota''
     then Billing
     else if status = Some 401 \<or> status = Some 403 \<or> key_error
     then (if list_ex (\<lambda>m. contains lower m) PERMANENT_AUTH_MARKERS then AuthPermanent else Auth)
     else if contains lower ''model_not_found''
          \<or> contains lower ''model not found''
          \<or> body_indicates_no_model_loaded fp message
          \<or> (contains lower ''model''
             \<and> (contains lower ''does not exist'' \<or> contains lower ''unknown model'')
             \<and> \<not> (status = Some 429 \<or> status_in status 500 599))
          \<or> (status = Some 404 \<and> contains lower ''model'')
     then ModelNotFound_reason
     else if status = Some 429 \<or> failure = RateLimitedClass
     then RateLimit
     else if status = Some 408
          \<or> (\<not> client_error \<and> (contains lower ''timed out'' \<or> contains lower ''timeout''))
     then Timeout_reason
     else if status = Some 503 \<or> status = Some 529
          \<or> contains lower ''overloaded'' \<or> contains lower ''over capacity''
     then Overloaded
     else if \<not> client_error \<and> has_transient_transport_phrase lower
     then Transport
     else if status = Some 409 \<or> status_in status 500 599
     then Transport
     else if status_in status 400 499
     then Format
     else (case failure of
             UpstreamUnhealthy \<Rightarrow> Transport
           | NonRetryable \<Rightarrow>
               if \<not> provider_retryable \<or> status = None then Format else unknown_fallback
           | _ \<Rightarrow> unknown_fallback))"

definition classify :: "failure_port \<Rightarrow> TinyAgentsError \<Rightarrow> FailoverReason" where
  "classify fp err =
     (case err of
        Provider e \<Rightarrow>
          classify_text fp (pe_status e) (pe_code e) (pe_message e) (pe_retryable e) Transport
      | Model message \<Rightarrow> classify_text fp None None message True Transport
      | ContextOverflow _ _ _ \<Rightarrow> ContextOverflow_reason
      | ModelNotFound _ \<Rightarrow> ModelNotFound_reason
      | EmptyResponse \<Rightarrow> EmptyResponse_reason
      | CallTimeout _ \<Rightarrow> Timeout_reason
      | Timeout _ \<Rightarrow> Timeout_reason
      | RateLimited _ \<Rightarrow> RateLimit
      | LimitExceeded _ \<Rightarrow> LimitExceeded_reason
      | StreamIdleTimeout _ \<Rightarrow> StreamIdleTimeout_reason
      | Validation _ \<Rightarrow> Format
      | _ \<Rightarrow> Unknown)"

definition classify_unstructured :: "failure_port \<Rightarrow> string \<Rightarrow> FailoverReason" where
  "classify_unstructured fp message = classify_text fp None None message True Unknown"

section \<open>Fallback chain\<close>

record FallbackPolicy =
  fallback_models :: "string list"

fun next_in :: "string list \<Rightarrow> string \<Rightarrow> string option" where
  "next_in [] current = None"
| "next_in (m # ms) current =
     (if m = current then (case ms of [] \<Rightarrow> None | n # _ \<Rightarrow> Some n) else next_in ms current)"

definition next_after :: "FallbackPolicy \<Rightarrow> string \<Rightarrow> string option" where
  "next_after p current = next_in (fallback_models p) current"

section \<open>Lemmas\<close>

lemma decide_RetrySame_iff:
  "decide r s = RetrySame \<longleftrightarrow>
     r \<in> {RateLimit, Overloaded, Timeout_reason, Transport, EmptyResponse_reason, Unknown}
     \<and> fs_retryable s \<and> attempts_remaining s"
  by (cases r) auto

lemma decide_Surface_iff:
  "decide r s = Surface \<longleftrightarrow>
     r = LimitExceeded_reason \<or> (r = ContextOverflow_reason \<and> \<not> larger_window_available s)"
  by (cases r) auto

lemma for_error_attempts [simp]:
  "attempts_remaining (for_error fp p a e) \<longleftrightarrow> a + 1 < max_attempts p"
  by (simp add: for_error_def should_retry_def)

lemma max_attempts_with [simp]: "max_attempts (with_max_attempts n p) = n"
  by (simp add: with_max_attempts_def)

lemma next_in_mem: "next_in ms c = Some n \<Longrightarrow> n \<in> set ms"
  by (induction ms c rule: next_in.induct) (auto split: if_splits list.splits)

lemma next_after_mem: "next_after p c = Some n \<Longrightarrow> n \<in> set (fallback_models p)"
  by (simp add: next_after_def next_in_mem)

lemma classify_text_auth_status:
  assumes "status \<in> {Some 401, Some 402, Some 403}"
  shows "classify_text fp status code message retry unknown
           \<in> {ContextOverflow_reason, Billing, Auth, AuthPermanent}"
proof -
  from assms consider "status = Some 401" | "status = Some 402" | "status = Some 403" by auto
  then show ?thesis by cases (simp_all add: classify_text_def Let_def)
qed

section \<open>Properties\<close>

text \<open>
  C35. A rejected credential or an exhausted balance is never re-sent to the same model: for a provider
  error with status 401, 402 or 403 no retry policy, caller predicate, provider flag or message text
  makes the failover table answer \<open>RetrySame\<close>.
\<close>

theorem auth_status_never_retried:
  assumes "pe_status e \<in> {Some 401, Some 402, Some 403}"
  shows "decide (classify fp (Provider e)) (for_error fp p attempt (Provider e)) \<noteq> RetrySame"
  using classify_text_auth_status [OF assms, of fp "pe_code e" "pe_message e" "pe_retryable e" Transport]
  by (auto simp: classify_def decide_RetrySame_iff)

definition sample_port :: failure_port where
  "sample_port = \<lparr>
     classify_provider_failure = (\<lambda>_ _ _. OtherFailureClass 0),
     class_is_retryable = (\<lambda>_. True),
     is_context_window_exceeded_message = (\<lambda>_. False),
     body_indicates_insufficient_credits = (\<lambda>_. False),
     body_indicates_quota_exhausted = (\<lambda>_. False),
     body_indicates_auth_key_error = (\<lambda>_. False),
     body_indicates_provider_access_policy_denied = (\<lambda>_. False),
     body_indicates_no_model_loaded = (\<lambda>_. False),
     structured_http_status = (\<lambda>_. None),
     parse_retry_after_ms = (\<lambda>_. None) \<rparr>"

theorem auth_status_never_retried_witness:
  "decide (classify sample_port (Provider \<lparr>pe_provider = ''p'', pe_model = None, pe_status = Some 401,
       pe_code = None, pe_message = ''overloaded'', pe_retryable = True, pe_retry_after_ms = None\<rparr>))
     (for_error sample_port (default_retry_policy\<lparr>retry_on := Some (\<lambda>_. True)\<rparr>) 0
       (Provider \<lparr>pe_provider = ''p'', pe_model = None, pe_status = Some 401,
       pe_code = None, pe_message = ''overloaded'', pe_retryable = True, pe_retry_after_ms = None\<rparr>))
   \<noteq> RetrySame"
  by (rule auth_status_never_retried) simp

text \<open>
  The delay before a retry is never shorter than the policy's own backoff, and a server-supplied
  delay cannot stretch it past the configured ceiling.
\<close>

theorem backoff_for_error_bounds:
  "computed \<le> backoff_for_error fp p computed e \<and>
   backoff_for_error fp p computed e \<le> max computed (max_retry_after_ms p)"
  by (cases "retry_after_hint fp e")
     (auto simp: backoff_for_error_def clamped_retry_after_def max.coboundedI2)

end
