(* ===== verification/ModelCall.thy ===== *)
theory ModelCall
  imports Limits Failover
begin

text \<open>
  One logical model call with retries and the fallback chain:
  \<open>tinyagents-harness/src/agent_loop/model_call.rs\<close> (\<open>invoke_model_resolving\<close>, \<open>select_fallback\<close>,
  \<open>stream_idle_breaker_error\<close>, \<open>call_budget\<close>, \<open>model_call_budget\<close>) and
  \<open>agent_loop/model_switch.rs\<close> (\<open>fallback_starts_at_chain_head\<close>).

  What happens outside these functions is the record \<open>call_env\<close>: one physical attempt (the provider
  call with its time budget, which may record idle timeouts on the tracker), the name resolver, the
  sleep raced against cancellation, and the readings of the model profile and the host binding.
  \<open>cc_sent\<close> is a history of the model names asked, in order.
\<close>

section \<open>Time budgets\<close>

definition call_budget :: "RunLimits \<Rightarrow> nat \<Rightarrow> LimitTracker \<Rightarrow> nat option" where
  "call_budget policy now t =
     (let config_budget = remaining_wall_clock now t;
          policy_budget = map_option (\<lambda>ms. unat ms * nanos_per_ms - elapsed now t)
                            (max_wall_clock_ms policy)
      in case (config_budget, policy_budget) of
           (Some a, Some b) \<Rightarrow> Some (min a b)
         | (Some a, None) \<Rightarrow> Some a
         | (None, Some b) \<Rightarrow> Some b
         | (None, None) \<Rightarrow> None)"

datatype bound_label = RUN_BOUND_LABEL | PER_CALL_BOUND_LABEL

definition model_call_budget ::
  "RunLimits \<Rightarrow> nat \<Rightarrow> LimitTracker \<Rightarrow> nat option \<times> bound_label" where
  "model_call_budget policy now t =
     (let run_budget = call_budget policy now t;
          per_call = map_option (\<lambda>ms. unat ms * nanos_per_ms) (max_model_call_ms policy)
      in case (run_budget, per_call) of
           (Some run, Some cap) \<Rightarrow>
             if cap < run then (Some cap, PER_CALL_BOUND_LABEL) else (run_budget, RUN_BOUND_LABEL)
         | (None, Some cap) \<Rightarrow> (Some cap, PER_CALL_BOUND_LABEL)
         | (_, None) \<Rightarrow> (run_budget, RUN_BOUND_LABEL))"

section \<open>The environment of a call\<close>

datatype call_event = RetryScheduled nat | FallbackSkipped string

record 'w call_ctx =
  cc_limits :: LimitTracker
  cc_events :: "call_event list"
  cc_sent :: "string list"
  cc_world :: 'w

record ('w, 'm, 'r) call_env =
  ce_retry :: RetryPolicy
  ce_limits :: RunLimits
  ce_fallback :: "FallbackPolicy option"
  ce_port :: failure_port
  ce_run_id :: string
  ce_streaming :: bool
  ce_retry_overridden :: bool
  ce_hosted :: "(TinyAgentsError, bool) result"
  ce_model_override :: "'w \<Rightarrow> string option"
  ce_is_cancelled :: "'w \<Rightarrow> bool"
  ce_attempt :: "'m \<Rightarrow> string option \<Rightarrow> LimitTracker \<times> 'w
                  \<Rightarrow> (TinyAgentsError, 'r) result \<times> nat \<times> LimitTracker \<times> 'w"
  ce_sleep :: "nat \<Rightarrow> TinyAgentsError \<Rightarrow> 'w \<Rightarrow> bool \<times> 'w"
  ce_resolve_named :: "string \<Rightarrow> 'w \<Rightarrow> (TinyAgentsError, 'm option) result \<times> 'w"
  ce_is_eligible :: "'m \<Rightarrow> bool"
  ce_max_input_tokens :: "'m \<Rightarrow> u64 option"

definition cc_emit :: "call_event \<Rightarrow> 'w call_ctx \<Rightarrow> 'w call_ctx" where
  "cc_emit e c = c\<lparr>cc_events := cc_events c @ [e]\<rparr>"

definition chain :: "('w, 'm, 'r) call_env \<Rightarrow> string list" where
  "chain env = (case ce_fallback env of None \<Rightarrow> [] | Some p \<Rightarrow> fallback_models p)"

definition stream_idle_breaker_error ::
  "('w, 'm, 'r) call_env \<Rightarrow> LimitTracker \<Rightarrow> string \<Rightarrow> TinyAgentsError option" where
  "stream_idle_breaker_error env t model =
     (case max_consecutive_stream_idle_timeouts (ce_limits env) of
        None \<Rightarrow> None
      | Some mx \<Rightarrow>
          if mx = 0 then None
          else let consecutive = consecutive_stream_idle_timeouts_for t model in
               if consecutive < mx then None
               else Some (StreamIdleTimeout (
                 ''model stream idle-timeout breaker tripped for run '' @ quoted (ce_run_id env)
                 @ '': '' @ show_nat consecutive
                 @ '' consecutive idle timeouts on one model (limit '' @ show_nat mx
                 @ ''); the provider appears stalled'')))"

definition idle_breaker_on ::
  "('w, 'm, 'r) call_env \<Rightarrow> LimitTracker \<Rightarrow> string \<Rightarrow> TinyAgentsError \<Rightarrow> TinyAgentsError option" where
  "idle_breaker_on env t model e =
     (case e of CallTimeout _ \<Rightarrow> stream_idle_breaker_error env t model | _ \<Rightarrow> None)"

definition is_run_timeout :: "TinyAgentsError \<Rightarrow> bool" where
  "is_run_timeout e = (case e of Timeout _ \<Rightarrow> True | _ \<Rightarrow> False)"

definition fallback_starts_at_chain_head ::
  "('w, 'm, 'r) call_env \<Rightarrow> 'w \<Rightarrow> string \<Rightarrow> bool" where
  "fallback_starts_at_chain_head env w cursor \<longleftrightarrow>
     ce_model_override env w = Some cursor \<and>
     (case ce_fallback env of
        None \<Rightarrow> False
      | Some p \<Rightarrow> \<not> list_ex (\<lambda>name. name = cursor) (fallback_models p))"

definition retarget_request_model :: "string option \<Rightarrow> string \<Rightarrow> string option" where
  "retarget_request_model requested name =
     (case requested of Some _ \<Rightarrow> Some name | None \<Rightarrow> None)"

section \<open>Choosing a fallback\<close>

definition next_candidate ::
  "('w, 'm, 'r) call_env \<Rightarrow> bool \<Rightarrow> string \<Rightarrow> string set \<Rightarrow> string option" where
  "next_candidate env from_chain_head cursor visited =
     (case (case ce_fallback env of
              None \<Rightarrow> None
            | Some p \<Rightarrow>
                if from_chain_head
                then (case fallback_models p of [] \<Rightarrow> None | m # _ \<Rightarrow> Some m)
                else next_after p cursor) of
        None \<Rightarrow> None
      | Some name \<Rightarrow> if name \<in> visited then None else Some name)"

lemma next_candidate_Some:
  "next_candidate env h c v = Some n \<Longrightarrow> n \<in> set (chain env) \<and> n \<notin> v"
  by (auto simp: next_candidate_def chain_def split: option.splits if_splits list.splits
           dest: next_after_mem)

lemma card_chain_less:
  assumes "n \<in> set (chain env)" "n \<notin> v" "v \<subseteq> v'"
  shows "card (set (chain env) - insert n v') < card (set (chain env) - v)"
  using assms by (intro psubset_card_mono) auto

definition too_small :: "u64 option \<Rightarrow> u64 option \<Rightarrow> bool" where
  "too_small larger_than window =
     (case larger_than of
        None \<Rightarrow> False
      | Some floor \<Rightarrow> (case window of None \<Rightarrow> True | Some w \<Rightarrow> w \<le> floor))"

function select_from ::
  "('w, 'm, 'r) call_env \<Rightarrow> bool \<Rightarrow> string \<Rightarrow> string set \<Rightarrow> u64 option \<Rightarrow> 'w call_ctx
    \<Rightarrow> (TinyAgentsError, (string \<times> 'm) option) result \<times> string set \<times> 'w call_ctx" where
  "select_from env from_chain_head cursor visited larger_than c =
     (case next_candidate env from_chain_head cursor visited of
        None \<Rightarrow> (Inr None, visited, c)
      | Some name \<Rightarrow>
          (case ce_hosted env of
             Inl e \<Rightarrow> (Inl e, visited, c)
           | Inr _ \<Rightarrow>
               (case ce_resolve_named env name (cc_world c) of
                  (Inl e, w) \<Rightarrow> (Inl e, visited, c\<lparr>cc_world := w\<rparr>)
                | (Inr None, w) \<Rightarrow>
                    select_from env False name (insert name visited) larger_than
                      (cc_emit (FallbackSkipped name) (c\<lparr>cc_world := w\<rparr>))
                | (Inr (Some next_model), w) \<Rightarrow>
                    if is_model_skipped (cc_limits c) name
                       \<or> too_small larger_than (ce_max_input_tokens env next_model)
                       \<or> \<not> ce_is_eligible env next_model
                    then select_from env False name (insert name visited) larger_than
                           (cc_emit (FallbackSkipped name) (c\<lparr>cc_world := w\<rparr>))
                    else (Inr (Some (name, next_model)), visited, c\<lparr>cc_world := w\<rparr>))))"
  by pat_completeness auto
termination
  by (relation "measure (\<lambda>(env, h, cur, v, l, c). card (set (chain env) - v))")
     (auto dest!: next_candidate_Some intro!: card_chain_less)

declare select_from.simps [simp del]

definition select_fallback ::
  "('w, 'm, 'r) call_env \<Rightarrow> string \<Rightarrow> string set \<Rightarrow> u64 option \<Rightarrow> 'w call_ctx
    \<Rightarrow> (TinyAgentsError, (string \<times> 'm) option) result \<times> string set \<times> 'w call_ctx" where
  "select_fallback env cursor visited larger_than c =
     select_from env (fallback_starts_at_chain_head env (cc_world c) cursor) cursor visited
       larger_than c"

definition acceptable ::
  "('w, 'm, 'r) call_env \<Rightarrow> u64 option \<Rightarrow> LimitTracker \<Rightarrow> string \<Rightarrow> 'm \<Rightarrow> bool" where
  "acceptable env larger_than t name model \<longleftrightarrow>
     name \<in> set (chain env) \<and> \<not> is_model_skipped t name \<and> ce_is_eligible env model \<and>
     \<not> too_small larger_than (ce_max_input_tokens env model)"

text \<open>One round either ends the search without touching the counters or moves on to a new name.\<close>

lemma select_from_round:
  assumes "select_from env h cur v l c = (r, v', c')"
  obtains (stop) "v' = v" "cc_limits c' = cc_limits c" "cc_sent c' = cc_sent c"
      "\<forall>n m. r = Inr (Some (n, m)) \<longrightarrow> acceptable env l (cc_limits c) n m \<and> n \<notin> v"
  | (more) name w where "name \<in> set (chain env)" "name \<notin> v"
      "select_from env False name (insert name v) l
         (cc_emit (FallbackSkipped name) (c\<lparr>cc_world := w\<rparr>)) = (r, v', c')"
proof (cases "next_candidate env h cur v")
  case None
  with assms show ?thesis by (intro stop) (auto simp: select_from.simps [of env h])
next
  case (Some name)
  note mem = next_candidate_Some [OF this]
  obtain rr w where "ce_resolve_named env name (cc_world c) = (rr, w)" by fastforce
  with assms Some mem show ?thesis
    by (cases "ce_hosted env"; cases rr)
       (auto simp: select_from.simps [of env h] acceptable_def split: option.splits if_splits
             intro: stop more [of name w])
qed

lemma select_from_inv:
  "select_from env h cur v l c = (r, v', c') \<Longrightarrow>
     v \<subseteq> v' \<and> v' \<subseteq> v \<union> set (chain env) \<and>
     cc_limits c' = cc_limits c \<and> cc_sent c' = cc_sent c \<and>
     (\<forall>n m. r = Inr (Some (n, m)) \<longrightarrow> acceptable env l (cc_limits c) n m \<and> n \<notin> v')"
proof (induction "card (set (chain env) - v)" arbitrary: h cur v c rule: less_induct)
  case less
  from less.prems show ?case
  proof (cases rule: select_from_round)
    case stop
    then show ?thesis by auto
  next
    case (more name w)
    have "card (set (chain env) - insert name v) < card (set (chain env) - v)"
      using card_chain_less [OF more(1,2) subset_refl] .
    from less.hyps [OF this more(3)] more(1) show ?thesis
      by (auto simp: cc_emit_def)
  qed
qed

lemma select_fallback_inv:
  "select_fallback env cur v l c = (r, v', c') \<Longrightarrow>
     v \<subseteq> v' \<and> v' \<subseteq> v \<union> set (chain env) \<and>
     cc_limits c' = cc_limits c \<and> cc_sent c' = cc_sent c \<and>
     (\<forall>n m. r = Inr (Some (n, m)) \<longrightarrow> acceptable env l (cc_limits c) n m \<and> n \<notin> v')"
  unfolding select_fallback_def by (rule select_from_inv)

section \<open>Retrying one model\<close>

text \<open>How the inner loop ends: an answer, giving up on the model, or leaving the call.\<close>

datatype 'r retry_exit =
    Answered 'r
  | GaveUp TinyAgentsError nat nat
  | Aborted TinyAgentsError

definition capped_policy :: "('w, 'm, 'r) call_env \<Rightarrow> RetryPolicy" where
  "capped_policy env =
     with_max_attempts
       (max_attempts_capped_at (ce_retry env) (max_retries_per_call (ce_limits env))) (ce_retry env)"

definition retry_decision ::
  "('w, 'm, 'r) call_env \<Rightarrow> nat \<Rightarrow> TinyAgentsError \<Rightarrow> FailoverDecision" where
  "retry_decision env attempt e =
     (let s = for_error (ce_port env) (capped_policy env) attempt e;
          s' = (if ce_retry_overridden env then s\<lparr>attempts_remaining := False\<rparr> else s)
      in decide (classify (ce_port env) e) s')"

lemma retry_decision_RetrySame:
  "retry_decision env attempt e = RetrySame \<Longrightarrow>
     attempt + 1 < min (max_attempts (ce_retry env)) (max_retries_per_call (ce_limits env) + 1)
     \<and> \<not> ce_retry_overridden env"
  by (auto simp: retry_decision_def Let_def decide_RetrySame_iff capped_policy_def
                 max_attempts_capped_at_def split: if_splits)

function retry_model ::
  "('w, 'm, 'r) call_env \<Rightarrow> string \<Rightarrow> 'm \<Rightarrow> string option \<Rightarrow> nat \<Rightarrow> 'w call_ctx
    \<Rightarrow> 'r retry_exit \<times> 'w call_ctx" where
  "retry_model env name model req attempt c =
     (if ce_is_cancelled env (cc_world c) then (Aborted Cancelled, c)
      else
        (case ce_attempt env model req (cc_limits c, cc_world c) of
           (result, deltas, t, w) \<Rightarrow>
             let c1 = c\<lparr>cc_sent := cc_sent c @ [name], cc_limits := t, cc_world := w\<rparr> in
             (case result of
                Inr r \<Rightarrow> (Answered r, c1)
              | Inl e \<Rightarrow>
                  if is_terminal_limit e then (GaveUp e attempt deltas, c1)
                  else
                    (case idle_breaker_on env t name e of
                       Some tripped \<Rightarrow> (GaveUp tripped attempt deltas, c1)
                     | None \<Rightarrow>
                         if retry_decision env attempt e = RetrySame
                         then (let c2 = cc_emit (RetryScheduled (attempt + 1)) c1 in
                               case ce_sleep env attempt e (cc_world c2) of
                                 (woken_by_cancel, w2) \<Rightarrow>
                                   if woken_by_cancel then (Aborted Cancelled, c2\<lparr>cc_world := w2\<rparr>)
                                   else retry_model env name model req (attempt + 1)
                                          (c2\<lparr>cc_world := w2\<rparr>))
                         else (GaveUp e attempt deltas, c1)))))"
  by pat_completeness auto
termination
  by (relation "measure (\<lambda>(env, name, model, req, attempt, c).
                  max_attempts (ce_retry env) - attempt)")
     (auto dest!: retry_decision_RetrySame)

declare retry_model.simps [simp del]

section \<open>The call\<close>

text \<open>
  The handling of a model that gave up: the error to return, or the next binding with the names
  visited so far.
\<close>

definition give_up ::
  "('w, 'm, 'r) call_env \<Rightarrow> string \<Rightarrow> 'm \<Rightarrow> string set \<Rightarrow> TinyAgentsError \<Rightarrow> 'w call_ctx
    \<Rightarrow> (TinyAgentsError, string \<times> 'm \<times> string set) result \<times> 'w call_ctx" where
  "give_up env name model visited e c1 =
     (if is_run_timeout e \<or> is_terminal_limit e then (Inl e, c1)
      else
        (case ce_hosted env of
           Inl he \<Rightarrow> (Inl he, c1)
         | Inr hosted \<Rightarrow>
             if hosted then (Inl e, c1)
             else
               let reason = classify (ce_port env) e;
                   c2 = (if skips_model_for_run reason
                         then c1\<lparr>cc_limits := skip_model_for_run name (cc_limits c1)\<rparr> else c1);
                   larger_than =
                     (if reason = ContextOverflow_reason
                      then Some (case ce_max_input_tokens env model of Some n \<Rightarrow> n | None \<Rightarrow> - 1)
                      else None)
               in case select_fallback env name visited larger_than c2 of
                    (Inl se, v, c3) \<Rightarrow> (Inl se, c3)
                  | (Inr selected, v, c3) \<Rightarrow>
                      if decide reason \<lparr>fs_retryable = False, attempts_remaining = False,
                                        larger_window_available = (selected \<noteq> None)\<rparr> = Surface
                      then (Inl e, c3)
                      else (case selected of
                              None \<Rightarrow> (Inl e, c3)
                            | Some (next_name, next_model) \<Rightarrow>
                                (Inr (next_name, next_model, insert next_name v), c3))))"

lemma give_up_next:
  assumes "give_up env name model v e c = (Inr (n, m, v'), c')"
  shows "n \<in> set (chain env) \<and> n \<notin> v \<and> insert n v \<subseteq> v' \<and> cc_sent c' = cc_sent c"
proof -
  obtain l d r u where sel: "select_fallback env name v l d = (Inr (Some (n, m)), u, c')"
    and "v' = insert n u" "cc_sent d = cc_sent c"
    using assms unfolding give_up_def Let_def
    by (auto split: if_splits sum.splits prod.splits option.splits)
  with select_fallback_inv [OF sel] show ?thesis by (auto simp: acceptable_def)
qed

lemma give_up_error:
  assumes "give_up env name model v e c = (Inl e', c')"
  shows "cc_sent c' = cc_sent c"
proof (cases "cc_sent c' = cc_sent c")
  case False
  obtain l d r u where "select_fallback env name v l d = (r, u, c')" "cc_sent d = cc_sent c"
    using assms False unfolding give_up_def Let_def
    by (auto split: if_splits sum.splits prod.splits option.splits)
  then show ?thesis by (auto dest!: select_fallback_inv)
qed

function invoke_loop ::
  "('w, 'm, 'r) call_env \<Rightarrow> string \<Rightarrow> 'm \<Rightarrow> string option \<Rightarrow> string set \<Rightarrow> 'w call_ctx
    \<Rightarrow> (TinyAgentsError, 'r \<times> string) result \<times> 'w call_ctx" where
  "invoke_loop env name model req visited c =
     (case retry_model env name model req 0 c of
        (Answered r, c1) \<Rightarrow> (Inr (r, name), c1)
      | (Aborted e, c1) \<Rightarrow> (Inl e, c1)
      | (GaveUp e attempt deltas, c1) \<Rightarrow>
          (case give_up env name model visited e c1 of
             (Inl e', c3) \<Rightarrow> (Inl e', c3)
           | (Inr (next_name, next_model, v), c3) \<Rightarrow>
               invoke_loop env next_name next_model (retarget_request_model req next_name) v
                 (if ce_streaming env \<and> deltas > 0
                  then cc_emit (RetryScheduled (attempt + 1)) c3 else c3)))"
  by pat_completeness auto
termination
  by (relation "measure (\<lambda>(env, name, model, req, v, c). card (set (chain env) - v))")
     (auto dest!: give_up_next [OF sym] intro!: psubset_card_mono)

declare invoke_loop.simps [simp del]

definition invoke_model_resolving ::
  "('w, 'm, 'r) call_env \<Rightarrow> string \<Rightarrow> 'm \<Rightarrow> string option \<Rightarrow> 'w call_ctx
    \<Rightarrow> (TinyAgentsError, 'r \<times> string) result \<times> 'w call_ctx" where
  "invoke_model_resolving env name model req c =
     (if is_model_skipped (cc_limits c) name
      then
        (case ce_hosted env of
           Inl he \<Rightarrow> (Inl he, c)
         | Inr True \<Rightarrow> invoke_loop env name model req {name} c
         | Inr False \<Rightarrow>
             (case select_fallback env name {name} None c of
                (Inl se, v, c1) \<Rightarrow> (Inl se, c1)
              | (Inr None, v, c1) \<Rightarrow> invoke_loop env name model req v c1
              | (Inr (Some (next_name, next_model)), v, c1) \<Rightarrow>
                  invoke_loop env next_name next_model (retarget_request_model req next_name)
                    (insert next_name v) (cc_emit (FallbackSkipped name) c1)))
      else invoke_loop env name model req {name} c)"

section \<open>What one call sends\<close>

definition attempt_cap :: "('w, 'm, 'r) call_env \<Rightarrow> nat" where
  "attempt_cap env =
     max 1 (min (max_attempts (ce_retry env)) (max_retries_per_call (ce_limits env) + 1))"

lemma retry_model_sent:
  "retry_model env name model req attempt c = (x, c') \<Longrightarrow> attempt < attempt_cap env \<Longrightarrow>
     \<exists>k \<le> attempt_cap env - attempt. cc_sent c' = cc_sent c @ replicate k name \<and>
       (\<forall>r. x = Answered r \<longrightarrow> k > 0)"
proof (induction "attempt_cap env - attempt" arbitrary: attempt c rule: less_induct)
  case less
  have one: "\<exists>k \<le> attempt_cap env - attempt. cc_sent c @ [name] = cc_sent c @ replicate k name \<and> k > 0"
    using less.prems(2) by (intro exI [of _ 1]) auto
  have IH: "\<exists>k \<le> attempt_cap env - attempt. cc_sent c' = cc_sent c @ replicate k name \<and> k > 0"
    if "retry_model env name model req (Suc attempt) d = (x, c')"
      "cc_sent d = cc_sent c @ [name]" "retry_decision env attempt e = RetrySame" for d e
  proof -
    have lt: "Suc attempt < attempt_cap env"
      using retry_decision_RetrySame [OF that(3)] by (auto simp: attempt_cap_def)
    then have "attempt_cap env - Suc attempt < attempt_cap env - attempt" by linarith
    from less.hyps [OF this that(1) lt] obtain k where
      "k \<le> attempt_cap env - Suc attempt" "cc_sent c' = cc_sent d @ replicate k name" by auto
    with that(2) lt show ?thesis by (intro exI [of _ "Suc k"]) auto
  qed
  from less.prems(1) show ?case
    by (subst (asm) retry_model.simps)
       (auto simp: Let_def cc_emit_def split: if_splits prod.splits sum.splits option.splits
             intro: exI [of _ 0] one [THEN exE] dest: IH)
qed

lemma invoke_loop_round:
  assumes "invoke_loop env name model req v c = (x, c')"
  obtains (stop) y c1 where "retry_model env name model req 0 c = (y, c1)"
      "cc_sent c' = cc_sent c1" "\<forall>r n. x = Inr (r, n) \<longrightarrow> n = name \<and> y = Answered r"
  | (more) y c1 n m u d where "retry_model env name model req 0 c = (y, c1)"
      "n \<in> set (chain env)" "n \<notin> v" "insert n v \<subseteq> u" "cc_sent d = cc_sent c1"
      "invoke_loop env n m (retarget_request_model req n) u d = (x, c')"
proof -
  obtain y c1 where rm: "retry_model env name model req 0 c = (y, c1)" by fastforce
  show ?thesis
  proof (cases y)
    case (GaveUp e attempt deltas)
    obtain g c3 where g: "give_up env name model v e c1 = (g, c3)" by fastforce
    show ?thesis
    proof (cases g)
      case (Inl e')
      with assms rm GaveUp g show ?thesis
        by (intro stop [OF rm]) (auto simp: invoke_loop.simps [of env name] dest: give_up_error)
    next
      case (Inr t)
      obtain n m u where t: "t = (n, m, u)" by (cases t)
      show ?thesis
        using assms rm GaveUp g Inr t give_up_next [of env name model v e c1 n m u c3]
        by (intro more [OF rm, of n u _ m]) (auto simp: invoke_loop.simps [of env name] cc_emit_def)
    qed
  qed (use assms rm in \<open>auto simp: invoke_loop.simps [of env name] intro: stop [OF rm]\<close>)
qed

text \<open>The names asked by one call, as blocks of repeated attempts per model.\<close>

definition attempt_blocks :: "(string \<times> nat) list \<Rightarrow> string list" where
  "attempt_blocks bs = concat (map (\<lambda>(n, k). replicate k n) bs)"

lemma invoke_loop_sent:
  "invoke_loop env name model req v c = (x, c') \<Longrightarrow> name \<in> v \<Longrightarrow>
     \<exists>bs. cc_sent c' = cc_sent c @ attempt_blocks bs \<and>
       distinct (map fst bs) \<and> set (map fst bs) \<subseteq> insert name (set (chain env) - v) \<and>
       (\<forall>b \<in> set bs. snd b \<le> attempt_cap env) \<and>
       (\<forall>r n. x = Inr (r, n) \<longrightarrow> cc_sent c' \<noteq> [] \<and> last (cc_sent c') = n)"
proof (induction "card (set (chain env) - v)" arbitrary: name model req v c rule: less_induct)
  case less
  have block: "\<exists>k \<le> attempt_cap env. cc_sent c1 = cc_sent c @ replicate k name \<and>
      (\<forall>r. y = Answered r \<longrightarrow> k > 0)"
    if "retry_model env name model req 0 c = (y, c1)" for y c1
    using retry_model_sent [OF that] by (simp add: attempt_cap_def)
  from less.prems(1) show ?case
  proof (cases rule: invoke_loop_round)
    case (stop y c1)
    with block [OF stop(1)] obtain k where "k \<le> attempt_cap env"
      "cc_sent c' = cc_sent c @ replicate k name" "\<forall>r n. x = Inr (r, n) \<longrightarrow> n = name \<and> k > 0"
      by auto
    then show ?thesis
      by (intro exI [of _ "[(name, k)]"]) (auto simp: attempt_blocks_def)
  next
    case (more y c1 n m u d)
    obtain k where k: "k \<le> attempt_cap env" "cc_sent c1 = cc_sent c @ replicate k name"
      using block [OF more(1)] by auto
    have "card (set (chain env) - u) < card (set (chain env) - v)"
      using more(2-4) by (intro psubset_card_mono) auto
    from less.hyps [OF this more(6)] more(4) obtain bs where bs:
      "cc_sent c' = cc_sent d @ attempt_blocks bs" "distinct (map fst bs)"
      "set (map fst bs) \<subseteq> insert n (set (chain env) - u)"
      "\<forall>b \<in> set bs. snd b \<le> attempt_cap env"
      "\<forall>r n. x = Inr (r, n) \<longrightarrow> cc_sent c' \<noteq> [] \<and> last (cc_sent c') = n"
      by auto
    have "set (map fst bs) \<subseteq> set (chain env) - v" using bs(3) more by auto
    with bs k more(5) less.prems(2) show ?thesis
      by (intro exI [of _ "(name, k) # bs"]) (auto simp: attempt_blocks_def)
  qed
qed

lemma attempt_blocks_length:
  "\<forall>b \<in> set bs. snd b \<le> k \<Longrightarrow> length (attempt_blocks bs) \<le> k * length bs"
  by (induction bs) (auto simp: attempt_blocks_def)

lemma blocks_length:
  assumes "distinct (map fst bs)" "set (map fst bs) \<subseteq> insert name (set ms)"
  shows "length bs \<le> Suc (card (set ms))"
proof -
  have "length bs = card (set (map fst bs))" using distinct_card [OF assms(1)] by simp
  also have "\<dots> \<le> card (insert name (set ms))" by (rule card_mono) (use assms(2) in auto)
  also have "\<dots> \<le> Suc (card (set ms))" by (simp add: card_insert_if)
  finally show ?thesis .
qed

lemma invoke_model_resolving_cases:
  assumes "invoke_model_resolving env name model req c = (x, c')"
  obtains (refused) e where "x = Inl e" "cc_sent c' = cc_sent c"
  | (loop) n m q v d where "n \<in> insert name (set (chain env))" "n \<in> v" "cc_sent d = cc_sent c"
      "invoke_loop env n m q v d = (x, c')"
proof -
  consider (plain) "invoke_loop env name model req {name} c = (x, c')"
    | (host) e where "x = Inl e" "c' = c"
    | (written_off) "is_model_skipped (cc_limits c) name" "ce_hosted env = Inr False"
    using assms by (auto simp: invoke_model_resolving_def split: if_splits sum.splits bool.splits)
  then show ?thesis
  proof cases
    case plain
    then show ?thesis using loop [of name "{name}" c model req] by simp
  next
    case (host e)
    then show ?thesis using refused by simp
  next
    case written_off
    obtain s v d where sel: "select_fallback env name {name} None c = (s, v, d)"
      by (cases "select_fallback env name {name} None c") auto
    note inv = select_fallback_inv [OF sel]
    from assms written_off sel consider (err) e where "x = Inl e" "c' = d"
      | (same) "invoke_loop env name model req v d = (x, c')"
      | (other) n m where "s = Inr (Some (n, m))"
          "invoke_loop env n m (retarget_request_model req n) (insert n v)
             (cc_emit (FallbackSkipped name) d) = (x, c')"
      by (auto simp: invoke_model_resolving_def split: sum.splits option.splits)
    then show ?thesis
    proof cases
      case err
      then show ?thesis using refused inv by simp
    next
      case same
      then show ?thesis using loop [of name v d model req] inv by simp
    next
      case other
      then show ?thesis
        using loop [of n "insert n v" "cc_emit (FallbackSkipped name) d" m] inv
        by (simp add: acceptable_def cc_emit_def)
    qed
  qed
qed

section \<open>Properties\<close>


definition sample_env :: "string list \<Rightarrow> (unit, string, unit) call_env" where
  "sample_env models = \<lparr>
     ce_retry = default_retry_policy, ce_limits = default_run_limits\<lparr>max_retries_per_call := 1\<rparr>,
     ce_fallback = Some \<lparr>fallback_models = models\<rparr>, ce_port = sample_port, ce_run_id = ''r'',
     ce_streaming = False, ce_retry_overridden = False, ce_hosted = Inr False,
     ce_model_override = (\<lambda>_. None), ce_is_cancelled = (\<lambda>_. False),
     ce_attempt = (\<lambda>m _ (t, w). (Inl (RateLimited m), 0, t, w)),
     ce_sleep = (\<lambda>_ _ w. (False, w)), ce_resolve_named = (\<lambda>n w. (Inr (Some n), w)),
     ce_is_eligible = (\<lambda>_. True), ce_max_input_tokens = (\<lambda>_. None) \<rparr>"

definition sample_ctx :: "unit call_ctx" where
  "sample_ctx = \<lparr>cc_limits = tracker_new default_run_limits 0, cc_events = [], cc_sent = [],
                 cc_world = ()\<rparr>"




text \<open>
  The chain ends at the first name that was tried before: when the entry after the cursor is
  already visited the search gives up, even if later entries of the chain were never tried.  (The
  documentation of \<open>select_fallback\<close> says such names are skipped.)
\<close>

theorem fallback_stops_at_visited:
  assumes "ce_fallback env = Some p" "next_after p cursor = Some n" "n \<in> visited"
    and "\<not> fallback_starts_at_chain_head env (cc_world c) cursor"
  shows "select_fallback env cursor visited larger_than c = (Inr None, visited, c)"
  using assms by (simp add: select_fallback_def select_from.simps next_candidate_def)

theorem fallback_stops_at_visited_witness:
  "select_fallback (sample_env [''a'', ''b'', ''a'', ''c'']) ''b'' {''a'', ''b''} None sample_ctx
     = (Inr None, {''a'', ''b''}, sample_ctx)"
  by (rule fallback_stops_at_visited 
         [where p = "\<lparr>fallback_models = [''a'', ''b'', ''a'', ''c'']\<rparr>" and n = "''a''"])
     (simp_all add: sample_env_def next_after_def fallback_starts_at_chain_head_def)

text \<open>
  The time budget of a model call never exceeds the per-call ceiling nor what is left of the run,
  it exists exactly when one of the sources does, and it is labelled as the per-call bound only when
  that ceiling is strictly tighter than the run's remainder.
\<close>

theorem model_call_budget_tightest:
  "case model_call_budget policy now t of (b, label) \<Rightarrow>
     b = (case (call_budget policy now t, max_model_call_ms policy) of
            (None, None) \<Rightarrow> None
          | (Some r, None) \<Rightarrow> Some r
          | (None, Some ms) \<Rightarrow> Some (unat ms * nanos_per_ms)
          | (Some r, Some ms) \<Rightarrow> Some (min r (unat ms * nanos_per_ms))) \<and>
     (label = PER_CALL_BOUND_LABEL \<longleftrightarrow> b \<noteq> None \<and> b \<noteq> call_budget policy now t)"
  by (auto simp: model_call_budget_def Let_def split: option.splits)

end
