(* ===== verification/Breaker.thy ===== *)
theory Breaker
  imports Prelude
begin

unbundle bit_operations_syntax

text \<open>
  The persistent per-key failure breaker: \<open>tinyagents-harness/src/retry/circuit_breaker.rs\<close>.

  The entries behind the mutex are a map; every operation runs under the lock, so it is one atomic
  transition.  A generation token \<open>Arc<()>\<close> is the number of its allocation: \<open>b_fresh\<close> counts
  allocations, and a token still held by a guard is never handed out again.  \<open>breaker_step\<close> is the
  transition system of one breaker with any number of guards held by independent runs.
\<close>

section \<open>State\<close>

record PersistentFailoverBreakerConfig =
  base_backoff_ms :: u64
  cfg_max_backoff_ms :: u64
  failure_limit :: u32

definition default_breaker_config :: PersistentFailoverBreakerConfig where
  "default_breaker_config = \<lparr>
     base_backoff_ms = 30000, cfg_max_backoff_ms = 15 * 60000, failure_limit = 8 \<rparr>"

record Entry =
  failures :: u32
  next_attempt_ms :: u64
  in_flight :: bool
  generation :: nat

record 'k PersistentFailoverBreaker =
  b_config :: PersistentFailoverBreakerConfig
  b_entries :: "'k \<rightharpoonup> Entry"
  b_fresh :: nat

record 'k PersistentFailoverAttempt =
  a_key :: 'k
  a_generation :: nat
  a_finished :: bool

datatype BreakerRejection = InFlight | Backoff u64 u32 bool

record PersistentFailoverFailure =
  ff_failure_count :: u32
  ff_next_attempt_ms :: u64
  ff_failure_limit_reached :: bool

definition breaker_new :: "PersistentFailoverBreakerConfig \<Rightarrow> 'k PersistentFailoverBreaker" where
  "breaker_new config = \<lparr>b_config = config, b_entries = Map.empty, b_fresh = 0\<rparr>"

section \<open>Operations\<close>

text \<open>\<open>entry(key).or_default()\<close>: a missing entry allocates its token.\<close>

definition entry_or_default ::
  "'k \<Rightarrow> 'k PersistentFailoverBreaker \<Rightarrow> Entry \<times> 'k PersistentFailoverBreaker" where
  "entry_or_default key b =
     (case b_entries b key of
        Some e \<Rightarrow> (e, b)
      | None \<Rightarrow>
          let e = \<lparr>failures = 0, next_attempt_ms = 0, in_flight = False, generation = b_fresh b\<rparr>
          in (e, b\<lparr>b_entries := (b_entries b)(key \<mapsto> e), b_fresh := Suc (b_fresh b)\<rparr>))"

text \<open>Storing an entry under a newly allocated token.\<close>

definition store_renewed ::
  "'k \<Rightarrow> Entry \<Rightarrow> 'k PersistentFailoverBreaker \<Rightarrow> 'k PersistentFailoverBreaker" where
  "store_renewed key e b =
     b\<lparr>b_entries := (b_entries b)(key \<mapsto> e\<lparr>generation := b_fresh b\<rparr>), b_fresh := Suc (b_fresh b)\<rparr>"

definition try_acquire ::
  "'k \<Rightarrow> u64 \<Rightarrow> 'k PersistentFailoverBreaker
    \<Rightarrow> (BreakerRejection, 'k PersistentFailoverAttempt) result \<times> 'k PersistentFailoverBreaker" where
  "try_acquire key now_ms b =
     (case entry_or_default key b of
        (entry, b1) \<Rightarrow>
          if in_flight entry then (Inl InFlight, b1)
          else if failures entry > 0 \<and> now_ms < next_attempt_ms entry
          then (Inl (Backoff (next_attempt_ms entry) (failures entry)
                      (failure_limit (b_config b1) \<le> failures entry)), b1)
          else (Inr \<lparr>a_key = key, a_generation = b_fresh b1, a_finished = False\<rparr>,
                store_renewed key (entry\<lparr>in_flight := True\<rparr>) b1))"

definition breaker_reset :: "'k \<Rightarrow> 'k PersistentFailoverBreaker \<Rightarrow> 'k PersistentFailoverBreaker" where
  "breaker_reset key b =
     (case entry_or_default key b of
        (entry, b1) \<Rightarrow>
          store_renewed key (entry\<lparr>failures := 0, next_attempt_ms := 0, in_flight := False\<rparr>) b1)"

text \<open>The entry a guard still owns: same token and in flight.\<close>

definition owned_entry ::
  "'k PersistentFailoverAttempt \<Rightarrow> 'k PersistentFailoverBreaker \<Rightarrow> Entry option" where
  "owned_entry a b =
     (case b_entries b (a_key a) of
        None \<Rightarrow> None
      | Some e \<Rightarrow> if generation e = a_generation a \<and> in_flight e then Some e else None)"

definition record_success ::
  "'k PersistentFailoverAttempt \<Rightarrow> 'k PersistentFailoverBreaker
    \<Rightarrow> 'k PersistentFailoverAttempt \<times> 'k PersistentFailoverBreaker" where
  "record_success a b =
     (a\<lparr>a_finished := True\<rparr>,
      case owned_entry a b of
        None \<Rightarrow> b
      | Some e \<Rightarrow>
          store_renewed (a_key a) (e\<lparr>failures := 0, next_attempt_ms := 0, in_flight := False\<rparr>) b)"

definition failure_delay :: "PersistentFailoverBreakerConfig \<Rightarrow> u32 \<Rightarrow> u64" where
  "failure_delay config n =
     (let exponent = min (if n \<ge> 1 then n - 1 else 0) 63
      in min (sat_mul (base_backoff_ms config) (push_bit (unat exponent) 1))
             (cfg_max_backoff_ms config))"

definition record_failure ::
  "u64 \<Rightarrow> 'k PersistentFailoverAttempt \<Rightarrow> 'k PersistentFailoverBreaker
    \<Rightarrow> PersistentFailoverFailure option \<times> 'k PersistentFailoverAttempt \<times> 'k PersistentFailoverBreaker"
where
  "record_failure now_ms a b =
     (if a_finished a then (None, a, b)
      else
        (case b_entries b (a_key a) of
           None \<Rightarrow> (None, a, b)
         | Some _ \<Rightarrow>
             (case owned_entry a b of
                None \<Rightarrow> (None, a\<lparr>a_finished := True\<rparr>, b)
              | Some e \<Rightarrow>
                  let n = sat_add (failures e) 1;
                      at = sat_add now_ms (failure_delay (b_config b) n)
                  in (Some \<lparr>ff_failure_count = n, ff_next_attempt_ms = at,
                            ff_failure_limit_reached = (failure_limit (b_config b) \<le> n)\<rparr>,
                      a\<lparr>a_finished := True\<rparr>,
                      store_renewed (a_key a)
                        (e\<lparr>failures := n, next_attempt_ms := at, in_flight := False\<rparr>) b))))"

definition attempt_drop ::
  "'k PersistentFailoverAttempt \<Rightarrow> 'k PersistentFailoverBreaker \<Rightarrow> 'k PersistentFailoverBreaker" where
  "attempt_drop a b =
     (if a_finished a then b
      else
        (case owned_entry a b of
           None \<Rightarrow> b
         | Some e \<Rightarrow> store_renewed (a_key a) (e\<lparr>in_flight := False\<rparr>) b))"

section \<open>A breaker shared by many runs\<close>

record 'k breaker_sys =
  sys_breaker :: "'k PersistentFailoverBreaker"
  sys_guards :: "nat \<rightharpoonup> 'k PersistentFailoverAttempt"

inductive breaker_step :: "'k breaker_sys \<Rightarrow> 'k breaker_sys \<Rightarrow> bool" where
  acquire: "sys_guards s i = None \<Longrightarrow> try_acquire key now (sys_breaker s) = (Inr a, b) \<Longrightarrow>
    breaker_step s (s\<lparr>sys_breaker := b, sys_guards := (sys_guards s)(i \<mapsto> a)\<rparr>)"
| rejected: "try_acquire key now (sys_breaker s) = (Inl r, b) \<Longrightarrow>
    breaker_step s (s\<lparr>sys_breaker := b\<rparr>)"
| reset: "breaker_step s (s\<lparr>sys_breaker := breaker_reset key (sys_breaker s)\<rparr>)"
| success: "sys_guards s i = Some a \<Longrightarrow> record_success a (sys_breaker s) = (a', b) \<Longrightarrow>
    breaker_step s (s\<lparr>sys_breaker := b, sys_guards := (sys_guards s)(i \<mapsto> a')\<rparr>)"
| failure: "sys_guards s i = Some a \<Longrightarrow> record_failure now a (sys_breaker s) = (f, a', b) \<Longrightarrow>
    breaker_step s (s\<lparr>sys_breaker := b, sys_guards := (sys_guards s)(i \<mapsto> a')\<rparr>)"
| dropped: "sys_guards s i = Some a \<Longrightarrow>
    breaker_step s (s\<lparr>sys_breaker := attempt_drop a (sys_breaker s),
                     sys_guards := (sys_guards s)(i := None)\<rparr>)"

definition breaker_start :: "PersistentFailoverBreakerConfig \<Rightarrow> 'k breaker_sys" where
  "breaker_start config = \<lparr>sys_breaker = breaker_new config, sys_guards = Map.empty\<rparr>"

definition owns :: "'k breaker_sys \<Rightarrow> nat \<Rightarrow> 'k \<Rightarrow> bool" where
  "owns s i key =
     (case sys_guards s i of
        None \<Rightarrow> False
      | Some a \<Rightarrow> a_key a = key \<and> \<not> a_finished a \<and> owned_entry a (sys_breaker s) \<noteq> None)"

text \<open>
  The invariant: tokens in use were allocated, no two guards hold the same token, and every entry in
  flight is held by an unfinished guard with its token.
\<close>

definition breaker_inv :: "'k breaker_sys \<Rightarrow> bool" where
  "breaker_inv s \<longleftrightarrow>
     (\<forall>k e. b_entries (sys_breaker s) k = Some e \<longrightarrow> generation e < b_fresh (sys_breaker s)) \<and>
     (\<forall>i a. sys_guards s i = Some a \<longrightarrow> a_generation a < b_fresh (sys_breaker s)) \<and>
     (\<forall>i j a a'. sys_guards s i = Some a \<longrightarrow> sys_guards s j = Some a' \<longrightarrow>
        a_generation a = a_generation a' \<longrightarrow> i = j) \<and>
     (\<forall>k e. b_entries (sys_breaker s) k = Some e \<longrightarrow> in_flight e \<longrightarrow>
        (\<exists>i a. sys_guards s i = Some a \<and> a_key a = k \<and> \<not> a_finished a \<and>
               a_generation a = generation e))"

section \<open>Preservation\<close>

lemma breaker_invI:
  assumes "\<And>k e. b_entries (sys_breaker s) k = Some e \<Longrightarrow> generation e < b_fresh (sys_breaker s)"
    and "\<And>i a. sys_guards s i = Some a \<Longrightarrow> a_generation a < b_fresh (sys_breaker s)"
    and "\<And>i j a a'. sys_guards s i = Some a \<Longrightarrow> sys_guards s j = Some a' \<Longrightarrow>
           a_generation a = a_generation a' \<Longrightarrow> i = j"
    and "\<And>k e. b_entries (sys_breaker s) k = Some e \<Longrightarrow> in_flight e \<Longrightarrow>
           \<exists>i a. sys_guards s i = Some a \<and> a_key a = k \<and> \<not> a_finished a \<and>
                 a_generation a = generation e"
  shows "breaker_inv s"
  unfolding breaker_inv_def using assms by blast

lemma breaker_invD:
  assumes "breaker_inv s"
  shows "b_entries (sys_breaker s) k = Some e \<Longrightarrow> generation e < b_fresh (sys_breaker s)"
    and "sys_guards s i = Some a \<Longrightarrow> a_generation a < b_fresh (sys_breaker s)"
    and "sys_guards s i = Some a \<Longrightarrow> sys_guards s j = Some a' \<Longrightarrow>
           a_generation a = a_generation a' \<Longrightarrow> i = j"
    and "b_entries (sys_breaker s) k = Some e \<Longrightarrow> in_flight e \<Longrightarrow>
           \<exists>i a. sys_guards s i = Some a \<and> a_key a = k \<and> \<not> a_finished a \<and>
                 a_generation a = generation e"
  using assms unfolding breaker_inv_def by blast+

lemma sys_breaker_triv [simp]: "s\<lparr>sys_breaker := sys_breaker s\<rparr> = s"
  by simp

lemma store_idle_inv:
  assumes "breaker_inv s" "\<not> in_flight e"
  shows "breaker_inv (s\<lparr>sys_breaker := store_renewed key e (sys_breaker s)\<rparr>)"
  using assms(2)
  by (intro breaker_invI)
     (auto simp: store_renewed_def less_Suc_eq split: if_splits dest: breaker_invD [OF assms(1)])

lemma entry_or_default_inv:
  assumes "breaker_inv s" "entry_or_default key (sys_breaker s) = (e, b)"
  shows "breaker_inv (s\<lparr>sys_breaker := b\<rparr>) \<and> b_entries b key = Some e"
proof (cases "b_entries (sys_breaker s) key")
  case None
  then have "e = \<lparr>failures = 0, next_attempt_ms = 0, in_flight = False,
                  generation = b_fresh (sys_breaker s)\<rparr>"
    and "b = store_renewed key e (sys_breaker s)"
    using assms(2) by (auto simp: entry_or_default_def store_renewed_def Let_def)
  then show ?thesis
    using store_idle_inv [OF assms(1), of e key] by (simp add: store_renewed_def)
next
  case (Some e')
  with assms show ?thesis by (auto simp: entry_or_default_def)
qed

lemma store_acquired_inv:
  assumes "breaker_inv s" "sys_guards s i = None"
  shows "breaker_inv (s\<lparr>sys_breaker := store_renewed key (e\<lparr>in_flight := True\<rparr>) (sys_breaker s),
           sys_guards := (sys_guards s)
             (i \<mapsto> \<lparr>a_key = key, a_generation = b_fresh (sys_breaker s), a_finished = False\<rparr>)\<rparr>)"
proof (rule breaker_invI, goal_cases)
  case (3 j k a a')
  then show ?case
    using breaker_invD(3) [OF assms(1), of j a k a'] breaker_invD(2) [OF assms(1), of j a]
      breaker_invD(2) [OF assms(1), of k a']
    by (auto simp: store_renewed_def split: if_splits)
next
  case (4 k e')
  show ?case
  proof (cases "k = key")
    case True
    with 4 show ?thesis by (intro exI [of _ i]) (auto simp: store_renewed_def)
  next
    case False
    with 4 obtain j a where "sys_guards s j = Some a" "a_key a = k" "\<not> a_finished a"
      "a_generation a = generation e'"
      using breaker_invD(4) [OF assms(1), of k e'] by (auto simp: store_renewed_def)
    with assms(2) show ?thesis by (intro exI [of _ j]) auto
  qed
qed (auto simp: store_renewed_def less_Suc_eq split: if_splits dest: breaker_invD(1,2) [OF assms(1)])

lemma guard_done_inv:
  assumes "breaker_inv s" "sys_guards s i = Some a"
    and "a_finished a \<or> owned_entry a (sys_breaker s) = None"
    and "g = None \<or> g = Some (a\<lparr>a_finished := True\<rparr>)"
  shows "breaker_inv (s\<lparr>sys_guards := (sys_guards s)(i := g)\<rparr>)"
proof (rule breaker_invI, goal_cases)
  case (3 j k a1 a2)
  then show ?case
    using assms(2,4) breaker_invD(3) [OF assms(1), of j _ k]
    by (auto split: if_splits)
next
  case (4 k e)
  then obtain j a' where j: "sys_guards s j = Some a'" "a_key a' = k" "\<not> a_finished a'"
      "a_generation a' = generation e"
    using breaker_invD(4) [OF assms(1), of k e] by auto
  with 4 assms(2,3) have "j \<noteq> i" by (auto simp: owned_entry_def split: option.splits if_splits)
  with j show ?case by (intro exI [of _ j]) auto
qed (use assms(2,4) in \<open>auto split: if_splits dest: breaker_invD(1,2) [OF assms(1)]\<close>)

text \<open>Releasing an owned slot: the entry goes idle under a new token and the guard is done.\<close>

lemma release_inv:
  assumes "breaker_inv s" "sys_guards s i = Some a" "\<not> in_flight e"
    and "g = None \<or> g = Some (a\<lparr>a_finished := True\<rparr>)"
  shows "breaker_inv (s\<lparr>sys_breaker := store_renewed (a_key a) e (sys_breaker s),
                       sys_guards := (sys_guards s)(i := g)\<rparr>)"
proof -
  let ?s = "s\<lparr>sys_breaker := store_renewed (a_key a) e (sys_breaker s)\<rparr>"
  have "owned_entry a (sys_breaker ?s) = None"
    using breaker_invD(2) [OF assms(1,2)] assms(3)
    by (auto simp: owned_entry_def store_renewed_def)
  from guard_done_inv [OF store_idle_inv [OF assms(1,3)] _ disjI2 [OF this] assms(4), of i] assms(2)
  show ?thesis by simp
qed

lemma breaker_step_inv:
  assumes "breaker_step s s'" "breaker_inv s"
  shows "breaker_inv s'"
  using assms(1)
proof cases
  case (acquire i key now a b)
  obtain e b1 where d: "entry_or_default key (sys_breaker s) = (e, b1)" by fastforce
  note inv1 = entry_or_default_inv [OF assms(2) d]
  from store_acquired_inv [of "s\<lparr>sys_breaker := b1\<rparr>" i key e] inv1 acquire d show ?thesis
    by (auto simp: try_acquire_def split: if_splits)
next
  case (rejected key now r b)
  obtain e b1 where d: "entry_or_default key (sys_breaker s) = (e, b1)" by fastforce
  from entry_or_default_inv [OF assms(2) d] rejected d show ?thesis
    by (auto simp: try_acquire_def split: if_splits)
next
  case (reset key)
  obtain e b1 where d: "entry_or_default key (sys_breaker s) = (e, b1)" by fastforce
  from entry_or_default_inv [OF assms(2) d] reset d
    store_idle_inv [of "s\<lparr>sys_breaker := b1\<rparr>" "e\<lparr>failures := 0, next_attempt_ms := 0, in_flight := False\<rparr>" key]
  show ?thesis by (simp add: breaker_reset_def)
next
  case (success i a a' b)
  then show ?thesis
    using guard_done_inv [OF assms(2) success(2)] release_inv [OF assms(2) success(2)]
    by (auto simp: record_success_def split: option.splits)
next
  case (failure i a now f a' b)
  then show ?thesis
    using guard_done_inv [OF assms(2) failure(2)] release_inv [OF assms(2) failure(2)] assms(2)
    by (auto simp: record_failure_def Let_def map_upd_triv split: option.splits if_splits)
next
  case (dropped i a)
  then show ?thesis
    using guard_done_inv [OF assms(2) dropped(2)] release_inv [OF assms(2) dropped(2)]
    by (auto simp: attempt_drop_def split: option.splits)
qed

lemma breaker_reachable_inv:
  "breaker_step\<^sup>*\<^sup>* (breaker_start config) s \<Longrightarrow> breaker_inv s"
proof (induction rule: rtranclp_induct)
  case base
  show ?case by (simp add: breaker_inv_def breaker_start_def breaker_new_def)
qed (rule breaker_step_inv)

text \<open>Every transition leaves an entry alone or stores it under a token allocated during the step.\<close>

lemma entry_or_default_tokens:
  assumes "entry_or_default key b = (e, b1)"
  shows "b_fresh b \<le> b_fresh b1 \<and>
     (\<forall>k. b_entries b1 k = b_entries b k \<or> (\<exists>e'. b_entries b1 k = Some e' \<and> b_fresh b \<le> generation e'))"
  using assms by (auto simp: entry_or_default_def Let_def split: option.splits)

lemma breaker_step_tokens:
  assumes "breaker_step s s'"
  shows "b_fresh (sys_breaker s) \<le> b_fresh (sys_breaker s') \<and>
     (\<forall>k. b_entries (sys_breaker s') k = b_entries (sys_breaker s) k \<or>
          (\<exists>e. b_entries (sys_breaker s') k = Some e \<and> b_fresh (sys_breaker s) \<le> generation e))"
  using assms
  by cases
     (auto simp: try_acquire_def breaker_reset_def record_success_def record_failure_def
                 attempt_drop_def store_renewed_def Let_def
           split: prod.splits if_splits option.splits dest!: entry_or_default_tokens)

lemma stale_persists:
  assumes "breaker_step\<^sup>*\<^sup>* s s'" "owned_entry a (sys_breaker s) = None"
    "a_generation a < b_fresh (sys_breaker s)"
  shows "owned_entry a (sys_breaker s') = None \<and> a_generation a < b_fresh (sys_breaker s')"
  using assms
proof (induction rule: rtranclp_induct)
  case (step y z)
  then have y: "owned_entry a (sys_breaker y) = None" "a_generation a < b_fresh (sys_breaker y)"
    by auto
  from breaker_step_tokens [OF step.hyps(2)] y show ?case
    by (auto simp: owned_entry_def split: option.splits if_splits)
       (metis leD option.inject option.distinct(1))+
qed simp

lemma stale_guard_inert:
  assumes "owned_entry a b = None"
  shows "snd (record_success a b) = b \<and> attempt_drop a b = b \<and>
         fst (record_failure now a b) = None \<and> snd (snd (record_failure now a b)) = b"
  using assms
  by (auto simp: record_success_def attempt_drop_def record_failure_def split: option.splits)

section \<open>Backoff arithmetic\<close>

lemma unat_pow2: "e \<le> 63 \<Longrightarrow> unat (push_bit e (1 :: u64)) = 2 ^ e"
proof -
  assume "e \<le> 63"
  then have "(2 :: nat) ^ e < 2 ^ LENGTH(64)" by (intro power_strict_increasing) auto
  then have "unat (of_nat (2 ^ e) :: u64) = 2 ^ e"
    by (simp only: unsigned_of_nat take_bit_nat_eq_self of_nat_id)
  then show ?thesis by (simp add: push_bit_eq_mult)
qed

definition delay_nat :: "PersistentFailoverBreakerConfig \<Rightarrow> nat \<Rightarrow> nat" where
  "delay_nat config n =
     min (min (unat (base_backoff_ms config) * 2 ^ min (n - 1) 63) (2 ^ 64 - 1))
         (unat (cfg_max_backoff_ms config))"

lemma unat_failure_delay: "unat (failure_delay config n) = delay_nat config (unat n)"
proof -
  let ?e = "min (if n \<ge> 1 then n - 1 else 0) (63 :: u32)"
  have e: "unat ?e = min (unat n - 1) 63"
    by (auto simp: min_def word_le_nat_alt unat_sub)
  then have "unat (push_bit (unat ?e) (1 :: u64)) = 2 ^ min (unat n - 1) 63"
    by (subst unat_pow2) auto
  moreover have "unat (min x y) = min (unat x) (unat y)" for x y :: u64
    by (simp add: min_def word_le_nat_alt)
  ultimately show ?thesis
    by (simp add: failure_delay_def delay_nat_def Let_def unat_sat_mul)
qed

lemma delay_nat_mono: "m \<le> n \<Longrightarrow> delay_nat config m \<le> delay_nat config n"
proof -
  assume "m \<le> n"
  then have "(2 :: nat) ^ min (m - 1) 63 \<le> 2 ^ min (n - 1) 63"
    by (intro power_increasing) auto
  then have "unat (base_backoff_ms config) * 2 ^ min (m - 1) 63
               \<le> unat (base_backoff_ms config) * 2 ^ min (n - 1) 63"
    by (rule mult_le_mono2)
  then show ?thesis unfolding delay_nat_def by (intro min.mono) auto
qed

section \<open>Properties\<close>

text \<open>
  C4. The breaker admits one attempt per key at a time and never leaks the slot: in every reachable
  state of a breaker shared by any number of runs, a key in flight has exactly one guard that can
  still complete it, and every further \<open>try_acquire\<close> of that key is rejected as in flight.
\<close>

theorem breaker_single_owner:
  assumes "breaker_step\<^sup>*\<^sup>* (breaker_start config) s"
    and "b_entries (sys_breaker s) key = Some e" "in_flight e"
  shows "(\<exists>!i. owns s i key) \<and>
         (\<forall>now. fst (try_acquire key now (sys_breaker s)) = Inl InFlight)"
proof
  note inv = breaker_reachable_inv [OF assms(1)]
  obtain i a where i: "sys_guards s i = Some a" "a_key a = key" "\<not> a_finished a"
    "a_generation a = generation e"
    using breaker_invD(4) [OF inv assms(2,3)] by blast
  show "\<exists>!i. owns s i key"
  proof (rule ex1I [of _ i])
    show "owns s i key" using i assms by (auto simp: owns_def owned_entry_def)
    show "j = i" if "owns s j key" for j
      using that i assms breaker_invD(3) [OF inv, of j _ i a]
      by (auto simp: owns_def owned_entry_def split: option.splits if_splits)
  qed
  show "\<forall>now. fst (try_acquire key now (sys_breaker s)) = Inl InFlight"
    using assms(2,3) by (simp add: try_acquire_def entry_or_default_def)
qed

definition held_sys :: "nat breaker_sys" where
  "held_sys = \<lparr>
     sys_breaker = \<lparr>b_config = default_breaker_config,
       b_entries = [7 \<mapsto> \<lparr>failures = 0, next_attempt_ms = 0, in_flight = True, generation = 1\<rparr>],
       b_fresh = 2\<rparr>,
     sys_guards = [0 \<mapsto> \<lparr>a_key = 7, a_generation = 1, a_finished = False\<rparr>]\<rparr>"

lemma held_sys_reachable: "breaker_step\<^sup>*\<^sup>* (breaker_start default_breaker_config) held_sys"
proof -
  have "breaker_step (breaker_start default_breaker_config) held_sys"
    using breaker_step.acquire [of "breaker_start default_breaker_config" 0 "7 :: nat" 0
        "\<lparr>a_key = 7, a_generation = 1, a_finished = False\<rparr>" "sys_breaker held_sys"]
    by (simp add: held_sys_def breaker_start_def breaker_new_def try_acquire_def
                  entry_or_default_def store_renewed_def Let_def numeral_2_eq_2)
  then show ?thesis by blast
qed

theorem breaker_single_owner_witness:
  "(\<exists>!i. owns held_sys i 7) \<and> fst (try_acquire 7 5 (sys_breaker held_sys)) = Inl InFlight"
  using breaker_single_owner [OF held_sys_reachable, of 7
      "\<lparr>failures = 0, next_attempt_ms = 0, in_flight = True, generation = 1\<rparr>"]
  by (simp add: held_sys_def)

text \<open>
  A guard made stale by \<open>reset\<close> stays stale forever: whatever happens to the breaker afterwards,
  completing or dropping the guard changes no entry and reports no failure, so it cannot release or
  fail a later attempt.
\<close>

theorem reset_guard_stays_stale:
  assumes "breaker_step\<^sup>*\<^sup>* (breaker_start config) s" "sys_guards s i = Some a"
    and "breaker_step\<^sup>*\<^sup>* (s\<lparr>sys_breaker := breaker_reset (a_key a) (sys_breaker s)\<rparr>) s'"
  shows "snd (record_success a (sys_breaker s')) = sys_breaker s' \<and>
         attempt_drop a (sys_breaker s') = sys_breaker s' \<and>
         fst (record_failure now a (sys_breaker s')) = None \<and>
         snd (snd (record_failure now a (sys_breaker s'))) = sys_breaker s'"
proof -
  let ?s = "s\<lparr>sys_breaker := breaker_reset (a_key a) (sys_breaker s)\<rparr>"
  have fresh: "a_generation a < b_fresh (sys_breaker s)"
    using breaker_invD(2) [OF breaker_reachable_inv [OF assms(1)] assms(2)] .
  obtain e b1 where d: "entry_or_default (a_key a) (sys_breaker s) = (e, b1)" by fastforce
  have "owned_entry a (sys_breaker ?s) = None" "a_generation a < b_fresh (sys_breaker ?s)"
    using entry_or_default_tokens [OF d] fresh d
    by (auto simp: owned_entry_def breaker_reset_def store_renewed_def)
  from stale_persists [OF assms(3) this] show ?thesis
    by (intro stale_guard_inert) simp
qed

theorem reset_guard_stays_stale_witness:
  "let b = breaker_reset 7 (sys_breaker held_sys);
       a = \<lparr>a_key = 7, a_generation = 1, a_finished = False\<rparr>
   in attempt_drop a b = b \<and> fst (record_failure 5 a b) = None"
  using reset_guard_stays_stale [OF held_sys_reachable, of 0
      "\<lparr>a_key = 7, a_generation = 1, a_finished = False\<rparr>" _ 5, OF _ rtranclp.rtrancl_refl]
  by (simp add: held_sys_def split_beta Let_def)

text \<open>
  Recording a failure opens an exponential, capped and saturating backoff window: the count goes up
  by one (saturating at the \<open>u32\<close> maximum), the next attempt is due \<open>base * 2 ^ (count - 1)\<close>
  milliseconds later, capped at the configured maximum, and at the \<open>u64\<close> range; before that time the
  key is rejected with exactly these figures and from then on it is admitted, also past the failure
  limit.
\<close>

theorem failure_backoff_window:
  assumes "owned_entry a b = Some e" "\<not> a_finished a"
  shows "\<exists>f a' b'. record_failure now a b = (Some f, a', b') \<and> a_finished a' \<and>
           unat (ff_failure_count f) = min (unat (failures e) + 1) (2 ^ 32 - 1) \<and>
           unat (ff_next_attempt_ms f) =
             min (unat now + delay_nat (b_config b) (unat (ff_failure_count f))) (2 ^ 64 - 1) \<and>
           (ff_failure_limit_reached f \<longleftrightarrow> failure_limit (b_config b) \<le> ff_failure_count f) \<and>
           (\<forall>t. fst (try_acquire (a_key a) t b') =
              (if t < ff_next_attempt_ms f
               then Inl (Backoff (ff_next_attempt_ms f) (ff_failure_count f)
                          (ff_failure_limit_reached f))
               else Inr \<lparr>a_key = a_key a, a_generation = b_fresh b', a_finished = False\<rparr>))"
proof -
  obtain e' where e': "b_entries b (a_key a) = Some e'"
    using assms(1) by (auto simp: owned_entry_def split: option.splits)
  have "unat (sat_add (failures e) 1) > 0" by (simp add: unat_sat_add)
  then have "sat_add (failures e) 1 > 0" by (simp add: word_less_nat_alt)
  then show ?thesis
    using assms e'
    by (auto simp: record_failure_def Let_def unat_sat_add unat_failure_delay try_acquire_def
                   entry_or_default_def store_renewed_def)
qed

theorem failure_backoff_window_witness:
  "let b = sys_breaker held_sys; a = \<lparr>a_key = 7, a_generation = 1, a_finished = False\<rparr>
   in \<exists>f a' b'. record_failure 100 a b = (Some f, a', b') \<and> unat (ff_next_attempt_ms f) = 30100 \<and>
        fst (try_acquire 7 30099 b') = Inl (Backoff (ff_next_attempt_ms f) (ff_failure_count f) False)"
proof -
  let ?b = "sys_breaker held_sys" and ?a = "\<lparr>a_key = (7 :: nat), a_generation = 1, a_finished = False\<rparr>"
  have o: "owned_entry ?a ?b =
      Some \<lparr>failures = 0, next_attempt_ms = 0, in_flight = True, generation = 1\<rparr>"
    "b_config ?b = default_breaker_config"
    by (simp_all add: held_sys_def owned_entry_def)
  from failure_backoff_window [OF o(1), of 100] obtain f a' b' where
    f: "record_failure 100 ?a ?b = (Some f, a', b')" "unat (ff_failure_count f) = 1"
    "unat (ff_next_attempt_ms f) = 30100"
    "ff_failure_limit_reached f \<longleftrightarrow> failure_limit default_breaker_config \<le> ff_failure_count f"
    "\<forall>t. fst (try_acquire 7 t b') =
       (if t < ff_next_attempt_ms f
        then Inl (Backoff (ff_next_attempt_ms f) (ff_failure_count f) (ff_failure_limit_reached f))
        else Inr \<lparr>a_key = 7, a_generation = b_fresh b', a_finished = False\<rparr>)"
    by (auto simp: o(2) delay_nat_def default_breaker_config_def)
  moreover have "\<not> ff_failure_limit_reached f"
    using f(2,4) by (simp add: default_breaker_config_def word_le_nat_alt)
  moreover have "(30099 :: u64) < ff_next_attempt_ms f"
    using f(3) by (simp add: word_less_nat_alt)
  ultimately show ?thesis by auto
qed

text \<open>
  The backoff delay is non-decreasing in the number of consecutive failures and never exceeds the
  configured maximum, for every base and maximum the configuration can hold.
\<close>

theorem failure_delay_monotone_capped:
  assumes "m \<le> n"
  shows "failure_delay config m \<le> failure_delay config n \<and>
         failure_delay config n \<le> cfg_max_backoff_ms config"
  using delay_nat_mono [of "unat m" "unat n" config] assms
  by (simp add: word_le_nat_alt unat_failure_delay) (simp add: delay_nat_def)

theorem failure_delay_monotone_capped_witness:
  "failure_delay default_breaker_config 3 \<le> failure_delay default_breaker_config 40"
  using failure_delay_monotone_capped [of 3 40] by simp

end
