(* ===== verification/RunQueue.thy ===== *)
theory RunQueue
  imports Prelude "HOL-Library.Multiset"
begin

text \<open>
  The active-run queue: \<open>tinyagents-harness/src/run_queue/mod.rs\<close> and \<open>run_queue/types.rs\<close>.

  The three lanes behind the mutex are lists.  An item may carry an admission capability, a host
  object of type \<open>'a\<close>; what the host answers is the record \<open>admission_port\<close>, with the host's own state
  threaded through.  Every method runs under the lock (\<open>take_admitted\<close> releases it around each
  admission; it is modelled for a single consumer with no concurrent producer).  The locale
  \<open>lane_consumer\<close> is the contract shared by the methods that hand unguarded items out.
\<close>

section \<open>State\<close>

datatype QueueAdmissionError = Retry | Rejected
datatype QueueLane = Steer | Followup | Collect
datatype QueueMode = OneAtATime | All_mode

fun queue_lane_as_str :: "QueueLane \<Rightarrow> string" where
  "queue_lane_as_str Steer = ''steer''"
| "queue_lane_as_str Followup = ''followup''"
| "queue_lane_as_str Collect = ''collect''"

record ('t, 'a) Queued =
  q_value :: 't
  q_admission :: "'a option"

record ('t, 'a) RunQueue =
  steers :: "('t, 'a) Queued list"
  followups :: "('t, 'a) Queued list"
  collects :: "('t, 'a) Queued list"

record QueueStatus =
  st_steers :: nat
  st_followups :: nat
  st_collects :: nat
  st_total :: nat

record ('t, 'p) AdmittedQueueItem =
  ad_value :: 't
  ad_permit :: "'p option"

datatype ('t, 'a, 'p) AdmissionDecision =
    Accepted "('t, 'p) AdmittedQueueItem"
  | RetryLater "('t, 'a) Queued"
  | RejectedItem

record ('a, 'p, 's) admission_port =
  batch_key :: "'a \<Rightarrow> 's \<Rightarrow> string option"
  acquire_for :: "'a \<Rightarrow> string option \<Rightarrow> 's \<Rightarrow> (QueueAdmissionError, 'p) result \<times> 's"

definition queue_new :: "('t, 'a) RunQueue" where
  "queue_new = \<lparr>steers = [], followups = [], collects = []\<rparr>"

fun lane_items :: "QueueLane \<Rightarrow> ('t, 'a) RunQueue \<Rightarrow> ('t, 'a) Queued list" where
  "lane_items Steer q = steers q"
| "lane_items Followup q = followups q"
| "lane_items Collect q = collects q"

fun set_lane :: "QueueLane \<Rightarrow> ('t, 'a) Queued list \<Rightarrow> ('t, 'a) RunQueue \<Rightarrow> ('t, 'a) RunQueue" where
  "set_lane Steer xs q = q\<lparr>steers := xs\<rparr>"
| "set_lane Followup xs q = q\<lparr>followups := xs\<rparr>"
| "set_lane Collect xs q = q\<lparr>collects := xs\<rparr>"

definition is_guarded :: "('t, 'a) Queued \<Rightarrow> bool" where
  "is_guarded x \<longleftrightarrow> q_admission x \<noteq> None"

definition queued_admitted :: "'t \<Rightarrow> ('t, 'a) Queued" where
  "queued_admitted v = \<lparr>q_value = v, q_admission = None\<rparr>"

definition queued_guarded :: "'t \<Rightarrow> 'a \<Rightarrow> ('t, 'a) Queued" where
  "queued_guarded v a = \<lparr>q_value = v, q_admission = Some a\<rparr>"

section \<open>Producing and consuming\<close>

definition push_entry_now ::
  "QueueLane \<Rightarrow> ('t, 'a) Queued \<Rightarrow> ('t, 'a) RunQueue \<Rightarrow> ('t, 'a) RunQueue" where
  "push_entry_now lane x q = set_lane lane (lane_items lane q @ [x]) q"

definition push_now :: "QueueLane \<Rightarrow> 't \<Rightarrow> ('t, 'a) RunQueue \<Rightarrow> ('t, 'a) RunQueue" where
  "push_now lane v q = push_entry_now lane (queued_admitted v) q"

definition push_guarded_now ::
  "QueueLane \<Rightarrow> 't \<Rightarrow> 'a \<Rightarrow> ('t, 'a) RunQueue \<Rightarrow> ('t, 'a) RunQueue" where
  "push_guarded_now lane v a q = push_entry_now lane (queued_guarded v a) q"

definition requeue_front_now ::
  "QueueLane \<Rightarrow> ('t, 'a) Queued list \<Rightarrow> ('t, 'a) RunQueue \<Rightarrow> ('t, 'a) RunQueue" where
  "requeue_front_now lane xs q =
     (if xs = [] then q else set_lane lane (xs @ lane_items lane q) q)"

definition requeue_front :: "QueueLane \<Rightarrow> 't list \<Rightarrow> ('t, 'a) RunQueue \<Rightarrow> ('t, 'a) RunQueue" where
  "requeue_front lane vs q =
     (if vs = [] then q else set_lane lane (map queued_admitted vs @ lane_items lane q) q)"

definition drain_now :: "QueueLane \<Rightarrow> ('t, 'a) RunQueue \<Rightarrow> 't list \<times> ('t, 'a) RunQueue" where
  "drain_now lane q =
     (let (unguarded, guarded) = partition (\<lambda>x. \<not> is_guarded x) (lane_items lane q)
      in (map q_value unguarded, set_lane lane guarded q))"

fun drain_split ::
  "('t \<Rightarrow> bool) \<Rightarrow> ('t, 'a) Queued list \<Rightarrow> 't list \<times> ('t, 'a) Queued list" where
  "drain_split pred [] = ([], [])"
| "drain_split pred (x # xs) =
     (let (drained, remaining) = drain_split pred xs in
      if is_guarded x then (drained, x # remaining)
      else if pred (q_value x) then (q_value x # drained, remaining)
      else (drained, x # remaining))"

definition drain_where_now ::
  "('t \<Rightarrow> bool) \<Rightarrow> QueueLane \<Rightarrow> ('t, 'a) RunQueue \<Rightarrow> 't list \<times> ('t, 'a) RunQueue" where
  "drain_where_now pred lane q =
     (let (drained, remaining) = drain_split pred (lane_items lane q)
      in (drained, set_lane lane remaining q))"

fun remove_first_unguarded ::
  "('t, 'a) Queued list \<Rightarrow> ('t \<times> ('t, 'a) Queued list) option" where
  "remove_first_unguarded [] = None"
| "remove_first_unguarded (x # xs) =
     (if \<not> is_guarded x then Some (q_value x, xs)
      else map_option (\<lambda>(v, ys). (v, x # ys)) (remove_first_unguarded xs))"

definition queue_take ::
  "QueueMode \<Rightarrow> QueueLane \<Rightarrow> ('t, 'a) RunQueue \<Rightarrow> 't list \<times> ('t, 'a) RunQueue" where
  "queue_take mode lane q =
     (case mode of
        All_mode \<Rightarrow> drain_now lane q
      | OneAtATime \<Rightarrow>
          (case remove_first_unguarded (lane_items lane q) of
             None \<Rightarrow> ([], q)
           | Some (v, rest) \<Rightarrow> ([v], set_lane lane rest q)))"

definition queue_status :: "('t, 'a) RunQueue \<Rightarrow> QueueStatus" where
  "queue_status q = \<lparr>
     st_steers = length (steers q), st_followups = length (followups q),
     st_collects = length (collects q),
     st_total = length (steers q) + length (followups q) + length (collects q) \<rparr>"

definition queue_clear :: "('t, 'a) RunQueue \<Rightarrow> nat \<times> ('t, 'a) RunQueue" where
  "queue_clear q =
     (length (steers q) + length (followups q) + length (collects q),
      q\<lparr>steers := [], followups := [], collects := []\<rparr>)"

definition queue_snapshot :: "('t, 'a) RunQueue \<Rightarrow> (QueueLane \<times> 't) list" where
  "queue_snapshot q =
     map (\<lambda>x. (Steer, q_value x)) (steers q) @
     map (\<lambda>x. (Followup, q_value x)) (followups q) @
     map (\<lambda>x. (Collect, q_value x)) (collects q)"

definition remove_where :: "('t \<Rightarrow> bool) \<Rightarrow> ('t, 'a) RunQueue \<Rightarrow> nat \<times> ('t, 'a) RunQueue" where
  "remove_where pred q =
     (let before = length (steers q) + length (followups q) + length (collects q);
          keep = filter (\<lambda>x. \<not> pred (q_value x));
          q' = q\<lparr>steers := keep (steers q), followups := keep (followups q),
                 collects := keep (collects q)\<rparr>;
          after = length (steers q') + length (followups q') + length (collects q')
      in (before - after, q'))"

section \<open>Admission\<close>

definition admit_item ::
  "('a, 'p, 's) admission_port \<Rightarrow> ('t, 'a) Queued \<Rightarrow> (string \<rightharpoonup> 'p) \<Rightarrow> 's
    \<Rightarrow> ('t, 'a, 'p) AdmissionDecision \<times> (string \<rightharpoonup> 'p) \<times> 's" where
  "admit_item port item permits s =
     (case q_admission item of
        None \<Rightarrow> (Accepted \<lparr>ad_value = q_value item, ad_permit = None\<rparr>, permits, s)
      | Some capability \<Rightarrow>
          (case batch_key port capability s of
             Some key \<Rightarrow>
               (case permits key of
                  Some permit \<Rightarrow>
                    (Accepted \<lparr>ad_value = q_value item, ad_permit = Some permit\<rparr>, permits, s)
                | None \<Rightarrow>
                    (case acquire_for port capability (Some key) s of
                       (Inr permit, s') \<Rightarrow>
                         (Accepted \<lparr>ad_value = q_value item, ad_permit = Some permit\<rparr>,
                          permits(key \<mapsto> permit), s')
                     | (Inl Retry, s') \<Rightarrow> (RetryLater item, permits, s')
                     | (Inl Rejected, s') \<Rightarrow> (RejectedItem, permits, s')))
           | None \<Rightarrow>
               (case acquire_for port capability None s of
                  (Inr permit, s') \<Rightarrow>
                    (Accepted \<lparr>ad_value = q_value item, ad_permit = Some permit\<rparr>, permits, s')
                | (Inl Retry, s') \<Rightarrow> (RetryLater item, permits, s')
                | (Inl Rejected, s') \<Rightarrow> (RejectedItem, permits, s'))))"

text \<open>The loop of the one-at-a-time mode, \<open>count\<close> rounds at most.\<close>

fun take_one_admitted ::
  "('a, 'p, 's) admission_port \<Rightarrow> QueueLane \<Rightarrow> nat \<Rightarrow> ('t, 'a) Queued list \<Rightarrow> (string \<rightharpoonup> 'p)
    \<Rightarrow> ('t, 'a) RunQueue \<Rightarrow> 's \<Rightarrow> ('t, 'p) AdmittedQueueItem list \<times> ('t, 'a) RunQueue \<times> 's" where
  "take_one_admitted port lane 0 deferred permits q s = ([], requeue_front_now lane deferred q, s)"
| "take_one_admitted port lane (Suc n) deferred permits q s =
     (case lane_items lane q of
        [] \<Rightarrow> ([], requeue_front_now lane deferred q, s)
      | x # xs \<Rightarrow>
          (let q' = set_lane lane xs q in
           case admit_item port x permits s of
             (Accepted i, permits', s') \<Rightarrow> ([i], requeue_front_now lane deferred q', s')
           | (RetryLater y, permits', s') \<Rightarrow>
               take_one_admitted port lane n (deferred @ [y]) permits' q' s'
           | (RejectedItem, permits', s') \<Rightarrow>
               take_one_admitted port lane n deferred permits' q' s'))"

fun admit_all ::
  "('a, 'p, 's) admission_port \<Rightarrow> ('t, 'a) Queued list \<Rightarrow> (string \<rightharpoonup> 'p) \<Rightarrow> 's
    \<Rightarrow> ('t, 'p) AdmittedQueueItem list \<times> ('t, 'a) Queued list \<times> 's" where
  "admit_all port [] permits s = ([], [], s)"
| "admit_all port (x # xs) permits s =
     (case admit_item port x permits s of
        (d, permits', s') \<Rightarrow>
          (case admit_all port xs permits' s' of
             (admitted, deferred, s'') \<Rightarrow>
               (case d of
                  Accepted i \<Rightarrow> (i # admitted, deferred, s'')
                | RetryLater y \<Rightarrow> (admitted, y # deferred, s'')
                | RejectedItem \<Rightarrow> (admitted, deferred, s''))))"

definition take_admitted ::
  "('a, 'p, 's) admission_port \<Rightarrow> QueueLane \<Rightarrow> QueueMode \<Rightarrow> ('t, 'a) RunQueue \<Rightarrow> 's
    \<Rightarrow> ('t, 'p) AdmittedQueueItem list \<times> ('t, 'a) RunQueue \<times> 's" where
  "take_admitted port lane mode q s =
     (case mode of
        OneAtATime \<Rightarrow>
          take_one_admitted port lane (length (lane_items lane q)) [] Map.empty q s
      | All_mode \<Rightarrow>
          (case admit_all port (lane_items lane q) Map.empty s of
             (admitted, deferred, s') \<Rightarrow>
               (admitted, requeue_front_now lane deferred (set_lane lane [] q), s')))"

section \<open>Lanes\<close>

lemma lane_items_set_lane [simp]:
  "lane_items l (set_lane lane xs q) = (if l = lane then xs else lane_items l q)"
  by (cases l; cases lane) auto

lemma set_lane_twice [simp]: "set_lane lane ys (set_lane lane xs q) = set_lane lane ys q"
  by (cases lane) auto

lemma set_lane_same [simp]: "set_lane lane (lane_items lane q) q = q"
  by (cases lane) auto

lemma lane_items_requeue [simp]:
  "lane_items l (requeue_front_now lane xs q) =
     (if l = lane then xs @ lane_items l q else lane_items l q)"
  by (simp add: requeue_front_now_def)

lemma lane_items_push [simp]:
  "lane_items l (push_entry_now lane x q) =
     (if l = lane then lane_items l q @ [x] else lane_items l q)"
  by (simp add: push_entry_now_def)

lemma drain_split_filter:
  "drain_split pred xs =
     (map q_value (filter (\<lambda>x. \<not> is_guarded x \<and> pred (q_value x)) xs),
      filter (\<lambda>x. is_guarded x \<or> \<not> pred (q_value x)) xs)"
  by (induction xs) auto

section \<open>The contract of handing items out\<close>

lemma subseq_shuffles: "zs \<in> shuffles xs ys \<Longrightarrow> subseq xs zs \<and> subseq ys zs"
  by (induction xs ys arbitrary: zs rule: shuffles.induct) (auto simp: Cons_in_shuffles_iff)

lemma shuffles_filter: "xs \<in> shuffles (filter P xs) (filter (\<lambda>x. \<not> P x) xs)"
  by (induction xs) (auto intro: Cons_in_shuffles_leftI Cons_in_shuffles_rightI)

locale lane_consumer =
  fixes consume :: "QueueLane \<Rightarrow> ('t, 'a) RunQueue \<Rightarrow> 't list \<times> ('t, 'a) RunQueue"
  assumes hands_out: "\<exists>taken. lane_items lane q \<in> shuffles taken (lane_items lane (snd (consume lane q))) \<and>
      fst (consume lane q) = map q_value taken \<and> (\<forall>x \<in> set taken. \<not> is_guarded x)"
    and frame: "l \<noteq> lane \<Longrightarrow> lane_items l (snd (consume lane q)) = lane_items l q"
begin

lemma conserved:
  "mset (map q_value (lane_items lane q)) =
     mset (fst (consume lane q)) + mset (map q_value (lane_items lane (snd (consume lane q))))"
  using hands_out [of lane q] by (auto dest!: mset_shuffles)

lemma guarded_kept:
  "filter is_guarded (lane_items lane (snd (consume lane q))) = filter is_guarded (lane_items lane q)"
proof -
  obtain taken where t: "lane_items lane q \<in> shuffles taken (lane_items lane (snd (consume lane q)))"
    "\<forall>x \<in> set taken. \<not> is_guarded x"
    using hands_out by blast
  from t(1) have "filter is_guarded (lane_items lane q)
      \<in> shuffles (filter is_guarded taken) (filter is_guarded (lane_items lane (snd (consume lane q))))"
    by (auto simp: filter_shuffles [symmetric])
  moreover have "filter is_guarded taken = []" using t(2) by (simp add: filter_empty_conv)
  ultimately show ?thesis by simp
qed

lemma in_order:
  "subseq (fst (consume lane q)) (map q_value (lane_items lane q)) \<and>
   subseq (lane_items lane (snd (consume lane q))) (lane_items lane q)"
  using hands_out [of lane q] by (auto dest!: subseq_shuffles intro: subseq_map)

lemmas contract = conserved guarded_kept in_order frame

end

lemma remove_first_unguarded_Some:
  "remove_first_unguarded xs = Some (v, ys) \<Longrightarrow>
     \<exists>x. xs \<in> shuffles [x] ys \<and> v = q_value x \<and> \<not> is_guarded x"
proof (induction xs arbitrary: ys)
  case (Cons a xs)
  show ?case
  proof (cases "is_guarded a")
    case True
    with Cons.prems obtain zs where "remove_first_unguarded xs = Some (v, zs)" "ys = a # zs"
      by auto
    with Cons.IH show ?thesis by (metis Cons_in_shuffles_rightI)
  next
    case False
    with Cons.prems show ?thesis by (auto intro!: exI [of _ a] Cons_in_shuffles_leftI)
  qed
qed simp

lemma drain_hands_out:
  "\<exists>taken. lane_items lane q \<in> shuffles taken (lane_items lane (snd (drain_now lane q))) \<and>
     fst (drain_now lane q) = map q_value taken \<and> (\<forall>x \<in> set taken. \<not> is_guarded x)"
  using shuffles_filter [of "lane_items lane q" "\<lambda>x. \<not> is_guarded x"]
  by (intro exI [of _ "filter (\<lambda>x. \<not> is_guarded x) (lane_items lane q)"])
     (auto simp: drain_now_def comp_def)

lemma drain_where_hands_out:
  "\<exists>taken. lane_items lane q \<in> shuffles taken (lane_items lane (snd (drain_where_now pred lane q))) \<and>
     fst (drain_where_now pred lane q) = map q_value taken \<and> (\<forall>x \<in> set taken. \<not> is_guarded x)"
  using shuffles_filter [of "lane_items lane q" "\<lambda>x. \<not> is_guarded x \<and> pred (q_value x)"]
  by (intro exI [of _ "filter (\<lambda>x. \<not> is_guarded x \<and> pred (q_value x)) (lane_items lane q)"])
     (auto simp: drain_where_now_def drain_split_filter)

lemma take_one_hands_out:
  "\<exists>taken. lane_items lane q \<in> shuffles taken (lane_items lane (snd (queue_take OneAtATime lane q))) \<and>
     fst (queue_take OneAtATime lane q) = map q_value taken \<and> (\<forall>x \<in> set taken. \<not> is_guarded x)"
proof (cases "remove_first_unguarded (lane_items lane q)")
  case None
  then show ?thesis by (intro exI [of _ "[]"]) (simp add: queue_take_def)
next
  case (Some vy)
  with remove_first_unguarded_Some [of "lane_items lane q" "fst vy" "snd vy"]
  obtain x where "lane_items lane q \<in> shuffles [x] (snd vy)" "fst vy = q_value x" "\<not> is_guarded x"
    by auto
  with Some show ?thesis
    by (intro exI [of _ "[x]"]) (auto simp: queue_take_def split_beta)
qed

interpretation dr: lane_consumer drain_now
  by unfold_locales (rule drain_hands_out, simp add: drain_now_def)

interpretation dw: lane_consumer "drain_where_now pred" for pred
  by unfold_locales (rule drain_where_hands_out, simp add: drain_where_now_def drain_split_filter)

interpretation tk: lane_consumer "queue_take OneAtATime"
  by unfold_locales
     (rule take_one_hands_out, auto simp: queue_take_def split: option.splits)

section \<open>Admission in sequence\<close>

text \<open>The reference reading: ask for every item in order, keeping the batch permits.\<close>

fun admissions ::
  "('a, 'p, 's) admission_port \<Rightarrow> ('t, 'a) Queued list \<Rightarrow> (string \<rightharpoonup> 'p) \<Rightarrow> 's
    \<Rightarrow> ('t, 'a, 'p) AdmissionDecision list" where
  "admissions port [] permits s = []"
| "admissions port (x # xs) permits s =
     (case admit_item port x permits s of
        (d, permits', s') \<Rightarrow> d # admissions port xs permits' s')"

fun accepted_item :: "('t, 'a, 'p) AdmissionDecision \<Rightarrow> ('t, 'p) AdmittedQueueItem option" where
  "accepted_item (Accepted i) = Some i"
| "accepted_item (RetryLater y) = None"
| "accepted_item RejectedItem = None"

fun retried_item :: "('t, 'a, 'p) AdmissionDecision \<Rightarrow> ('t, 'a) Queued option" where
  "retried_item (Accepted i) = None"
| "retried_item (RetryLater y) = Some y"
| "retried_item RejectedItem = None"

definition is_accepted :: "('t, 'a, 'p) AdmissionDecision \<Rightarrow> bool" where
  "is_accepted d \<longleftrightarrow> accepted_item d \<noteq> None"

lemma is_accepted_simps [simp]:
  "is_accepted (Accepted i)" "\<not> is_accepted (RetryLater y)" "\<not> is_accepted RejectedItem"
  by (simp_all add: is_accepted_def)

lemma admissions_length [simp]: "length (admissions port xs permits s) = length xs"
  by (induction xs arbitrary: permits s) (auto split: prod.splits)

lemma admit_item_payload:
  "admit_item port x permits s = (d, permits', s') \<Longrightarrow>
     (\<forall>i. d = Accepted i \<longrightarrow> ad_value i = q_value x) \<and> (\<forall>y. d = RetryLater y \<longrightarrow> y = x) \<and>
     (q_admission x = None \<longrightarrow> is_accepted d)"
  by (auto simp: admit_item_def
           split: option.splits prod.splits sum.splits QueueAdmissionError.splits)

lemma admissions_payload:
  "list_all2 (\<lambda>x d. (\<forall>i. d = Accepted i \<longrightarrow> ad_value i = q_value x) \<and>
                    (\<forall>y. d = RetryLater y \<longrightarrow> y = x) \<and> (q_admission x = None \<longrightarrow> is_accepted d))
     xs (admissions port xs permits s)"
proof (induction xs arbitrary: permits s)
  case (Cons x xs)
  obtain d p' s' where d: "admit_item port x permits s = (d, p', s')" by (cases "admit_item port x permits s") auto
  from admit_item_payload [OF d] Cons.IH [of p' s'] d show ?case by simp
qed simp

lemma admit_all_eq:
  "fst (admit_all port xs permits s) = List.map_filter accepted_item (admissions port xs permits s) \<and>
   fst (snd (admit_all port xs permits s)) =
     List.map_filter retried_item (admissions port xs permits s)"
proof (induction xs arbitrary: permits s)
  case (Cons x xs)
  obtain d p' s' where d: "admit_item port x permits s = (d, p', s')" by (cases "admit_item port x permits s") auto
  from Cons.IH [of p' s'] d show ?case
    by (cases d) (auto simp: map_filter_simps split: prod.splits)
qed (simp add: map_filter_simps)

lemma take_one_eq:
  fixes port :: "('a, 'p, 's) admission_port"
  assumes "n = length (lane_items lane q)"
  defines "ds p s \<equiv> admissions port (lane_items lane q) p s"
  shows "fst (take_one_admitted port lane n deferred permits q s) =
           take 1 (List.map_filter accepted_item (ds permits s)) \<and>
         fst (snd (take_one_admitted port lane n deferred permits q s)) =
           set_lane lane
             (deferred
              @ List.map_filter retried_item (takeWhile (\<lambda>d. \<not> is_accepted d) (ds permits s))
              @ drop (Suc (length (takeWhile (\<lambda>d. \<not> is_accepted d) (ds permits s)))) (lane_items lane q)) q"
  using assms(1) unfolding ds_def
proof (induction n arbitrary: deferred permits q s)
  case 0
  then show ?case by (auto simp: requeue_front_now_def map_filter_simps) (metis append_Nil2 set_lane_same)
next
  case (Suc n)
  then obtain x xs where q: "lane_items lane q = x # xs" "length xs = n"
    by (cases "lane_items lane q") auto
  obtain d p' s' where d: "admit_item port x permits s = (d, p', s')" by (cases "admit_item port x permits s") auto
  note IH = Suc.IH [of "set_lane lane xs q" _ p' s']
  show ?case
    using q d IH
    by (cases d) (auto simp: requeue_front_now_def map_filter_simps Let_def)
qed

section \<open>Properties\<close>

text \<open>
  C6. Draining a lane, draining it selectively and taking one item neither lose, duplicate nor reorder
  anything: what is handed out and what stays are each in queue order and together are exactly the
  lane's items, guarded items all stay, and the other lanes are untouched.
\<close>

theorem consumers_conserve_lanes:
  assumes "consume \<in> {drain_now, queue_take OneAtATime, drain_where_now pred}"
  shows "mset (map q_value (lane_items lane q)) =
           mset (fst (consume lane q)) + mset (map q_value (lane_items lane (snd (consume lane q)))) \<and>
         subseq (fst (consume lane q)) (map q_value (lane_items lane q)) \<and>
         subseq (lane_items lane (snd (consume lane q))) (lane_items lane q) \<and>
         filter is_guarded (lane_items lane (snd (consume lane q))) =
           filter is_guarded (lane_items lane q) \<and>
         (\<forall>l. l \<noteq> lane \<longrightarrow> lane_items l (snd (consume lane q)) = lane_items l q)"
  using assms dr.contract [where lane = lane and q = q] tk.contract [where lane = lane and q = q]
    dw.contract [where lane = lane and q = q and pred = pred]
  by auto

theorem consumers_conserve_lanes_witness:
  "let q = push_now Steer (2 :: nat) (push_guarded_now Steer 1 () (push_now Steer 0 queue_new))
   in fst (drain_now Steer q) = [0, 2] \<and>
      mset (map q_value (lane_items Steer q)) =
        mset (fst (drain_now Steer q)) + mset (map q_value (lane_items Steer (snd (drain_now Steer q))))"
  using consumers_conserve_lanes [of drain_now "\<lambda>_. True" Steer
      "push_now Steer (2 :: nat) (push_guarded_now Steer 1 () (push_now Steer 0 queue_new))"]
  by (simp add: drain_now_def push_now_def push_guarded_now_def push_entry_now_def queue_new_def
                queued_admitted_def queued_guarded_def is_guarded_def)

definition push_all ::
  "(QueueLane \<times> 't \<times> 'a option) list \<Rightarrow> ('t, 'a) RunQueue \<Rightarrow> ('t, 'a) RunQueue" where
  "push_all ops q =
     fold (\<lambda>(l, v, a). case a of None \<Rightarrow> push_now l v | Some c \<Rightarrow> push_guarded_now l v c) ops q"

lemma lane_items_new [simp]: "lane_items lane queue_new = []"
  by (cases lane) (simp_all add: queue_new_def)

lemma push_all_lane:
  "lane_items lane (push_all ops q) = lane_items lane q
     @ map (\<lambda>(l, v, a). \<lparr>q_value = v, q_admission = a\<rparr>) (filter (\<lambda>(l, v, a). l = lane) ops)"
  unfolding push_all_def
  by (induction ops arbitrary: q)
     (auto simp: push_now_def push_guarded_now_def queued_admitted_def queued_guarded_def
           split: option.splits)

text \<open>
  The queue is first-in first-out per lane: after any sequence of pushes, guarded or not, into any
  lanes, draining a lane returns exactly the unguarded values pushed to it, in push order.
\<close>

theorem drain_is_fifo:
  "fst (drain_now lane (push_all ops queue_new)) =
     map (\<lambda>(l, v, a). v) (filter (\<lambda>(l, v, a). l = lane \<and> a = None) ops)"
  by (simp add: drain_now_def push_all_lane filter_map comp_def case_prod_unfold is_guarded_def
                conj_commute)


definition sample_admission :: "(QueueAdmissionError option, unit, unit) admission_port" where
  "sample_admission = \<lparr>
     batch_key = (\<lambda>_ _. None),
     acquire_for = (\<lambda>a _ s. (case a of None \<Rightarrow> Inr () | Some e \<Rightarrow> Inl e, s)) \<rparr>"


text \<open>
  Taking one item with admission is the same sequence of questions cut at the first accepted item:
  it returns that item, puts the items to retry that came before it back in front, in order, and
  leaves everything behind it unasked and in place.
\<close>

theorem take_admitted_one_exact:
  "let items = lane_items lane q;
       ds = admissions port items Map.empty s;
       skipped = takeWhile (\<lambda>d. \<not> is_accepted d) ds;
       (admitted, q', s') = take_admitted port lane OneAtATime q s
   in admitted = take 1 (List.map_filter accepted_item ds) \<and>
      q' = set_lane lane (List.map_filter retried_item skipped @ drop (Suc (length skipped)) items) q"
  using take_one_eq [of "length (lane_items lane q)" lane q port "[]" Map.empty s]
  by (simp add: take_admitted_def Let_def split_beta)

end
