(* ===== verification/Steering.thy ===== *)
theory Steering
  imports Prelude
begin

text \<open>
  Runtime steering: \<open>tinyagents-harness/src/steering/mod.rs\<close> and \<open>steering/types.rs\<close>.

  All handles of a run tree share one queue and policy (\<open>SteeringInner\<close>); a handle has an identity
  (\<open>SteeringHandle\<close>) and its own latches (\<open>SteeringLocal\<close>).  A transcript message is a third-party type
  \<open>'m\<close>, and the constructor \<open>Message::system\<close> is the argument \<open>system_message\<close>.  The part of the run
  context a checkpoint touches is \<open>steer_ctx\<close>.  \<open>RecentRequestIds\<close> is the bounded memory of request
  identifiers; the locale \<open>dedup_window\<close> is what its users rely on.
\<close>

section \<open>Commands and policy\<close>

datatype SteeringTarget = Root | Run string | All_runs

datatype 'm SteeringCommand =
    Pause
  | PauseWith string
  | Resume
  | Cancel
  | InjectMessage 'm
  | Redirect string
  | SetMetadata json
  | SwitchModel string

datatype SteeringCommandKind =
    Pause_kind | Resume_kind | Cancel_kind | InjectMessage_kind | Redirect_kind
  | SetMetadata_kind | SwitchModel_kind

fun command_kind :: "'m SteeringCommand \<Rightarrow> SteeringCommandKind" where
  "command_kind Pause = Pause_kind"
| "command_kind (PauseWith _) = Pause_kind"
| "command_kind Resume = Resume_kind"
| "command_kind Cancel = Cancel_kind"
| "command_kind (InjectMessage _) = InjectMessage_kind"
| "command_kind (Redirect _) = Redirect_kind"
| "command_kind (SetMetadata _) = SetMetadata_kind"
| "command_kind (SwitchModel _) = SwitchModel_kind"

definition ALL_kinds :: "SteeringCommandKind list" where
  "ALL_kinds = [Pause_kind, Resume_kind, Cancel_kind, InjectMessage_kind, Redirect_kind,
                SetMetadata_kind, SwitchModel_kind]"

fun kind_as_str :: "SteeringCommandKind \<Rightarrow> string" where
  "kind_as_str Pause_kind = ''pause''"
| "kind_as_str Resume_kind = ''resume''"
| "kind_as_str Cancel_kind = ''cancel''"
| "kind_as_str InjectMessage_kind = ''inject_message''"
| "kind_as_str Redirect_kind = ''redirect''"
| "kind_as_str SetMetadata_kind = ''set_metadata''"
| "kind_as_str SwitchModel_kind = ''switch_model''"

record SteeringPolicy =
  allowed :: "SteeringCommandKind set"

definition policy_new :: SteeringPolicy where
  "policy_new = \<lparr>allowed = {}\<rparr>"

definition allow_all :: SteeringPolicy where
  "allow_all = \<lparr>allowed = set (filter (\<lambda>k. k \<noteq> SwitchModel_kind) ALL_kinds)\<rparr>"

definition allow :: "SteeringCommandKind \<Rightarrow> SteeringPolicy \<Rightarrow> SteeringPolicy" where
  "allow kind p = p\<lparr>allowed := insert kind (allowed p)\<rparr>"

definition allow_all_with_model_switch :: SteeringPolicy where
  "allow_all_with_model_switch = allow SwitchModel_kind allow_all"

definition is_allowed :: "SteeringPolicy \<Rightarrow> SteeringCommandKind \<Rightarrow> bool" where
  "is_allowed p kind \<longleftrightarrow> kind \<in> allowed p"

section \<open>Handles\<close>

datatype SteeringOutcome = Continue | Pause_outcome | Cancel_outcome

record PauseState =
  ps_reason :: "string option"
  paused_at_checkpoint :: nat

record 'm SteeringInner =
  queue :: "(SteeringTarget \<times> 'm SteeringCommand) list"
  policy :: SteeringPolicy

record SteeringLocal =
  paused :: "PauseState option"
  checkpoints :: nat
  model_override :: "string option"
  model_override_announced :: bool

record SteeringHandle =
  sh_run_id :: string
  sh_is_root :: bool

definition default_local :: SteeringLocal where
  "default_local = \<lparr>paused = None, checkpoints = 0, model_override = None,
                    model_override_announced = False\<rparr>"

definition inner_new :: "SteeringPolicy \<Rightarrow> 'm SteeringInner" where
  "inner_new p = \<lparr>queue = [], policy = p\<rparr>"

definition handle_new :: "SteeringHandle \<times> SteeringLocal" where
  "handle_new = (\<lparr>sh_run_id = [], sh_is_root = True\<rparr>, default_local)"

definition reject_model_override :: "SteeringLocal \<Rightarrow> bool \<times> SteeringLocal" where
  "reject_model_override l =
     (model_override_announced l, l\<lparr>model_override := None, model_override_announced := False\<rparr>)"

definition bind_root :: "string \<Rightarrow> SteeringLocal \<Rightarrow> SteeringHandle \<times> SteeringLocal" where
  "bind_root run_id l =
     (\<lparr>sh_run_id = run_id, sh_is_root = True\<rparr>, snd (reject_model_override l))"

definition for_child :: "string \<Rightarrow> SteeringHandle \<times> SteeringLocal" where
  "for_child run_id = (\<lparr>sh_run_id = run_id, sh_is_root = False\<rparr>, default_local)"

definition send_to ::
  "SteeringTarget \<Rightarrow> 'm SteeringCommand \<Rightarrow> 'm SteeringInner \<Rightarrow> 'm SteeringInner" where
  "send_to target command i = i\<lparr>queue := queue i @ [(target, command)]\<rparr>"

definition send :: "'m SteeringCommand \<Rightarrow> 'm SteeringInner \<Rightarrow> 'm SteeringInner" where
  "send command i = send_to Root command i"

definition send_all :: "'m SteeringCommand \<Rightarrow> 'm SteeringInner \<Rightarrow> 'm SteeringInner" where
  "send_all command i = send_to All_runs command i"

fun remove_first :: "'x \<Rightarrow> 'x list \<Rightarrow> 'x list option" where
  "remove_first x [] = None"
| "remove_first x (y # ys) =
     (if y = x then Some ys else map_option ((#) y) (remove_first x ys))"

definition retract ::
  "SteeringTarget \<Rightarrow> 'm SteeringCommand \<Rightarrow> 'm SteeringInner \<Rightarrow> bool \<times> 'm SteeringInner" where
  "retract target command i =
     (case remove_first (target, command) (queue i) of
        None \<Rightarrow> (False, i)
      | Some q \<Rightarrow> (True, i\<lparr>queue := q\<rparr>))"

fun target_matches :: "SteeringHandle \<Rightarrow> SteeringTarget \<Rightarrow> bool" where
  "target_matches h Root = sh_is_root h"
| "target_matches h (Run rid) = (rid = sh_run_id h)"
| "target_matches h All_runs = True"

fun drain_queue ::
  "SteeringHandle \<Rightarrow> (SteeringTarget \<times> 'm SteeringCommand) list
    \<Rightarrow> 'm SteeringCommand list \<times> (SteeringTarget \<times> 'm SteeringCommand) list" where
  "drain_queue h [] = ([], [])"
| "drain_queue h ((target, command) # rest) =
     (let (matched, remaining) = drain_queue h rest in
      if target_matches h target then (command # matched, remaining)
      else (matched, (target, command) # remaining))"

definition steering_drain ::
  "SteeringHandle \<Rightarrow> 'm SteeringInner \<Rightarrow> 'm SteeringCommand list \<times> 'm SteeringInner" where
  "steering_drain h i =
     (let (matched, remaining) = drain_queue h (queue i) in (matched, i\<lparr>queue := remaining\<rparr>))"

definition pending :: "SteeringHandle \<Rightarrow> 'm SteeringInner \<Rightarrow> nat" where
  "pending h i = length (filter (\<lambda>(target, _). target_matches h target) (queue i))"

definition latch_pause :: "nat \<Rightarrow> string option \<Rightarrow> SteeringLocal \<Rightarrow> SteeringLocal" where
  "latch_pause checkpoint reason l =
     (case paused l of
        Some _ \<Rightarrow> l
      | None \<Rightarrow> l\<lparr>paused := Some \<lparr>ps_reason = reason, paused_at_checkpoint = checkpoint\<rparr>\<rparr>)"

definition resume :: "SteeringLocal \<Rightarrow> PauseState option \<times> SteeringLocal" where
  "resume l = (paused l, l\<lparr>paused := None\<rparr>)"

definition advance_checkpoint :: "SteeringLocal \<Rightarrow> nat \<times> SteeringLocal" where
  "advance_checkpoint l = (checkpoints l, l\<lparr>checkpoints := Suc (checkpoints l)\<rparr>)"

definition set_model_override :: "string \<Rightarrow> SteeringLocal \<Rightarrow> bool \<times> SteeringLocal" where
  "set_model_override model l =
     (model_override l \<noteq> None \<and> \<not> model_override_announced l,
      l\<lparr>model_override := Some model, model_override_announced := False\<rparr>)"

definition announce_model_override :: "string \<Rightarrow> SteeringLocal \<Rightarrow> bool \<times> SteeringLocal" where
  "announce_model_override applied l =
     (if model_override l = Some applied
      then (\<not> model_override_announced l, l\<lparr>model_override_announced := True\<rparr>)
      else (False, l))"

section \<open>The checkpoint\<close>

datatype steer_event = Steered string bool

record 'm steer_ctx =
  sc_messages :: "'m list"
  sc_metadata :: json
  sc_events :: "steer_event list"

definition steer_emit ::
  "SteeringCommandKind \<Rightarrow> bool \<Rightarrow> 'm steer_ctx \<Rightarrow> 'm steer_ctx" where
  "steer_emit kind accepted c = c\<lparr>sc_events := sc_events c @ [Steered (kind_as_str kind) accepted]\<rparr>"

definition redirect_text :: "string \<Rightarrow> string" where
  "redirect_text instruction = ''[steering:redirect] '' @ instruction"

text \<open>One command of the batch; the flag is the early return of \<open>Cancel\<close>.\<close>

definition apply_command ::
  "(string \<Rightarrow> 'm) \<Rightarrow> SteeringPolicy \<Rightarrow> nat \<Rightarrow> 'm SteeringCommand \<Rightarrow> SteeringLocal \<times> 'm steer_ctx
    \<Rightarrow> bool \<times> SteeringLocal \<times> 'm steer_ctx" where
  "apply_command system_message pol checkpoint command = (\<lambda>(l, c).
     (let kind = command_kind command in
      if \<not> is_allowed pol kind then (False, l, steer_emit kind False c)
      else
        (case command of
           Pause \<Rightarrow> (False, latch_pause checkpoint None l, steer_emit kind True c)
         | PauseWith reason \<Rightarrow>
             (False, latch_pause checkpoint (Some reason) l, steer_emit kind True c)
         | Resume \<Rightarrow> (False, snd (resume l), steer_emit kind True c)
         | Cancel \<Rightarrow> (True, l, steer_emit kind True c)
         | InjectMessage m \<Rightarrow>
             (False, l, steer_emit kind True (c\<lparr>sc_messages := sc_messages c @ [m]\<rparr>))
         | Redirect instruction \<Rightarrow>
             (False, l, steer_emit kind True
               (c\<lparr>sc_messages := sc_messages c @ [system_message (redirect_text instruction)]\<rparr>))
         | SetMetadata metadata \<Rightarrow>
             (False, l, steer_emit kind True (c\<lparr>sc_metadata := metadata\<rparr>))
         | SwitchModel name \<Rightarrow>
             (let model = str_trim name in
              if model = [] then (False, l, steer_emit kind False c)
              else
                (case set_model_override model l of
                   (superseded, l') \<Rightarrow>
                     (False, l', if superseded then steer_emit kind False c else c))))))"

fun apply_commands ::
  "(string \<Rightarrow> 'm) \<Rightarrow> SteeringPolicy \<Rightarrow> nat \<Rightarrow> 'm SteeringCommand list \<Rightarrow> SteeringLocal \<times> 'm steer_ctx
    \<Rightarrow> bool \<times> SteeringLocal \<times> 'm steer_ctx" where
  "apply_commands sm pol cp [] (l, c) = (False, l, c)"
| "apply_commands sm pol cp (x # xs) (l, c) =
     (case apply_command sm pol cp x (l, c) of
        (True, l', c') \<Rightarrow> (True, l', c')
      | (False, l', c') \<Rightarrow> apply_commands sm pol cp xs (l', c'))"

definition apply_pending_steering ::
  "(string \<Rightarrow> 'm) \<Rightarrow> SteeringHandle option \<Rightarrow> 'm SteeringInner \<Rightarrow> SteeringLocal \<Rightarrow> 'm steer_ctx
    \<Rightarrow> SteeringOutcome \<times> 'm SteeringInner \<times> SteeringLocal \<times> 'm steer_ctx" where
  "apply_pending_steering system_message handle i l c =
     (case handle of
        None \<Rightarrow> (Continue, i, l, c)
      | Some h \<Rightarrow>
          (let (checkpoint, l1) = advance_checkpoint l;
               (commands, i') = steering_drain h i;
               (cancelled, l2, c') = apply_commands system_message (policy i) checkpoint commands (l1, c)
           in (if cancelled then Cancel_outcome
               else if paused l2 \<noteq> None then Pause_outcome else Continue,
               i', l2, c')))"

section \<open>Request identifiers\<close>

definition MAX_STEER_TEXT_BYTES :: nat where
  "MAX_STEER_TEXT_BYTES = 32 * 1024"

datatype RequestIdError = TooLong

record RecentRequestIds =
  capacity :: nat
  order :: "string list"

definition DEFAULT_CAPACITY :: nat where "DEFAULT_CAPACITY = 64"
definition MAX_REQUEST_ID_BYTES :: nat where "MAX_REQUEST_ID_BYTES = 128"

definition ids_with_capacity :: "nat \<Rightarrow> RecentRequestIds" where
  "ids_with_capacity n = \<lparr>capacity = max n 1, order = []\<rparr>"

definition ids_default :: RecentRequestIds where
  "ids_default = ids_with_capacity DEFAULT_CAPACITY"

definition claim :: "string \<Rightarrow> RecentRequestIds \<Rightarrow> (RequestIdError, bool) result \<times> RecentRequestIds" where
  "claim rid r =
     (if length rid > MAX_REQUEST_ID_BYTES then (Inl TooLong, r)
      else if list_ex (\<lambda>seen. seen = rid) (order r) then (Inr False, r)
      else
        (let o1 = (if length (order r) \<ge> capacity r then tl (order r) else order r)
         in (Inr True, r\<lparr>order := o1 @ [rid]\<rparr>)))"

section \<open>What a batch does\<close>

lemma drain_queue_filter:
  "drain_queue h q =
     (map snd (filter (\<lambda>(t, _). target_matches h t) q), filter (\<lambda>(t, _). \<not> target_matches h t) q)"
  by (induction q) auto

text \<open>
  The commands that count: permitted by the policy and before the first permitted cancel.  Each has
  one effect on the pause latch, the transcript, the metadata and the model override.
\<close>

definition permitted :: "SteeringPolicy \<Rightarrow> 'm SteeringCommand list \<Rightarrow> 'm SteeringCommand list" where
  "permitted pol cs = filter (\<lambda>c. is_allowed pol (command_kind c)) cs"

definition effective :: "SteeringPolicy \<Rightarrow> 'm SteeringCommand list \<Rightarrow> 'm SteeringCommand list" where
  "effective pol cs = takeWhile (\<lambda>c. c \<noteq> Cancel) (permitted pol cs)"

fun pause_effect :: "nat \<Rightarrow> 'm SteeringCommand \<Rightarrow> PauseState option \<Rightarrow> PauseState option" where
  "pause_effect cp Pause None = Some \<lparr>ps_reason = None, paused_at_checkpoint = cp\<rparr>"
| "pause_effect cp (PauseWith r) None = Some \<lparr>ps_reason = Some r, paused_at_checkpoint = cp\<rparr>"
| "pause_effect cp Resume p = None"
| "pause_effect cp _ p = p"

fun message_effect :: "(string \<Rightarrow> 'm) \<Rightarrow> 'm SteeringCommand \<Rightarrow> 'm list" where
  "message_effect sm (InjectMessage m) = [m]"
| "message_effect sm (Redirect t) = [sm (redirect_text t)]"
| "message_effect sm _ = []"

fun metadata_effect :: "'m SteeringCommand \<Rightarrow> json \<Rightarrow> json" where
  "metadata_effect (SetMetadata j) old = j"
| "metadata_effect _ old = old"

fun model_effect :: "'m SteeringCommand \<Rightarrow> string option \<Rightarrow> string option" where
  "model_effect (SwitchModel m) old = (if str_trim m = [] then old else Some (str_trim m))"
| "model_effect _ old = old"

lemma apply_command_effect:
  assumes "apply_command sm pol cp x (l, c) = (b, l', c')"
  shows "b = (x \<in> set (permitted pol [x]) \<and> x = Cancel) \<and> checkpoints l' = checkpoints l \<and>
    (if is_allowed pol (command_kind x)
     then paused l' = pause_effect cp x (paused l) \<and>
          sc_messages c' = sc_messages c @ message_effect sm x \<and>
          sc_metadata c' = metadata_effect x (sc_metadata c) \<and>
          model_override l' = model_effect x (model_override l)
     else l' = l \<and> sc_messages c' = sc_messages c \<and> sc_metadata c' = sc_metadata c)"
  using assms
  by (cases x; cases "paused l")
     (auto simp: apply_command_def Let_def permitted_def steer_emit_def latch_pause_def resume_def
                 set_model_override_def split: if_splits)

lemma apply_commands_effect:
  "apply_commands sm pol cp cs (l, c) = (b, l', c') \<Longrightarrow>
     b = (Cancel \<in> set (permitted pol cs)) \<and> checkpoints l' = checkpoints l \<and>
     paused l' = fold (pause_effect cp) (effective pol cs) (paused l) \<and>
     sc_messages c' = sc_messages c @ concat (map (message_effect sm) (effective pol cs)) \<and>
     sc_metadata c' = fold metadata_effect (effective pol cs) (sc_metadata c) \<and>
     model_override l' = fold model_effect (effective pol cs) (model_override l)"
proof (induction cs arbitrary: l c)
  case Nil
  then show ?case by (simp add: effective_def permitted_def)
next
  case (Cons x xs)
  obtain b1 l1 c1 where one: "apply_command sm pol cp x (l, c) = (b1, l1, c1)"
    by (cases "apply_command sm pol cp x (l, c)") auto
  note eff = apply_command_effect [OF one]
  show ?case
  proof (cases b1)
    case True
    with eff have "x = Cancel" "is_allowed pol (command_kind x)" by (auto simp: permitted_def split: if_splits)
    with Cons.prems one True eff show ?thesis
      by (auto simp: effective_def permitted_def)
  next
    case False
    with Cons.prems one have "apply_commands sm pol cp xs (l1, c1) = (b, l', c')" by simp
    from Cons.IH [OF this] eff False show ?thesis
      by (auto simp: effective_def permitted_def split: if_splits)
  qed
qed

lemma pause_kept:
  "Resume \<notin> set cs \<Longrightarrow> fold (pause_effect cp) cs (Some p) = Some p"
proof (induction cs)
  case (Cons c cs)
  then show ?case by (cases c) auto
qed simp

lemma effective_subset: "set (effective pol cs) \<subseteq> set cs"
  by (auto simp: effective_def permitted_def dest: set_takeWhileD)

section \<open>The contract of a request-identifier window\<close>

primrec claim_all ::
  "(string \<Rightarrow> 's \<Rightarrow> ('e, bool) result \<times> 's) \<Rightarrow> string list \<Rightarrow> 's \<Rightarrow> string list \<times> 's" where
  "claim_all f [] s = ([], s)"
| "claim_all f (r # rs) s =
     (let (answer, s1) = f r s; (accepted, s2) = claim_all f rs s1
      in (if answer = Inr True then r # accepted else accepted, s2))"

locale dedup_window =
  fixes claim_id :: "string \<Rightarrow> 's \<Rightarrow> (RequestIdError, bool) result \<times> 's"
    and inv :: "'s \<Rightarrow> bool"
    and remembered :: "'s \<Rightarrow> string list"
    and window :: "'s \<Rightarrow> nat"
  assumes inv_claim: "inv s \<Longrightarrow> inv (snd (claim_id r s))"
    and window_claim: "window (snd (claim_id r s)) = window s"
    and window_bound: "inv s \<Longrightarrow> length (remembered s) \<le> window s \<and> 1 \<le> window s"
    and too_long: "MAX_REQUEST_ID_BYTES < length r \<Longrightarrow> claim_id r s = (Inl TooLong, s)"
    and duplicate: "length r \<le> MAX_REQUEST_ID_BYTES \<Longrightarrow> r \<in> set (remembered s) \<Longrightarrow>
        claim_id r s = (Inr False, s)"
    and fresh: "inv s \<Longrightarrow> length r \<le> MAX_REQUEST_ID_BYTES \<Longrightarrow> r \<notin> set (remembered s) \<Longrightarrow>
        fst (claim_id r s) = Inr True \<and>
        remembered (snd (claim_id r s)) =
          drop (Suc (length (remembered s)) - window s) (remembered s @ [r])"
begin

lemma accepted_iff:
  "inv s \<Longrightarrow> fst (claim_id r s) = Inr True \<longleftrightarrow>
     length r \<le> MAX_REQUEST_ID_BYTES \<and> r \<notin> set (remembered s)"
  using too_long [of r s] duplicate [of r s] fresh [of s r]
  by (cases "length r \<le> MAX_REQUEST_ID_BYTES") (auto simp: not_le)

lemma rejected_same: "inv s \<Longrightarrow> fst (claim_id r s) \<noteq> Inr True \<Longrightarrow> snd (claim_id r s) = s"
  using too_long [of r s] duplicate [of r s] fresh [of s r]
  by (cases "length r \<le> MAX_REQUEST_ID_BYTES"; cases "r \<in> set (remembered s)") (auto simp: not_le)

lemma claim_all_window:
  "inv s \<Longrightarrow> claim_all claim_id rs s = (acc, s') \<Longrightarrow>
     inv s' \<and> window s' = window s \<and>
     remembered s' = drop (length (remembered s) + length acc - window s) (remembered s @ acc)"
proof (induction rs arbitrary: s acc)
  case Nil
  then show ?case using window_bound by auto
next
  case (Cons r rs)
  let ?s1 = "snd (claim_id r s)"
  obtain acc1 where run: "claim_all claim_id rs ?s1 = (acc1, s')"
    and acc: "acc = (if fst (claim_id r s) = Inr True then r # acc1 else acc1)"
    using Cons.prems(2) by (cases "claim_all claim_id rs ?s1") (auto simp: Let_def split_beta)
  note IH = Cons.IH [OF inv_claim [OF Cons.prems(1)] run]
  show ?case
  proof (cases "fst (claim_id r s) = Inr True")
    case False
    with IH acc rejected_same [OF Cons.prems(1)] show ?thesis by simp
  next
    case True
    with accepted_iff [OF Cons.prems(1)] have f: "remembered ?s1 =
        drop (Suc (length (remembered s)) - window s) (remembered s @ [r])"
      using fresh [OF Cons.prems(1)] by blast
    have b: "length (remembered s) \<le> window s" "1 \<le> window s"
      using window_bound [OF Cons.prems(1)] by auto
    show ?thesis
    proof (cases "length (remembered s) < window s")
      case True
      with IH f acc \<open>fst (claim_id r s) = Inr True\<close> window_claim show ?thesis by simp
    next
      case False
      with b have len: "length (remembered s) = window s" by simp
      then obtain y ys where ys: "remembered s = y # ys" using b(2) by (cases "remembered s") auto
      have "remembered ?s1 = ys @ [r]" "window ?s1 = Suc (length ys)" "window s = Suc (length ys)"
        using f ys len window_claim by simp_all
      with IH acc ys \<open>fst (claim_id r s) = Inr True\<close> show ?thesis
        by (simp del: drop_append)
    qed
  qed
qed

lemma replay_rejected:
  assumes "inv s" "fst (claim_id r s) = Inr True"
    and "claim_all claim_id rs (snd (claim_id r s)) = (acc, s')" "length acc < window s"
  shows "claim_id r s' = (Inr False, s')"
proof -
  let ?m = "remembered (snd (claim_id r s))"
  have r: "length r \<le> MAX_REQUEST_ID_BYTES" "r \<notin> set (remembered s)"
    using accepted_iff [OF assms(1)] assms(2) by auto
  have m: "?m = drop (Suc (length (remembered s)) - window s) (remembered s @ [r])"
    using fresh [OF assms(1) r] by simp
  then obtain pre where pre: "?m = pre @ [r]"
    using window_bound [OF assms(1)]
    by (intro that [of "drop (Suc (length (remembered s)) - window s) (remembered s)"]) simp
  have "remembered s' = drop (length ?m + length acc - window s) (?m @ acc)"
    using claim_all_window [OF inv_claim [OF assms(1)] assms(3)] window_claim by simp
  moreover have "length ?m + length acc - window s \<le> length pre" using assms(4) pre by simp
  ultimately have "r \<in> set (remembered s')" using pre by simp
  with duplicate r(1) show ?thesis by blast
qed

end

definition ids_inv :: "RecentRequestIds \<Rightarrow> bool" where
  "ids_inv r \<longleftrightarrow> 1 \<le> capacity r \<and> length (order r) \<le> capacity r \<and> distinct (order r) \<and>
     (\<forall>x \<in> set (order r). length x \<le> MAX_REQUEST_ID_BYTES)"

interpretation ids: dedup_window claim ids_inv order capacity
proof
  fix s r
  show "ids_inv s \<Longrightarrow> ids_inv (snd (claim r s))"
    by (cases "order s") (auto simp: ids_inv_def claim_def Let_def list_ex_iff)
  show "ids_inv s \<Longrightarrow> length r \<le> MAX_REQUEST_ID_BYTES \<Longrightarrow> r \<notin> set (order s) \<Longrightarrow>
      fst (claim r s) = Inr True \<and>
      order (snd (claim r s)) = drop (Suc (length (order s)) - capacity s) (order s @ [r])"
    by (cases "order s") (auto simp: ids_inv_def claim_def Let_def list_ex_iff Suc_diff_le)
qed (auto simp: claim_def Let_def list_ex_iff ids_inv_def)

lemma ids_with_capacity_inv: "ids_inv (ids_with_capacity n)"
  by (simp add: ids_inv_def ids_with_capacity_def)

section \<open>Properties\<close>

text \<open>
  C33. A checkpoint takes exactly the commands addressed to its own run, in order, and leaves the rest
  in order: afterwards nothing is pending for that handle, and another run's commands (addressed to
  it by identifier, or to the root) are all still queued.
\<close>

theorem drain_is_addressed:
  assumes "sh_run_id other \<noteq> sh_run_id h" "\<not> (sh_is_root other \<and> sh_is_root h)"
  shows "fst (steering_drain h i) =
           map snd (filter (\<lambda>(t, _). target_matches h t) (queue i)) \<and>
         length (fst (steering_drain h i)) = pending h i \<and>
         pending h (snd (steering_drain h i)) = 0 \<and>
         filter (\<lambda>(t, _). target_matches other t \<and> t \<noteq> All_runs) (queue (snd (steering_drain h i))) =
           filter (\<lambda>(t, _). target_matches other t \<and> t \<noteq> All_runs) (queue i) \<and>
         policy (snd (steering_drain h i)) = policy i"
proof -
  have "target_matches other t \<and> t \<noteq> All_runs \<Longrightarrow> \<not> target_matches h t" for t
    using assms by (cases t) auto
  then have "filter (\<lambda>x. target_matches other (fst x) \<and> fst x \<noteq> All_runs \<and> \<not> target_matches h (fst x)) (queue i)
      = filter (\<lambda>x. target_matches other (fst x) \<and> fst x \<noteq> All_runs) (queue i)"
    by (intro filter_cong) auto
  then show ?thesis
    by (simp add: steering_drain_def drain_queue_filter pending_def case_prod_unfold conj_ac)
qed

theorem drain_is_addressed_witness:
  "let i = send_to (Run ''b'') Resume (send_to (Run ''a'') (Pause :: nat SteeringCommand)
             (inner_new allow_all));
       h = fst (for_child ''a'')
   in fst (steering_drain h i) = [Pause] \<and>
      filter (\<lambda>(t, _). target_matches (fst (for_child ''b'')) t \<and> t \<noteq> All_runs)
        (queue (snd (steering_drain h i))) = [(Run ''b'', Resume)]"
  using drain_is_addressed [of "fst (for_child ''b'')" "fst (for_child ''a'')"
      "send_to (Run ''b'') Resume (send_to (Run ''a'') (Pause :: nat SteeringCommand) (inner_new allow_all))"]
  by (simp add: for_child_def send_to_def inner_new_def)


primrec steer_run ::
  "(string \<Rightarrow> 'm) \<Rightarrow> SteeringHandle \<Rightarrow> 'm SteeringInner list \<Rightarrow> SteeringLocal \<Rightarrow> 'm steer_ctx
    \<Rightarrow> SteeringOutcome list \<times> SteeringLocal" where
  "steer_run sm h [] l c = ([], l)"
| "steer_run sm h (i # is) l c =
     (case apply_pending_steering sm (Some h) i l c of (outcome, i', l', c') \<Rightarrow>
        (case steer_run sm h is l' c' of (os, l'') \<Rightarrow> (outcome # os, l'')))"

lemma pause_step:
  assumes "apply_pending_steering sm (Some h) i l c = (outcome, i', l', c')"
    and "paused l = Some p" "Resume \<notin> snd ` set (queue i)"
  shows "outcome \<noteq> Continue \<and> paused l' = Some p"
proof -
  have "Resume \<notin> set (effective (policy i) (fst (steering_drain h i)))"
    using assms(3) effective_subset [of "policy i" "fst (steering_drain h i)"]
    by (auto simp: steering_drain_def drain_queue_filter)
  then have "fold (pause_effect cp) (effective (policy i) (fst (steering_drain h i))) (Some p) = Some p"
    for cp by (rule pause_kept)
  moreover obtain batch i2 where d: "steering_drain h i = (batch, i2)" by fastforce
  moreover obtain b l2 c2 where a: "apply_commands sm (policy i) (checkpoints l) batch
      (l\<lparr>checkpoints := Suc (checkpoints l)\<rparr>, c) = (b, l2, c2)"
    by (cases "apply_commands sm (policy i) (checkpoints l) batch
      (l\<lparr>checkpoints := Suc (checkpoints l)\<rparr>, c)") auto
  ultimately show ?thesis
    using assms(1,2) apply_commands_effect [OF a]
    by (auto simp: apply_pending_steering_def advance_checkpoint_def Let_def)
qed

text \<open>
  C38. A latched pause holds the run until a resume: over any sequence of checkpoints whose queues carry
  no resume, however many commands they bring, no checkpoint lets the run continue, and the recorded
  pause stays the first one.
\<close>

theorem pause_latched_until_resume:
  assumes "paused l = Some p" "\<forall>i \<in> set is. Resume \<notin> snd ` set (queue i)"
  shows "Continue \<notin> set (fst (steer_run sm h is l c)) \<and> paused (snd (steer_run sm h is l c)) = Some p"
  using assms
proof (induction "is" arbitrary: l c)
  case (Cons i "is")
  obtain outcome i' l' c' where s: "apply_pending_steering sm (Some h) i l c = (outcome, i', l', c')"
    by (cases "apply_pending_steering sm (Some h) i l c") auto
  from pause_step [OF s] Cons show ?case
    by (auto simp: s split_beta)
qed simp

theorem pause_latched_until_resume_witness:
  "let i = send (InjectMessage (7 :: nat)) (send Pause (inner_new allow_all));
       l = default_local\<lparr>paused := Some \<lparr>ps_reason = Some ''hold'', paused_at_checkpoint = 0\<rparr>\<rparr>;
       c = \<lparr>sc_messages = [], sc_metadata = JNull, sc_events = []\<rparr>
   in Continue \<notin> set (fst (steer_run (\<lambda>_. 0) (fst handle_new) [i, inner_new allow_all] l c))"
  using pause_latched_until_resume
    [of "default_local\<lparr>paused := Some \<lparr>ps_reason = Some ''hold'', paused_at_checkpoint = 0\<rparr>\<rparr>" _
        "[send (InjectMessage (7 :: nat)) (send Pause (inner_new allow_all)), inner_new allow_all]"
        "\<lambda>_. 0" "fst handle_new" "\<lparr>sc_messages = [], sc_metadata = JNull, sc_events = []\<rparr>"]
  by (simp add: send_def send_to_def inner_new_def Let_def)

text \<open>
  Request identifiers are deduplicated within a sliding window: from any memory the code can reach,
  an accepted identifier claimed again before \<open>capacity\<close> further identifiers were accepted is answered
  as a duplicate, and the memory never holds more than \<open>capacity\<close> identifiers.
\<close>

theorem claim_dedup_window:
  assumes "claim_all claim before (ids_with_capacity n) = (acc0, r0)"
    and "fst (claim rid r0) = Inr True"
    and "claim_all claim ids (snd (claim rid r0)) = (acc, r')" "length acc < max n 1"
  shows "claim rid r' = (Inr False, r') \<and> length (order r') \<le> max n 1"
proof -
  have r0: "ids_inv r0" "capacity r0 = max n 1"
    using ids.claim_all_window [OF ids_with_capacity_inv assms(1)]
    by (simp_all add: ids_with_capacity_def)
  have "ids_inv r'" "capacity r' = max n 1"
    using ids.claim_all_window [OF ids.inv_claim [OF r0(1)] assms(3)] r0(2) ids.window_claim [of rid r0]
    by simp_all
  with ids.replay_rejected [OF r0(1) assms(2,3)] assms(4) r0(2) ids.window_bound [of r'] show ?thesis
    by simp
qed

theorem claim_dedup_window_witness:
  "fst (claim ''a'' (snd (claim_all claim [''b''] (snd (claim ''a'' (ids_with_capacity 2)))))) = Inr False"
  using claim_dedup_window [of "[]" 2 "[]" "ids_with_capacity 2" "''a''" "[''b'']" "[''b'']"
      "snd (claim_all claim [''b''] (snd (claim ''a'' (ids_with_capacity 2))))"]
  by (simp add: claim_def ids_with_capacity_def MAX_REQUEST_ID_BYTES_def)

end
