(* ===== verification/Tasks.thy ===== *)
theory Tasks
  imports Errors "HOL-Library.AList" "HOL-Library.Char_ord" "HOL-Library.List_Lexorder"
begin

text \<open>
  Managed orchestration tasks: \<open>tinyagents-tasks/src/types.rs\<close> (records, filter) and
  \<open>tinyagents-tasks/src/store.rs\<close> (the lifecycle state machine and the in-memory store).

  A \<open>SystemTime\<close> is a natural number, passed as \<open>now\<close> where the code reads the clock.  A transition
  returns the new record or the error; on an error the record is untouched, as in the code.  The hash
  map of the in-memory store is an association list with distinct keys; the listing sorts by task id,
  so its order does not depend on the iteration order of the map.  The branch for a poisoned lock is
  left out, because no modelled operation panics while it holds the lock.
\<close>

section \<open>Records\<close>

datatype OrchestrationTaskKind =
    GraphTask string
  | SubAgent string
  | ToolTask string
  | ExternalProcess string

fun task_kind_as_str :: "OrchestrationTaskKind \<Rightarrow> string" where
  "task_kind_as_str (GraphTask _) = ''graph''"
| "task_kind_as_str (SubAgent _) = ''sub_agent''"
| "task_kind_as_str (ToolTask _) = ''tool''"
| "task_kind_as_str (ExternalProcess _) = ''external_process''"

datatype OrchestrationTaskStatus =
    Pending | Running | Awaiting | Completed | Failed | CancelRequested | CancelledStatus
  | TimedOut | Abandoned

fun status_is_terminal :: "OrchestrationTaskStatus \<Rightarrow> bool" where
  "status_is_terminal Completed = True"
| "status_is_terminal Failed = True"
| "status_is_terminal CancelledStatus = True"
| "status_is_terminal TimedOut = True"
| "status_is_terminal Abandoned = True"
| "status_is_terminal _ = False"

definition is_live :: "OrchestrationTaskStatus \<Rightarrow> bool" where
  "is_live s \<longleftrightarrow> \<not> status_is_terminal s"

text \<open>The \<open>Debug\<close> rendering of a status, used in error messages.\<close>

fun status_debug :: "OrchestrationTaskStatus \<Rightarrow> string" where
  "status_debug Pending = ''Pending''"
| "status_debug Running = ''Running''"
| "status_debug Awaiting = ''Awaiting''"
| "status_debug Completed = ''Completed''"
| "status_debug Failed = ''Failed''"
| "status_debug CancelRequested = ''CancelRequested''"
| "status_debug CancelledStatus = ''Cancelled''"
| "status_debug TimedOut = ''TimedOut''"
| "status_debug Abandoned = ''Abandoned''"

record OrchestrationTaskSpec =
  task_id :: string
  task_kind :: OrchestrationTaskKind
  parent_run_id :: "string option"
  root_run_id :: "string option"
  thread_id :: "string option"
  node_id :: "string option"
  timeout_ms :: "u64 option"
  task_input :: "json option"
  metadata :: "(string \<times> string) list"

definition spec_new :: "string \<Rightarrow> OrchestrationTaskKind \<Rightarrow> OrchestrationTaskSpec" where
  "spec_new tid kind = \<lparr>
     task_id = tid, task_kind = kind, parent_run_id = None, root_run_id = None, thread_id = None,
     node_id = None, timeout_ms = None, task_input = None, metadata = [] \<rparr>"

record OrchestrationTaskResult =
  result_text :: "string option"
  result_output :: "json option"

record OrchestrationTaskRecord =
  spec :: OrchestrationTaskSpec
  status :: OrchestrationTaskStatus
  task_result :: "OrchestrationTaskResult option"
  task_error :: "string option"
  created_at :: nat
  updated_at :: nat
  task_started_at :: "nat option"
  ended_at :: "nat option"

definition record_pending :: "nat \<Rightarrow> OrchestrationTaskSpec \<Rightarrow> OrchestrationTaskRecord" where
  "record_pending now sp = \<lparr>
     spec = sp, status = Pending, task_result = None, task_error = None, created_at = now,
     updated_at = now, task_started_at = None, ended_at = None \<rparr>"

record OrchestrationTaskFilter =
  f_parent_run_id :: "string option"
  f_root_run_id :: "string option"
  f_thread_id :: "string option"
  f_node_id :: "string option"
  f_status :: "OrchestrationTaskStatus option"
  f_kind :: "string option"
  f_created_after :: "nat option"
  f_created_before :: "nat option"

definition filter_default :: OrchestrationTaskFilter where
  "filter_default = \<lparr>
     f_parent_run_id = None, f_root_run_id = None, f_thread_id = None, f_node_id = None,
     f_status = None, f_kind = None, f_created_after = None, f_created_before = None \<rparr>"

definition filter_matches :: "OrchestrationTaskFilter \<Rightarrow> OrchestrationTaskRecord \<Rightarrow> bool" where
  "filter_matches f r =
     (if f_parent_run_id f \<noteq> None \<and> parent_run_id (spec r) \<noteq> f_parent_run_id f then False
      else if f_root_run_id f \<noteq> None \<and> root_run_id (spec r) \<noteq> f_root_run_id f then False
      else if f_thread_id f \<noteq> None \<and> thread_id (spec r) \<noteq> f_thread_id f then False
      else if f_node_id f \<noteq> None \<and> node_id (spec r) \<noteq> f_node_id f then False
      else if (case f_status f of Some s \<Rightarrow> status r \<noteq> s | None \<Rightarrow> False) then False
      else if (case f_kind f of Some k \<Rightarrow> task_kind_as_str (task_kind (spec r)) \<noteq> k | None \<Rightarrow> False)
      then False
      else if (case f_created_after f of Some t \<Rightarrow> created_at r < t | None \<Rightarrow> False) then False
      else if (case f_created_before f of Some t \<Rightarrow> created_at r > t | None \<Rightarrow> False) then False
      else True)"

record OrchestrationControlOutcome =
  co_task_id :: string
  co_status :: OrchestrationTaskStatus
  co_message :: string

section \<open>The lifecycle state machine\<close>

type_synonym task_result_of = "(TinyAgentsError, OrchestrationTaskRecord) result"

definition invalid_transition ::
  "OrchestrationTaskRecord \<Rightarrow> OrchestrationTaskStatus \<Rightarrow> TinyAgentsError" where
  "invalid_transition r next_status =
     Graph (''cannot transition orchestration task '' @ quoted (task_id (spec r)) @ '' from ''
            @ status_debug (status r) @ '' to '' @ status_debug next_status)"

definition require_live ::
  "OrchestrationTaskRecord \<Rightarrow> OrchestrationTaskStatus \<Rightarrow> (TinyAgentsError, unit) result" where
  "require_live r next_status =
     (if is_live (status r) then Inr () else Inl (invalid_transition r next_status))"

definition require_status ::
  "OrchestrationTaskRecord \<Rightarrow> OrchestrationTaskStatus list \<Rightarrow> OrchestrationTaskStatus
    \<Rightarrow> (TinyAgentsError, unit) result" where
  "require_status r allowed_statuses next_status =
     (if status r \<in> set allowed_statuses then Inr () else Inl (invalid_transition r next_status))"

definition mark_running :: "nat \<Rightarrow> OrchestrationTaskRecord \<Rightarrow> task_result_of" where
  "mark_running now r =
     result_bind (require_status r [Pending] Running) (\<lambda>_.
       Inr (r\<lparr>status := Running, task_started_at := Some now, updated_at := now\<rparr>))"

definition mark_awaiting :: "nat \<Rightarrow> OrchestrationTaskRecord \<Rightarrow> task_result_of" where
  "mark_awaiting now r =
     result_bind (require_status r [Pending, Running] Awaiting) (\<lambda>_.
       Inr (r\<lparr>status := Awaiting, updated_at := now\<rparr>))"

definition mark_awaiting_with_question ::
  "nat \<Rightarrow> string \<Rightarrow> OrchestrationTaskRecord \<Rightarrow> task_result_of" where
  "mark_awaiting_with_question now question r =
     result_bind (require_status r [Pending, Running] Awaiting) (\<lambda>_.
       Inr (r\<lparr>status := Awaiting, task_error := Some question, updated_at := now\<rparr>))"

definition mark_cancelled :: "nat \<Rightarrow> OrchestrationTaskRecord \<Rightarrow> task_result_of" where
  "mark_cancelled now r =
     result_bind (require_status r [CancelRequested] CancelledStatus) (\<lambda>_.
       Inr (r\<lparr>status := CancelledStatus, updated_at := now, ended_at := Some now\<rparr>))"

definition complete ::
  "nat \<Rightarrow> OrchestrationTaskResult \<Rightarrow> OrchestrationTaskRecord \<Rightarrow> task_result_of" where
  "complete now res r =
     (if status r = CancelRequested then mark_cancelled now r
      else result_bind (require_live r Completed) (\<lambda>_.
        Inr (r\<lparr>status := Completed, task_result := Some res, task_error := None,
               updated_at := now, ended_at := Some now\<rparr>)))"

definition fail :: "nat \<Rightarrow> string \<Rightarrow> OrchestrationTaskRecord \<Rightarrow> task_result_of" where
  "fail now err r =
     (if status r = CancelRequested then mark_cancelled now r
      else result_bind (require_live r Failed) (\<lambda>_.
        Inr (r\<lparr>status := Failed, task_result := None, task_error := Some err,
               updated_at := now, ended_at := Some now\<rparr>)))"

definition timeout :: "nat \<Rightarrow> string \<Rightarrow> OrchestrationTaskRecord \<Rightarrow> task_result_of" where
  "timeout now err r =
     (if status r = CancelRequested then mark_cancelled now r
      else result_bind (require_live r TimedOut) (\<lambda>_.
        Inr (r\<lparr>status := TimedOut, task_result := None, task_error := Some err,
               updated_at := now, ended_at := Some now\<rparr>)))"

definition request_cancel ::
  "nat \<Rightarrow> OrchestrationTaskRecord \<Rightarrow> (TinyAgentsError, string \<times> OrchestrationTaskRecord) result" where
  "request_cancel now r =
     (if status r = CancelRequested then Inr (''cancellation was already requested'', r)
      else result_bind (require_live r CancelRequested) (\<lambda>_.
        Inr (''cancellation requested'', r\<lparr>status := CancelRequested, updated_at := now\<rparr>)))"

definition kill ::
  "nat \<Rightarrow> OrchestrationTaskRecord \<Rightarrow> (TinyAgentsError, string \<times> OrchestrationTaskRecord) result" where
  "kill now r =
     result_bind (require_live r Abandoned) (\<lambda>_.
       Inr (''task abandoned after kill request'',
            r\<lparr>status := Abandoned, task_error := Some ''task abandoned after kill request'',
              updated_at := now, ended_at := Some now\<rparr>))"

definition set_timeout_ms :: "nat \<Rightarrow> u64 \<Rightarrow> OrchestrationTaskRecord \<Rightarrow> task_result_of" where
  "set_timeout_ms now ms r =
     (if status_is_terminal (status r) then Inl (invalid_transition r Running)
      else Inr (r\<lparr>spec := (spec r)\<lparr>timeout_ms := Some ms\<rparr>, updated_at := now\<rparr>))"

definition control_outcome ::
  "OrchestrationTaskRecord \<Rightarrow> string \<Rightarrow> OrchestrationControlOutcome" where
  "control_outcome r message = \<lparr>
     co_task_id = task_id (spec r), co_status = status r, co_message = message \<rparr>"

section \<open>The in-memory store\<close>

type_synonym task_store = "(string \<times> OrchestrationTaskRecord) list"

definition orchestration_not_found :: "string \<Rightarrow> TinyAgentsError" where
  "orchestration_not_found tid =
     Graph (''orchestration task '' @ quoted tid @ '' does not exist'')"

definition store_from_records :: "OrchestrationTaskRecord list \<Rightarrow> task_store" where
  "store_from_records rs = fold (\<lambda>r s. AList.update (task_id (spec r)) r s) rs []"

definition with_task ::
  "string \<Rightarrow> (OrchestrationTaskRecord \<Rightarrow> (TinyAgentsError, 'x \<times> OrchestrationTaskRecord) result)
    \<Rightarrow> task_store \<Rightarrow> (TinyAgentsError, 'x) result \<times> task_store" where
  "with_task tid f s =
     (case map_of s tid of
        None \<Rightarrow> (Inl (orchestration_not_found tid), s)
      | Some r \<Rightarrow>
          (case f r of
             Inl e \<Rightarrow> (Inl e, s)
           | Inr (x, r') \<Rightarrow> (Inr x, AList.update tid r' s)))"

text \<open>A transition whose answer is a copy of the updated record.\<close>

definition cloned :: "task_result_of
    \<Rightarrow> (TinyAgentsError, OrchestrationTaskRecord \<times> OrchestrationTaskRecord) result" where
  "cloned x = result_bind x (\<lambda>r. Inr (r, r))"

definition store_insert ::
  "nat \<Rightarrow> OrchestrationTaskSpec \<Rightarrow> task_store \<Rightarrow> task_result_of \<times> task_store" where
  "store_insert now sp s =
     (if map_of s (task_id sp) \<noteq> None
      then (Inl (DuplicateComponent (''orchestration task '' @ quoted (task_id sp))), s)
      else (let r = record_pending now sp in (Inr r, AList.update (task_id sp) r s)))"

definition store_get :: "string \<Rightarrow> task_store \<Rightarrow> OrchestrationTaskRecord option" where
  "store_get tid s = map_of s tid"

definition store_list :: "OrchestrationTaskFilter \<Rightarrow> task_store \<Rightarrow> OrchestrationTaskRecord list" where
  "store_list f s = sort_key (\<lambda>r. task_id (spec r)) (filter (filter_matches f) (map snd s))"

definition store_mark_running :: "nat \<Rightarrow> string \<Rightarrow> task_store \<Rightarrow> task_result_of \<times> task_store" where
  "store_mark_running now tid s = with_task tid (\<lambda>r. cloned (mark_running now r)) s"

definition store_mark_awaiting :: "nat \<Rightarrow> string \<Rightarrow> task_store \<Rightarrow> task_result_of \<times> task_store" where
  "store_mark_awaiting now tid s = with_task tid (\<lambda>r. cloned (mark_awaiting now r)) s"

definition store_mark_awaiting_with_question ::
  "nat \<Rightarrow> string \<Rightarrow> string \<Rightarrow> task_store \<Rightarrow> task_result_of \<times> task_store" where
  "store_mark_awaiting_with_question now tid q s =
     with_task tid (\<lambda>r. cloned (mark_awaiting_with_question now q r)) s"

definition store_complete ::
  "nat \<Rightarrow> string \<Rightarrow> OrchestrationTaskResult \<Rightarrow> task_store \<Rightarrow> task_result_of \<times> task_store" where
  "store_complete now tid res s = with_task tid (\<lambda>r. cloned (complete now res r)) s"

definition store_fail :: "nat \<Rightarrow> string \<Rightarrow> string \<Rightarrow> task_store \<Rightarrow> task_result_of \<times> task_store" where
  "store_fail now tid err s = with_task tid (\<lambda>r. cloned (fail now err r)) s"

definition store_timeout :: "nat \<Rightarrow> string \<Rightarrow> string \<Rightarrow> task_store \<Rightarrow> task_result_of \<times> task_store" where
  "store_timeout now tid err s = with_task tid (\<lambda>r. cloned (timeout now err r)) s"

definition store_request_cancel ::
  "nat \<Rightarrow> string \<Rightarrow> task_store \<Rightarrow> (TinyAgentsError, OrchestrationControlOutcome) result \<times> task_store"
where
  "store_request_cancel now tid s =
     with_task tid (\<lambda>r. result_bind (request_cancel now r) (\<lambda>(m, r'). Inr (control_outcome r' m, r'))) s"

definition store_mark_cancelled :: "nat \<Rightarrow> string \<Rightarrow> task_store \<Rightarrow> task_result_of \<times> task_store" where
  "store_mark_cancelled now tid s = with_task tid (\<lambda>r. cloned (mark_cancelled now r)) s"

definition store_kill ::
  "nat \<Rightarrow> string \<Rightarrow> task_store \<Rightarrow> (TinyAgentsError, OrchestrationControlOutcome) result \<times> task_store"
where
  "store_kill now tid s =
     with_task tid (\<lambda>r. result_bind (kill now r) (\<lambda>(m, r'). Inr (control_outcome r' m, r'))) s"

definition store_set_timeout_ms ::
  "nat \<Rightarrow> string \<Rightarrow> u64 \<Rightarrow> task_store \<Rightarrow> task_result_of \<times> task_store" where
  "store_set_timeout_ms now tid ms s = with_task tid (\<lambda>r. cloned (set_timeout_ms now ms r)) s"

section \<open>Lifecycles as sequences of operations\<close>

datatype task_op =
    OpRunning
  | OpAwaiting
  | OpAwaitingQuestion string
  | OpComplete OrchestrationTaskResult
  | OpFail string
  | OpTimeout string
  | OpRequestCancel
  | OpMarkCancelled
  | OpKill
  | OpSetTimeout u64

fun apply_op :: "nat \<Rightarrow> task_op \<Rightarrow> OrchestrationTaskRecord \<Rightarrow> task_result_of" where
  "apply_op now OpRunning r = mark_running now r"
| "apply_op now OpAwaiting r = mark_awaiting now r"
| "apply_op now (OpAwaitingQuestion q) r = mark_awaiting_with_question now q r"
| "apply_op now (OpComplete res) r = complete now res r"
| "apply_op now (OpFail e) r = fail now e r"
| "apply_op now (OpTimeout e) r = timeout now e r"
| "apply_op now OpRequestCancel r = result_bind (request_cancel now r) (\<lambda>(_, r'). Inr r')"
| "apply_op now OpMarkCancelled r = mark_cancelled now r"
| "apply_op now OpKill r = result_bind (kill now r) (\<lambda>(_, r'). Inr r')"
| "apply_op now (OpSetTimeout ms) r = set_timeout_ms now ms r"

lemmas transition_defs =
  mark_running_def mark_awaiting_def mark_awaiting_with_question_def complete_def fail_def
  timeout_def request_cancel_def mark_cancelled_def kill_def set_timeout_ms_def
  require_status_def require_live_def is_live_def

text \<open>A refused operation leaves the record as it was.\<close>

definition step_op :: "nat \<times> task_op \<Rightarrow> OrchestrationTaskRecord \<Rightarrow> OrchestrationTaskRecord" where
  "step_op = (\<lambda>(now, op) r. case apply_op now op r of Inl _ \<Rightarrow> r | Inr r' \<Rightarrow> r')"

definition run_ops :: "(nat \<times> task_op) list \<Rightarrow> OrchestrationTaskRecord \<Rightarrow> OrchestrationTaskRecord" where
  "run_ops ops r = fold step_op ops r"

text \<open>
  The well-formedness of a record: the terminal time is set exactly in a terminal status, the result
  exactly after completion, the start time never before running, and the error text only where the
  lifecycle puts one.
\<close>

definition record_inv :: "OrchestrationTaskRecord \<Rightarrow> bool" where
  "record_inv r \<longleftrightarrow>
     (ended_at r \<noteq> None \<longleftrightarrow> status_is_terminal (status r)) \<and>
     (task_result r \<noteq> None \<longleftrightarrow> status r = Completed) \<and>
     (status r = Pending \<longrightarrow> task_started_at r = None) \<and>
     (status r = Running \<longrightarrow> task_started_at r \<noteq> None) \<and>
     (status r \<in> {Failed, TimedOut, Abandoned} \<longrightarrow> task_error r \<noteq> None) \<and>
     (status r \<in> {Pending, Running, Completed} \<longrightarrow> task_error r = None)"

lemma record_pending_inv: "record_inv (record_pending now sp)"
  by (simp add: record_inv_def record_pending_def)

lemma apply_op_inv [inv_intros]:
  assumes "apply_op now op r = Inr r'" "record_inv r"
  shows "record_inv r'"
  using assms
  by (cases op; cases "status r")
     (auto simp: record_inv_def transition_defs split: if_splits)

lemma apply_op_id: "apply_op now op r = Inr r' \<Longrightarrow> task_id (spec r') = task_id (spec r)"
  by (cases op; cases "status r") (auto simp: transition_defs split: if_splits)

lemma step_op_inv: "record_inv r \<Longrightarrow> record_inv (step_op p r)"
  by (auto simp: step_op_def split: prod.splits sum.splits intro: apply_op_inv)

lemma run_ops_inv: "record_inv r \<Longrightarrow> record_inv (run_ops ops r)"
  unfolding run_ops_def by (induction ops arbitrary: r) (auto intro: step_op_inv)

lemma terminal_refused:
  "status_is_terminal (status r) \<Longrightarrow> \<exists>e. apply_op now op r = Inl e"
  by (cases op; cases "status r") (auto simp: transition_defs)

lemma terminal_fixed: "status_is_terminal (status r) \<Longrightarrow> run_ops ops r = r"
  unfolding run_ops_def
proof (induction ops)
  case (Cons p ops)
  then show ?case
    using terminal_refused [of r "fst p" "snd p"] by (auto simp: step_op_def split_beta)
qed simp

fun status_rank :: "OrchestrationTaskStatus \<Rightarrow> nat" where
  "status_rank Pending = 0"
| "status_rank Running = 1"
| "status_rank Awaiting = 2"
| "status_rank CancelRequested = 3"
| "status_rank _ = 4"

lemma apply_op_rank:
  "apply_op now op r = Inr r' \<Longrightarrow>
     status r' = status r \<or> status_rank (status r) < status_rank (status r')"
  by (cases op; cases "status r") (auto simp: transition_defs)

lemma cancel_sticky_step:
  "status r \<in> {CancelRequested, CancelledStatus} \<Longrightarrow> op \<noteq> OpKill \<Longrightarrow>
     status (step_op (now, op) r) \<in> {CancelRequested, CancelledStatus}"
  by (cases op; cases "status r") (auto simp: step_op_def transition_defs)

section \<open>The store refines a map of records\<close>

lemma map_of_with_task:
  "map_of (snd (with_task tid f s)) =
     (case map_of s tid of
        None \<Rightarrow> map_of s
      | Some r \<Rightarrow> (case f r of Inl _ \<Rightarrow> map_of s | Inr (x, r') \<Rightarrow> (map_of s)(tid \<mapsto> r')))"
  by (auto simp: with_task_def update_conv' split: option.splits sum.splits prod.splits)

definition store_inv :: "task_store \<Rightarrow> bool" where
  "store_inv s \<longleftrightarrow> distinct (map fst s) \<and>
     (\<forall>(tid, r) \<in> set s. task_id (spec r) = tid \<and> record_inv r)"

lemma store_inv_map_of:
  "store_inv s \<Longrightarrow> map_of s tid = Some r \<Longrightarrow> task_id (spec r) = tid \<and> record_inv r"
  by (auto simp: store_inv_def dest!: map_of_SomeD)

lemma store_inv_update:
  assumes "store_inv s" "task_id (spec r) = tid" "record_inv r"
  shows "store_inv (AList.update tid r s)"
proof -
  have d: "distinct (map fst (AList.update tid r s))"
    using assms(1) by (simp add: store_inv_def distinct_update)
  have "task_id (spec r') = t \<and> record_inv r'" if "(t, r') \<in> set (AList.update tid r s)" for t r'
  proof -
    have "map_of (AList.update tid r s) t = Some r'" using that d by simp
    then show ?thesis
      using assms store_inv_map_of [OF assms(1), of t r'] by (auto simp: update_conv' split: if_splits)
  qed
  with d show ?thesis by (auto simp: store_inv_def)
qed

text \<open>Every operation of the store is one lifecycle operation under the lock.\<close>

definition store_apply :: "nat \<Rightarrow> string \<Rightarrow> task_op \<Rightarrow> task_store \<Rightarrow> task_store" where
  "store_apply now tid op s = snd (with_task tid (\<lambda>r. cloned (apply_op now op r)) s)"

lemma with_task_control:
  "snd (with_task tid (\<lambda>r. result_bind (g r) (\<lambda>(m, r'). Inr (control_outcome r' m, r'))) s) =
   snd (with_task tid (\<lambda>r. cloned (result_bind (g r) (\<lambda>(_, r'). Inr r'))) s)"
proof (cases "map_of s tid")
  case (Some r)
  then show ?thesis by (cases "g r") (auto simp: with_task_def cloned_def)
qed (simp add: with_task_def)

lemma store_ops_apply:
  "snd (store_mark_running now tid s) = store_apply now tid OpRunning s"
  "snd (store_mark_awaiting now tid s) = store_apply now tid OpAwaiting s"
  "snd (store_mark_awaiting_with_question now tid q s) = store_apply now tid (OpAwaitingQuestion q) s"
  "snd (store_complete now tid res s) = store_apply now tid (OpComplete res) s"
  "snd (store_fail now tid err s) = store_apply now tid (OpFail err) s"
  "snd (store_timeout now tid err s) = store_apply now tid (OpTimeout err) s"
  "snd (store_request_cancel now tid s) = store_apply now tid OpRequestCancel s"
  "snd (store_mark_cancelled now tid s) = store_apply now tid OpMarkCancelled s"
  "snd (store_kill now tid s) = store_apply now tid OpKill s"
  "snd (store_set_timeout_ms now tid ms s) = store_apply now tid (OpSetTimeout ms) s"
  unfolding store_mark_running_def store_mark_awaiting_def store_mark_awaiting_with_question_def
    store_complete_def store_fail_def store_timeout_def store_request_cancel_def
    store_mark_cancelled_def store_kill_def store_set_timeout_ms_def store_apply_def with_task_control
    apply_op.simps
  by (rule refl)+

lemma store_apply_map:
  "map_of (store_apply now tid op s) =
     (case map_of s tid of None \<Rightarrow> map_of s | Some r \<Rightarrow> (map_of s)(tid \<mapsto> step_op (now, op) r))"
  by (auto simp: store_apply_def map_of_with_task cloned_def step_op_def fun_upd_idem
           split: option.splits sum.splits)

lemma store_apply_inv [inv_intros]:
  assumes "store_inv s"
  shows "store_inv (store_apply now tid op s)"
proof (cases "map_of s tid")
  case None
  with assms show ?thesis by (simp add: store_apply_def with_task_def)
next
  case (Some r)
  show ?thesis
  proof (cases "apply_op now op r")
    case (Inl e)
    with Some assms show ?thesis by (simp add: store_apply_def with_task_def cloned_def)
  next
    case (Inr r')
    with store_inv_map_of [OF assms Some]
    have "task_id (spec r') = tid" "record_inv r'"
      by (auto dest: apply_op_id apply_op_inv)
    from store_inv_update [OF assms this] Some Inr show ?thesis
      by (simp add: store_apply_def with_task_def cloned_def)
  qed
qed

lemma store_insert_inv [inv_intros]: "store_inv s \<Longrightarrow> store_inv (snd (store_insert now sp s))"
  by (auto simp: store_insert_def Let_def record_pending_inv intro!: store_inv_update)
     (simp add: record_pending_def)

section \<open>Properties\<close>

text \<open>
  C2. A terminal task is final: once a record is completed, failed, cancelled, timed out or abandoned,
  every later operation is refused with an error and no sequence of operations changes any field.
\<close>

theorem terminal_is_final:
  assumes "status_is_terminal (status r)"
  shows "run_ops ops r = r \<and> (\<forall>now op. \<not> is_ok (apply_op now op r))"
  using terminal_fixed [OF assms] terminal_refused [OF assms] by (metis is_ok.simps(1))

theorem terminal_is_final_witness:
  "let r = run_ops [(1, OpRunning), (2, OpFail ''boom'')] (record_pending 0 (spec_new ''t'' (SubAgent ''a'')))
   in status r = Failed \<and> run_ops [(3, OpComplete \<lparr>result_text = None, result_output = None\<rparr>), (4, OpKill)] r = r"
proof -
  let ?r = "run_ops [(1, OpRunning), (2, OpFail ''boom'')] (record_pending 0 (spec_new ''t'' (SubAgent ''a'')))"
  have "status ?r = Failed"
    by (simp add: run_ops_def step_op_def transition_defs record_pending_def)
  with terminal_is_final [of ?r "[(3, OpComplete \<lparr>result_text = None, result_output = None\<rparr>), (4, OpKill)]"]
  show ?thesis by simp
qed

text \<open>
  C36. Every record a lifecycle can reach is well formed, whatever operations are tried in whatever
  order: the terminal time is recorded exactly for terminal statuses, a result exactly for completed
  tasks, a start time for running ones, and an error text for failed, timed-out and abandoned ones but
  never for pending, running or completed ones.
\<close>

theorem reachable_record_wellformed:
  "record_inv (run_ops ops (record_pending now sp))"
  by (rule run_ops_inv [OF record_pending_inv])

text \<open>
  A cancellation request is honoured: after it, whatever the task reports (success, failure,
  timeout) and short of a kill, the task stays cancel-requested or is settled as cancelled.
\<close>

theorem cancel_request_sticky:
  assumes "status r = CancelRequested" "\<forall>(now, op) \<in> set ops. op \<noteq> OpKill"
  shows "status (run_ops ops r) \<in> {CancelRequested, CancelledStatus}"
proof -
  have "status r \<in> {CancelRequested, CancelledStatus}" using assms(1) by simp
  with assms(2) show ?thesis
    unfolding run_ops_def
  proof (induction ops arbitrary: r)
    case (Cons p ops)
    then show ?case
      using cancel_sticky_step [of r "snd p" "fst p"] by (auto simp: split_beta)
  qed simp
qed

theorem cancel_request_sticky_witness:
  "let r = run_ops [(1, OpRequestCancel)] (record_pending 0 (spec_new ''t'' (SubAgent ''a'')))
   in status (run_ops [(2, OpComplete \<lparr>result_text = Some ''done'', result_output = None\<rparr>)] r)
        \<in> {CancelRequested, CancelledStatus}"
  using cancel_request_sticky [of "run_ops [(1, OpRequestCancel)] (record_pending 0 (spec_new ''t'' (SubAgent ''a'')))"
      "[(2, OpComplete \<lparr>result_text = Some ''done'', result_output = None\<rparr>)]"]
  by (simp add: run_ops_def step_op_def transition_defs record_pending_def)

text \<open>
  A lifecycle only moves forward: a successful operation keeps the status or moves it up the order
  pending, running, awaiting, cancel-requested, terminal, so a task changes status at most four times.
\<close>

theorem lifecycle_moves_forward:
  assumes "apply_op now op r = Inr r'"
  shows "(status r' = status r \<or> status_rank (status r) < status_rank (status r')) \<and>
         status_rank (status r') \<le> 4 \<and> task_id (spec r') = task_id (spec r)"
  using apply_op_rank [OF assms] apply_op_id [OF assms] by (cases "status r'") auto

theorem lifecycle_moves_forward_witness:
  "\<exists>r'. apply_op 1 OpRunning (record_pending 0 (spec_new ''t'' (SubAgent ''a''))) = Inr r' \<and>
        status_rank (status r') \<le> 4"
proof -
  obtain r' where r': "apply_op 1 OpRunning (record_pending 0 (spec_new ''t'' (SubAgent ''a''))) = Inr r'"
    by (simp add: transition_defs record_pending_def)
  with lifecycle_moves_forward [OF r'] show ?thesis by blast
qed

text \<open>
  The error field also carries a question after cancellation: a task that waits on a question and
  is then cancelled ends as cancelled with the question still in its error field.  (The record
  documents the field as present for failed and timed-out tasks.)
\<close>

theorem cancelled_keeps_question:
  "let r = run_ops [(1, OpAwaitingQuestion q), (2, OpRequestCancel), (3, OpMarkCancelled)]
             (record_pending 0 sp)
   in status r = CancelledStatus \<and> task_error r = Some q"
  by (simp add: run_ops_def step_op_def transition_defs record_pending_def)



end
