(* ===== verification/Reconcile.thy ===== *)
theory Reconcile
  imports Tasks
begin

text \<open>
  Settling orphaned tasks: \<open>tinyagents-tasks/src/reconcile.rs\<close>.

  The sweep works on any implementation of the \<open>TaskStore\<close> trait; the three methods it calls are
  arguments.  The locale \<open>reconcilable_store\<close> states what it relies on, the sweep is verified once
  against it, and the in-memory store of \<open>Tasks\<close> is shown to provide it.
\<close>

datatype ReconcileOutcome = RCancelled | RFailed | RError string

fun outcome_is_settled :: "ReconcileOutcome \<Rightarrow> bool" where
  "outcome_is_settled RCancelled = True"
| "outcome_is_settled RFailed = True"
| "outcome_is_settled (RError _) = False"

record ReconciledTask =
  rt_task_id :: string
  prior_status :: OrchestrationTaskStatus
  rt_outcome :: ReconcileOutcome
  rt_record :: OrchestrationTaskRecord
  recorded_reason :: "string option"

record ReconcileReport =
  report_tasks :: "ReconciledTask list"

definition settled :: "ReconcileReport \<Rightarrow> ReconciledTask list" where
  "settled rep = filter (\<lambda>t. outcome_is_settled (rt_outcome t)) (report_tasks rep)"

definition reconciled_count :: "ReconcileReport \<Rightarrow> nat" where
  "reconciled_count rep = length (settled rep)"

definition error_count :: "ReconcileReport \<Rightarrow> nat" where
  "error_count rep =
     length (filter (\<lambda>t. case rt_outcome t of RError _ \<Rightarrow> True | _ \<Rightarrow> False) (report_tasks rep))"

fun task_status_label :: "OrchestrationTaskStatus \<Rightarrow> string" where
  "task_status_label Pending = ''pending''"
| "task_status_label Running = ''running''"
| "task_status_label Awaiting = ''awaiting''"
| "task_status_label CancelRequested = ''cancel_requested''"
| "task_status_label Completed = ''completed''"
| "task_status_label Failed = ''failed''"
| "task_status_label CancelledStatus = ''cancelled''"
| "task_status_label TimedOut = ''timed_out''"
| "task_status_label Abandoned = ''abandoned''"

section \<open>The sweep\<close>

type_synonym 's store_method = "string \<Rightarrow> 's \<Rightarrow> task_result_of \<times> 's"

text \<open>One orphan: settle it, and report what happened.\<close>

definition reconcile_one ::
  "(TinyAgentsError \<Rightarrow> string) \<Rightarrow> 's store_method \<Rightarrow> (string \<Rightarrow> 's store_method)
    \<Rightarrow> (OrchestrationTaskRecord \<Rightarrow> string) \<Rightarrow> OrchestrationTaskRecord \<Rightarrow> 's \<Rightarrow> ReconciledTask \<times> 's" where
  "reconcile_one display mark_c fail_m reason r s =
     (let tid = task_id (spec r);
          (outcome, recorded, s') =
            (case status r of
               CancelRequested \<Rightarrow>
                 (case mark_c tid s of
                    (Inr _, s') \<Rightarrow> (RCancelled, None, s')
                  | (Inl e, s') \<Rightarrow> (RError (display e), None, s'))
             | _ \<Rightarrow>
                 (let text = reason r in
                  case fail_m text tid s of
                    (Inr _, s') \<Rightarrow> (RFailed, Some text, s')
                  | (Inl e, s') \<Rightarrow> (RError (display e), None, s')))
      in (\<lparr>rt_task_id = tid, prior_status = status r, rt_outcome = outcome, rt_record = r,
           recorded_reason = recorded\<rparr>, s'))"

fun reconcile_each ::
  "(TinyAgentsError \<Rightarrow> string) \<Rightarrow> 's store_method \<Rightarrow> (string \<Rightarrow> 's store_method)
    \<Rightarrow> (OrchestrationTaskRecord \<Rightarrow> string) \<Rightarrow> OrchestrationTaskRecord list \<Rightarrow> 's
    \<Rightarrow> ReconciledTask list \<times> 's" where
  "reconcile_each display mark_c fail_m reason [] s = ([], s)"
| "reconcile_each display mark_c fail_m reason (r # rs) s =
     (let (t, s1) = reconcile_one display mark_c fail_m reason r s;
          (ts, s2) = reconcile_each display mark_c fail_m reason rs s1
      in (t # ts, s2))"

definition reconcile_orphaned_tasks ::
  "(TinyAgentsError \<Rightarrow> string) \<Rightarrow> (OrchestrationTaskFilter \<Rightarrow> 's \<Rightarrow> OrchestrationTaskRecord list)
    \<Rightarrow> 's store_method \<Rightarrow> (string \<Rightarrow> 's store_method) \<Rightarrow> OrchestrationTaskFilter
    \<Rightarrow> (OrchestrationTaskRecord \<Rightarrow> string) \<Rightarrow> 's \<Rightarrow> ReconcileReport \<times> 's" where
  "reconcile_orphaned_tasks display list_m mark_c fail_m f reason s =
     (let orphans = filter (\<lambda>r. is_live (status r)) (list_m f s);
          (ts, s') = reconcile_each display mark_c fail_m reason orphans s
      in (\<lparr>report_tasks = ts\<rparr>, s'))"

section \<open>What the sweep relies on\<close>

text \<open>What one settled record becomes.\<close>

definition settles_to ::
  "(OrchestrationTaskRecord \<Rightarrow> string) \<Rightarrow> OrchestrationTaskRecord \<Rightarrow> OrchestrationTaskRecord \<Rightarrow> bool" where
  "settles_to reason r r' \<longleftrightarrow>
     (if status r = CancelRequested then status r' = CancelledStatus
      else status r' = Failed \<and> task_error r' = Some (reason r)) \<and>
     task_id (spec r') = task_id (spec r)"

locale reconcilable_store =
  fixes list_m :: "OrchestrationTaskFilter \<Rightarrow> 's \<Rightarrow> OrchestrationTaskRecord list"
    and mark_c :: "'s store_method"
    and fail_m :: "string \<Rightarrow> 's store_method"
    and get_m :: "string \<Rightarrow> 's \<Rightarrow> OrchestrationTaskRecord option"
    and inv :: "'s \<Rightarrow> bool"
  assumes list_exact: "inv s \<Longrightarrow> distinct (map (\<lambda>r. task_id (spec r)) (list_m f s)) \<and>
        set (list_m f s) = {r. get_m (task_id (spec r)) s = Some r \<and> filter_matches f r}"
    and get_id: "inv s \<Longrightarrow> get_m tid s = Some r \<Longrightarrow> task_id (spec r) = tid"
    and cancel_settles: "inv s \<Longrightarrow> get_m tid s = Some r \<Longrightarrow> status r = CancelRequested \<Longrightarrow>
        \<exists>r' s'. mark_c tid s = (Inr r', s') \<and> status r' = CancelledStatus \<and>
          task_id (spec r') = tid \<and> inv s' \<and> (\<forall>t. get_m t s' = (if t = tid then Some r' else get_m t s))"
    and fail_settles: "inv s \<Longrightarrow> get_m tid s = Some r \<Longrightarrow> is_live (status r) \<Longrightarrow>
        status r \<noteq> CancelRequested \<Longrightarrow>
        \<exists>r' s'. fail_m e tid s = (Inr r', s') \<and> status r' = Failed \<and> task_error r' = Some e \<and>
          task_id (spec r') = tid \<and> inv s' \<and> (\<forall>t. get_m t s' = (if t = tid then Some r' else get_m t s))"
begin

lemma one_settles:
  assumes "inv s" "get_m (task_id (spec r)) s = Some r" "is_live (status r)"
  shows "\<exists>r' t s'. reconcile_one display mark_c fail_m reason r s = (t, s') \<and>
     outcome_is_settled (rt_outcome t) \<and> rt_record t = r \<and> settles_to reason r r' \<and> inv s' \<and>
     (\<forall>u. get_m u s' = (if u = task_id (spec r) then Some r' else get_m u s))"
proof (cases "status r = CancelRequested")
  case True
  from cancel_settles [OF assms(1,2) True] obtain r' s' where
    f: "mark_c (task_id (spec r)) s = (Inr r', s')" "status r' = CancelledStatus"
    "task_id (spec r') = task_id (spec r)" "inv s'"
    "\<forall>u. get_m u s' = (if u = task_id (spec r) then Some r' else get_m u s)"
    by blast
  have "reconcile_one display mark_c fail_m reason r s =
      (\<lparr>rt_task_id = task_id (spec r), prior_status = status r, rt_outcome = RCancelled, rt_record = r,
        recorded_reason = None\<rparr>, s')"
    using True f(1) by (simp add: reconcile_one_def Let_def)
  with True f show ?thesis
    by (intro exI [of _ r'] exI [of _ s']) (simp add: settles_to_def)
next
  case False
  with fail_settles [OF assms, of "reason r"] obtain r' s' where
    f: "fail_m (reason r) (task_id (spec r)) s = (Inr r', s')" "status r' = Failed"
    "task_error r' = Some (reason r)" "task_id (spec r') = task_id (spec r)" "inv s'"
    "\<forall>u. get_m u s' = (if u = task_id (spec r) then Some r' else get_m u s)"
    by blast
  have "reconcile_one display mark_c fail_m reason r s =
      (\<lparr>rt_task_id = task_id (spec r), prior_status = status r, rt_outcome = RFailed, rt_record = r,
        recorded_reason = Some (reason r)\<rparr>, s')"
    using False f(1) by (cases "status r") (simp_all add: reconcile_one_def Let_def)
  with False f show ?thesis
    by (intro exI [of _ r'] exI [of _ s']) (simp add: settles_to_def)
qed

lemma each_settles:
  assumes "inv s" "distinct (map (\<lambda>r. task_id (spec r)) rs)"
    "\<forall>r \<in> set rs. get_m (task_id (spec r)) s = Some r \<and> is_live (status r)"
  shows "\<exists>ts s'. reconcile_each display mark_c fail_m reason rs s = (ts, s') \<and> inv s' \<and>
     map rt_record ts = rs \<and> (\<forall>t \<in> set ts. outcome_is_settled (rt_outcome t)) \<and>
     (\<forall>r \<in> set rs. \<exists>r'. get_m (task_id (spec r)) s' = Some r' \<and> settles_to reason r r') \<and>
     (\<forall>u. u \<notin> (\<lambda>r. task_id (spec r)) ` set rs \<longrightarrow> get_m u s' = get_m u s)"
  using assms
proof (induction rs arbitrary: s)
  case (Cons r rs)
  have r: "get_m (task_id (spec r)) s = Some r" "is_live (status r)"
    using Cons.prems(3) by simp_all
  from one_settles [OF Cons.prems(1) r, of display reason] obtain r' t s1 where
    one: "reconcile_one display mark_c fail_m reason r s = (t, s1)"
    "outcome_is_settled (rt_outcome t)" "rt_record t = r" "settles_to reason r r'" "inv s1"
    "\<forall>u. get_m u s1 = (if u = task_id (spec r) then Some r' else get_m u s)"
    by (elim exE conjE) (rule that)
  have fresh: "task_id (spec r) \<notin> (\<lambda>r. task_id (spec r)) ` set rs" using Cons.prems(2) by simp
  then have ids: "task_id (spec x) \<noteq> task_id (spec r)" if "x \<in> set rs" for x
    using that by (metis image_eqI)
  have live: "\<forall>x \<in> set rs. get_m (task_id (spec x)) s1 = Some x \<and> is_live (status x)"
    using Cons.prems(3) one(6) ids by simp
  have dist: "distinct (map (\<lambda>r. task_id (spec r)) rs)" using Cons.prems(2) by simp
  from Cons.IH [OF one(5) dist live] obtain ts s2 where
    rest: "reconcile_each display mark_c fail_m reason rs s1 = (ts, s2)" "inv s2" "map rt_record ts = rs"
    "\<forall>t \<in> set ts. outcome_is_settled (rt_outcome t)"
    "\<forall>r \<in> set rs. \<exists>r'. get_m (task_id (spec r)) s2 = Some r' \<and> settles_to reason r r'"
    "\<forall>u. u \<notin> (\<lambda>r. task_id (spec r)) ` set rs \<longrightarrow> get_m u s2 = get_m u s1"
    by (elim exE conjE) (rule that)
  have "get_m (task_id (spec r)) s2 = Some r'" using rest(6) one(6) fresh by simp
  then have "\<forall>x \<in> set (r # rs). \<exists>r'. get_m (task_id (spec x)) s2 = Some r' \<and> settles_to reason x r'"
    using rest(5) one(4) by simp
  moreover have "\<forall>u. u \<notin> (\<lambda>r. task_id (spec r)) ` set (r # rs) \<longrightarrow> get_m u s2 = get_m u s"
    using rest(6) one(6) by simp
  moreover have "reconcile_each display mark_c fail_m reason (r # rs) s = (t # ts, s2)"
    by (simp add: one(1) rest(1))
  moreover have "map rt_record (t # ts) = r # rs" "\<forall>t \<in> set (t # ts). outcome_is_settled (rt_outcome t)"
    using one(2,3) rest(3,4) by simp_all
  ultimately show ?case using rest(2) by (intro exI conjI)
qed simp

lemma sweep_settles:
  assumes "inv s"
  shows "\<exists>ts s'. reconcile_orphaned_tasks display list_m mark_c fail_m f reason s
       = (\<lparr>report_tasks = ts\<rparr>, s') \<and> inv s' \<and>
     (\<forall>t \<in> set ts. outcome_is_settled (rt_outcome t)) \<and>
     set (map rt_record ts) =
       {r. get_m (task_id (spec r)) s = Some r \<and> filter_matches f r \<and> is_live (status r)} \<and>
     (\<forall>tid r. get_m tid s = Some r \<longrightarrow>
        (if filter_matches f r \<and> is_live (status r)
         then \<exists>r'. get_m tid s' = Some r' \<and> settles_to reason r r'
         else get_m tid s' = Some r))"
proof -
  define rs where "rs = filter (\<lambda>r. is_live (status r)) (list_m f s)"
  note le = list_exact [OF assms, of f]
  have dist: "distinct (map (\<lambda>r. task_id (spec r)) rs)"
    unfolding rs_def using le by (intro distinct_map_filter) simp
  have mem: "r \<in> set rs \<longleftrightarrow>
      get_m (task_id (spec r)) s = Some r \<and> filter_matches f r \<and> is_live (status r)" for r
    unfolding rs_def using le by auto
  then have live: "\<forall>r \<in> set rs. get_m (task_id (spec r)) s = Some r \<and> is_live (status r)" by simp
  from each_settles [OF assms dist live, of display reason] obtain ts s' where
    e: "reconcile_each display mark_c fail_m reason rs s = (ts, s')" "inv s'"
    "map rt_record ts = rs" "\<forall>t \<in> set ts. outcome_is_settled (rt_outcome t)"
    "\<forall>r \<in> set rs. \<exists>r'. get_m (task_id (spec r)) s' = Some r' \<and> settles_to reason r r'"
    "\<forall>u. u \<notin> (\<lambda>r. task_id (spec r)) ` set rs \<longrightarrow> get_m u s' = get_m u s"
    by (elim exE conjE) (rule that)
  have all: "if filter_matches f r \<and> is_live (status r)
        then \<exists>r'. get_m tid s' = Some r' \<and> settles_to reason r r' else get_m tid s' = Some r"
    if g: "get_m tid s = Some r" for tid r
  proof (cases "filter_matches f r \<and> is_live (status r)")
    case True
    with g get_id [OF assms g] have "r \<in> set rs" by (simp add: mem)
    from e(5) [rule_format, OF this] get_id [OF assms g] True show ?thesis by simp
  next
    case False
    have "tid \<notin> (\<lambda>r. task_id (spec r)) ` set rs"
    proof
      assume "tid \<in> (\<lambda>r. task_id (spec r)) ` set rs"
      then obtain x where "x \<in> set rs" "tid = task_id (spec x)" by blast
      with g False show False by (simp add: mem)
    qed
    with e(6) g False show ?thesis by auto
  qed
  have "reconcile_orphaned_tasks display list_m mark_c fail_m f reason s = (\<lparr>report_tasks = ts\<rparr>, s')"
    using e(1) by (simp add: reconcile_orphaned_tasks_def rs_def)
  moreover have "set (map rt_record ts) =
      {r. get_m (task_id (spec r)) s = Some r \<and> filter_matches f r \<and> is_live (status r)}"
    unfolding e(3) by (auto simp: mem)
  ultimately show ?thesis using e(2,4) all by (intro exI conjI allI impI)
qed

end

section \<open>The in-memory store provides it\<close>

lemma store_list_exact:
  assumes "store_inv s"
  shows "distinct (map (\<lambda>r. task_id (spec r)) (store_list f s)) \<and>
     set (store_list f s) = {r. store_get (task_id (spec r)) s = Some r \<and> filter_matches f r}"
proof -
  have d: "distinct (map fst s)" and k: "\<forall>(tid, r) \<in> set s. task_id (spec r) = tid"
    using assms by (auto simp: store_inv_def)
  have "map (\<lambda>r. task_id (spec r)) (map snd s) = map fst s"
    using k by (simp add: map_eq_conv split_beta)
  with d have "distinct (map (\<lambda>r. task_id (spec r)) (map snd s))" by (simp only:)
  then have "distinct (map (\<lambda>r. task_id (spec r)) (filter (filter_matches f) (map snd s)))"
    by (rule distinct_map_filter)
  then have "distinct (map (\<lambda>r. task_id (spec r)) (store_list f s))"
    by (simp add: store_list_def distinct_map)
  moreover have "r \<in> snd ` set s \<longleftrightarrow> store_get (task_id (spec r)) s = Some r" for r
    using d k by (auto simp: store_get_def map_of_eq_Some_iff intro: rev_image_eqI)
  then have "set (store_list f s) = {r. store_get (task_id (spec r)) s = Some r \<and> filter_matches f r}"
    by (auto simp: store_list_def)
  ultimately show ?thesis by simp
qed

interpretation mem: reconcilable_store store_list "store_mark_cancelled now" "\<lambda>e tid. store_fail now tid e"
  store_get store_inv for now
proof (unfold_locales, goal_cases)
  case (1 s f)
  then show ?case by (rule store_list_exact)
next
  case (2 s tid r)
  then show ?case by (simp add: store_get_def store_inv_map_of)
next
  case (3 s tid r)
  then show ?case
    using store_inv_map_of [OF 3(1), of tid r] store_apply_inv [OF 3(1), of now tid OpMarkCancelled]
    by (auto simp: store_get_def store_mark_cancelled_def store_apply_def with_task_def cloned_def
                   transition_defs update_conv')
next
  case (4 s tid r e)
  then show ?case
    using store_inv_map_of [OF 4(1), of tid r] store_apply_inv [OF 4(1), of now tid "OpFail e"]
    by (auto simp: store_get_def store_fail_def store_apply_def with_task_def cloned_def
                   transition_defs update_conv')
qed

section \<open>Properties\<close>

text \<open>
  C14. One sweep settles every orphan: on the in-memory store it reports exactly the live tasks matching
  the filter, all of them settled, each is afterwards cancelled when its cancellation was pending and
  failed with the caller's reason otherwise, and every other record is untouched.
\<close>

theorem reconcile_settles_orphans:
  assumes "store_inv s"
  shows "\<exists>ts s'. reconcile_orphaned_tasks display store_list (store_mark_cancelled now)
         (\<lambda>e tid. store_fail now tid e) f reason s = (\<lparr>report_tasks = ts\<rparr>, s') \<and> store_inv s' \<and>
     (\<forall>t \<in> set ts. outcome_is_settled (rt_outcome t)) \<and>
     set (map rt_record ts) =
       {r. store_get (task_id (spec r)) s = Some r \<and> filter_matches f r \<and> is_live (status r)} \<and>
     (\<forall>tid r. store_get tid s = Some r \<longrightarrow>
        (if filter_matches f r \<and> is_live (status r)
         then \<exists>r'. store_get tid s' = Some r' \<and> settles_to reason r r'
         else store_get tid s' = Some r))"
  using assms by (rule mem.sweep_settles)

theorem reconcile_settles_orphans_witness:
  "let s = snd (store_insert 0 (spec_new ''t'' (SubAgent ''a'')) []) in
   \<exists>s' r'. snd (reconcile_orphaned_tasks (\<lambda>_. []) store_list (store_mark_cancelled 5)
         (\<lambda>e tid. store_fail 5 tid e) filter_default (\<lambda>_. ''gone'') s) = s' \<and>
     store_get ''t'' s' = Some r' \<and> status r' = Failed \<and> task_error r' = Some ''gone''"
proof -
  let ?s = "snd (store_insert 0 (spec_new ''t'' (SubAgent ''a'')) [])"
  have inv: "store_inv ?s" by (rule store_insert_inv) (simp add: store_inv_def)
  let ?r = "record_pending 0 (spec_new ''t'' (SubAgent ''a''))"
  have g: "store_get ''t'' ?s = Some ?r" "filter_matches filter_default ?r" "is_live (status ?r)"
    "status ?r \<noteq> CancelRequested"
    by (simp_all add: store_get_def store_insert_def spec_new_def Let_def filter_matches_def
                      filter_default_def is_live_def record_pending_def)
  from reconcile_settles_orphans [OF inv, of "\<lambda>_. []" 5 filter_default "\<lambda>_. ''gone''"]
  obtain ts s' where run: "reconcile_orphaned_tasks (\<lambda>_. []) store_list (store_mark_cancelled 5)
      (\<lambda>e tid. store_fail 5 tid e) filter_default (\<lambda>_. ''gone'') ?s = (\<lparr>report_tasks = ts\<rparr>, s')"
    and all: "\<forall>tid r. store_get tid ?s = Some r \<longrightarrow>
        (if filter_matches filter_default r \<and> is_live (status r)
         then \<exists>r'. store_get tid s' = Some r' \<and> settles_to (\<lambda>_. ''gone'') r r'
         else store_get tid s' = Some r)"
    by (elim exE conjE) (rule that)
  from all [THEN spec, of "''t''", THEN spec, of ?r] g obtain r' where
    "store_get ''t'' s' = Some r'" "settles_to (\<lambda>_. ''gone'') ?r r'"
    by auto
  with run g(4) show ?thesis by (simp add: settles_to_def)
qed

end
