(* ===== verification/CompositeKey.thy ===== *)
theory CompositeKey
  imports Prelude
begin

text \<open>
  Composite document ids and blob keys: \<open>tinyagents-storage-kit/src/lib.rs\<close>.

  \<open>StorageError\<close> belongs to the storage driver crates; the record holds the kind and the message, and
  the kinds are the ones the code names plus \<open>OtherKind\<close>.  Two functions called here are third-party:
  \<open>digest\<close> is the lower-case base-32 text of the SHA-256 of its argument, and \<open>key_new\<close> is
  \<open>Key::new\<close>, which validates a key and keeps it as it is.
\<close>

datatype ErrorKind = Conflict | InvalidInput | SerializationKind | BackendKind | OtherKind nat

record StorageError =
  err_kind :: ErrorKind
  err_message :: string

definition invalid_input :: "string \<Rightarrow> StorageError" where
  "invalid_input m = \<lparr>err_kind = InvalidInput, err_message = m\<rparr>"

definition backend_error :: "string \<Rightarrow> StorageError" where
  "backend_error m = \<lparr>err_kind = BackendKind, err_message = m\<rparr>"

section \<open>Blob keys\<close>

definition MAX_BLOB_KEY_LEN :: nat where "MAX_BLOB_KEY_LEN = 1024"

definition validate_user_blob_key :: "string \<Rightarrow> string \<Rightarrow> (StorageError, unit) result" where
  "validate_user_blob_key sealed_prefix key =
     (if key = [] \<or> length key > MAX_BLOB_KEY_LEN \<or> CHR 0x00 \<in> set key
      then Inl (invalid_input ''invalid blob key'')
      else if prefix sealed_prefix key then Inl (invalid_input ''reserved blob key'')
      else Inr ())"

section \<open>Composite keys\<close>

text \<open>One character of a part; \<open>first\<close> holds for the first character of the first part.\<close>

definition escape_char :: "bool \<Rightarrow> char \<Rightarrow> string" where
  "escape_char first c =
     (if c = CHR ''%'' then ''%25''
      else if c = CHR ''/'' then ''%2F''
      else if c = CHR 0x00 then ''%00''
      else if c = CHR ''~'' \<and> first then ''%7E''
      else [c])"

fun escape_part :: "bool \<Rightarrow> string \<Rightarrow> string" where
  "escape_part first [] = []"
| "escape_part first (c # cs) = escape_char first c @ escape_part False cs"

fun join_parts :: "string list \<Rightarrow> string" where
  "join_parts [] = []"
| "join_parts [p] = p"
| "join_parts (p # ps) = p @ ''/'' @ join_parts ps"

definition encode_parts :: "string list \<Rightarrow> string" where
  "encode_parts parts =
     (case parts of
        [] \<Rightarrow> []
      | p # ps \<Rightarrow> join_parts (escape_part True p # map (escape_part False) ps))"

definition MAX_KEY_LEN :: nat where "MAX_KEY_LEN = 512"

definition composite_key ::
  "(string \<Rightarrow> string) \<Rightarrow> (string \<Rightarrow> (StorageError, string) result) \<Rightarrow> string list
    \<Rightarrow> (StorageError, string) result" where
  "composite_key digest key_new parts =
     (if parts = [] then Inl (invalid_input ''a key needs at least one part'')
      else
        (let out = encode_parts parts;
             out' = (if length out > MAX_KEY_LEN then ''~'' @ digest out else out)
         in key_new out'))"

section \<open>Reading an id back\<close>

text \<open>The inverse the encoding is designed for: split at the separator and undo the escapes.\<close>

fun unescape :: "string \<Rightarrow> string" where
  "unescape [] = []"
| "unescape [c] = [c]"
| "unescape [c, d] = [c, d]"
| "unescape (c # d # e # cs) =
     (if c = CHR ''%'' then
        (if [d, e] = ''25'' then CHR ''%'' # unescape cs
         else if [d, e] = ''2F'' then CHR ''/'' # unescape cs
         else if [d, e] = ''00'' then CHR 0x00 # unescape cs
         else if [d, e] = ''7E'' then CHR ''~'' # unescape cs
         else c # unescape (d # e # cs))
      else c # unescape (d # e # cs))"

fun split_slash :: "string \<Rightarrow> string list" where
  "split_slash [] = [[]]"
| "split_slash (c # cs) =
     (if c = CHR ''/'' then [] # split_slash cs
      else (case split_slash cs of p # ps \<Rightarrow> (c # p) # ps | [] \<Rightarrow> [[c]]))"

definition decode_key :: "string \<Rightarrow> string list" where
  "decode_key s = map unescape (split_slash s)"

lemma escape_part_no_slash: "CHR ''/'' \<notin> set (escape_part b p)"
  by (induction b p rule: escape_part.induct) (auto simp: escape_char_def)

lemma unescape_plain: "c \<noteq> CHR ''%'' \<Longrightarrow> unescape (c # cs) = c # unescape cs"
  by (cases cs rule: unescape.cases) auto

lemma unescape_escape: "unescape (escape_char b c @ cs) = c # unescape cs"
  by (auto simp: escape_char_def unescape_plain)

lemma unescape_escape_part: "unescape (escape_part b p) = p"
  by (induction b p rule: escape_part.induct) (simp_all add: unescape_escape)

lemma split_slash_plain:
  "CHR ''/'' \<notin> set p \<Longrightarrow>
     split_slash (p @ s) = (p @ hd (split_slash s)) # tl (split_slash s)"
proof (induction p)
  case Nil
  then show ?case by (cases s) (auto split: list.splits)
qed (auto split: list.splits)

lemma split_join:
  "ps \<noteq> [] \<Longrightarrow> \<forall>p \<in> set ps. CHR ''/'' \<notin> set p \<Longrightarrow> split_slash (join_parts ps) = ps"
proof (induction ps rule: join_parts.induct)
  case (2 p)
  then show ?case using split_slash_plain [of p "[]"] by simp
next
  case (3 p q ps)
  then show ?case using split_slash_plain [of p "CHR ''/'' # join_parts (q # ps)"] by simp
qed simp

lemma decode_encode:
  assumes "parts \<noteq> []"
  shows "decode_key (encode_parts parts) = parts"
proof (cases parts)
  case (Cons p ps)
  have "split_slash (encode_parts parts) = escape_part True p # map (escape_part False) ps"
    unfolding encode_parts_def Cons list.case
    by (rule split_join) (auto simp: escape_part_no_slash)
  then show ?thesis
    by (simp add: decode_key_def Cons unescape_escape_part comp_def)
qed (use assms in simp)

lemma encode_no_tilde: "encode_parts parts \<noteq> CHR ''~'' # rest"
proof (cases parts)
  case (Cons p ps)
  show ?thesis
    by (cases p; cases ps) (auto simp: encode_parts_def Cons escape_char_def)
qed (simp add: encode_parts_def)

section \<open>Properties\<close>



text \<open>
  C39. Two different lists of parts never share a document id: with a key constructor that keeps the
  text and a digest that does not collide on the two encodings, equal ids come from equal parts.  In
  particular a hashed id never equals a plain one, because a plain one cannot start with a tilde.
\<close>

theorem composite_key_injective:
  assumes key_new_keeps: "\<And>s k. key_new s = Inr k \<Longrightarrow> k = s"
    and no_collision: "digest (encode_parts ps) = digest (encode_parts qs) \<Longrightarrow>
          encode_parts ps = encode_parts qs"
    and "composite_key digest key_new ps = Inr k" "composite_key digest key_new qs = Inr k"
  shows "ps = qs"
proof -
  let ?id = "\<lambda>parts. if length (encode_parts parts) > MAX_KEY_LEN
                      then ''~'' @ digest (encode_parts parts) else encode_parts parts"
  have ne: "ps \<noteq> []" "qs \<noteq> []"
    using assms(3,4) by (auto simp: composite_key_def)
  have "k = ?id ps" "k = ?id qs"
    using assms(3,4) key_new_keeps by (auto simp: composite_key_def Let_def split: if_splits)
  then have "encode_parts ps = encode_parts qs"
    using no_collision encode_no_tilde [of ps] encode_no_tilde [of qs]
      encode_no_tilde [of ps, symmetric] encode_no_tilde [of qs, symmetric]
    by (auto split: if_splits)
  then have "decode_key (encode_parts ps) = decode_key (encode_parts qs)" by (rule arg_cong)
  then show ?thesis
    by (simp only: decode_encode [OF ne(1)] decode_encode [OF ne(2)])
qed

theorem composite_key_injective_witness:
  "{qs. composite_key (\<lambda>s. s) Inr qs = Inr ''a/b''} = {[''a'', ''b'']}"
proof -
  have c: "composite_key (\<lambda>s. s) Inr [''a'', ''b''] = Inr ''a/b''"
    by code_simp
  have "[''a'', ''b''] = qs" if "composite_key (\<lambda>s. s) Inr qs = Inr ''a/b''" for qs
  proof (rule composite_key_injective [OF _ _ c that])
    show "k = s" if "Inr s = (Inr k :: (StorageError, string) result)" for s k using that by simp
  qed
  with c show ?thesis by blast
qed

end
