(* ===== verification/Repo.thy ===== *)
theory Repo
  imports CompositeKey
begin

text \<open>
  The typed collection handle and its compare-and-swap loop:
  \<open>tinyagents-storage-kit/src/primitives/repo.rs\<close>.

  The document store is a third-party service.  It is the record \<open>document_store\<close> of the methods the
  code calls, each a function of the state \<open>'s\<close> of the world (the stored documents and everything
  other clients do).  \<open>world\<close> gives the random bits of the jitter and the effect of
  sleeping.  What the loop relies on is the predicate \<open>store_laws\<close>: every method is one atomic action
  between arbitrary steps \<open>env\<close> of other clients, a precondition is checked at the moment of the write,
  a reported conflict writes nothing, and one version of a document has one body.  \<open>view\<close> reads the
  stored documents off a state.  Serialization is the pair \<open>repo_encode\<close>, \<open>repo_decode\<close>.
\<close>

section \<open>The store and the handle\<close>

datatype Precondition = NoPrecondition | Absent | Version nat

record ('s, 'o) document_store =
  ds_get :: "string \<Rightarrow> string \<Rightarrow> 's \<Rightarrow> (StorageError, (nat \<times> json) option) result \<times> 's"
  ds_put_with :: "string \<Rightarrow> string \<Rightarrow> json \<Rightarrow> Precondition \<Rightarrow> 'o \<Rightarrow> 's \<Rightarrow> (StorageError, nat) result \<times> 's"
  ds_delete :: "string \<Rightarrow> string \<Rightarrow> Precondition \<Rightarrow> 's \<Rightarrow> (StorageError, bool) result \<times> 's"

record 's world =
  w_random :: "'s \<Rightarrow> u64"
  w_sleep :: "nat \<Rightarrow> 's \<Rightarrow> 's"

record CasRetryPolicy =
  attempts :: u32
  initial_backoff :: nat
  max_backoff :: nat

definition cas_policy_new :: "u32 \<Rightarrow> nat \<Rightarrow> nat \<Rightarrow> CasRetryPolicy" where
  "cas_policy_new n i m = \<lparr>attempts = n, initial_backoff = i, max_backoff = m\<rparr>"

definition cas_policy_immediate :: CasRetryPolicy where
  "cas_policy_immediate = cas_policy_new 32 0 0"

definition cas_policy_default :: CasRetryPolicy where
  "cas_policy_default = cas_policy_new 32 1000000 8000000"

text \<open>A \<open>Duration\<close> in nanoseconds; its largest value is \<open>u64::MAX\<close> seconds and 999999999 ns.\<close>

definition duration_max :: nat where
  "duration_max = (2 ^ 64 - 1) * 1000000000 + 999999999"

definition pause :: "CasRetryPolicy \<Rightarrow> nat \<Rightarrow> u64 \<Rightarrow> nat" where
  "pause p attempt random =
     (let factor = (if attempt < 32 then 2 ^ attempt else 2 ^ 32 - 1);
          doubled = min (initial_backoff p * factor) duration_max;
          cap = min doubled (max_backoff p);
          nanos = (if cap < 2 ^ 64 then cap else 2 ^ 64 - 1)
      in if nanos = 0 then 0
         else (let half = nanos div 2 in half + unat random mod (nanos - half + 1)))"

record ('s, 'o, 'a) repo =
  repo_docs :: "('s, 'o) document_store"
  repo_collection :: string
  repo_options :: 'o
  repo_retry :: CasRetryPolicy
  repo_encode :: "'a \<Rightarrow> (StorageError, json) result"
  repo_decode :: "json \<Rightarrow> (StorageError, 'a) result"

section \<open>Operations\<close>

definition decode_found ::
  "('s, 'o, 'a) repo \<Rightarrow> nat \<times> json \<Rightarrow> (StorageError, nat \<times> 'a) result" where
  "decode_found R found = result_bind (repo_decode R (snd found)) (\<lambda>a. Inr (fst found, a))"

definition repo_get ::
  "('s, 'o, 'a) repo \<Rightarrow> string \<Rightarrow> 's \<Rightarrow> (StorageError, (nat \<times> 'a) option) result \<times> 's" where
  "repo_get R i s =
     (case ds_get (repo_docs R) (repo_collection R) i s of
        (Inl e, s') \<Rightarrow> (Inl e, s')
      | (Inr None, s') \<Rightarrow> (Inr None, s')
      | (Inr (Some found), s') \<Rightarrow> (result_bind (decode_found R found) (\<lambda>x. Inr (Some x)), s'))"

definition repo_write ::
  "('s, 'o, 'a) repo \<Rightarrow> string \<Rightarrow> 'a \<Rightarrow> Precondition \<Rightarrow> 's \<Rightarrow> (StorageError, nat) result \<times> 's" where
  "repo_write R i a p s =
     (case repo_encode R a of
        Inl e \<Rightarrow> (Inl e, s)
      | Inr body \<Rightarrow> ds_put_with (repo_docs R) (repo_collection R) i body p (repo_options R) s)"

definition repo_put ::
  "('s, 'o, 'a) repo \<Rightarrow> string \<Rightarrow> 'a \<Rightarrow> 's \<Rightarrow> (StorageError, nat) result \<times> 's" where
  "repo_put R i a s = repo_write R i a NoPrecondition s"

definition repo_insert ::
  "('s, 'o, 'a) repo \<Rightarrow> string \<Rightarrow> 'a \<Rightarrow> 's \<Rightarrow> (StorageError, nat) result \<times> 's" where
  "repo_insert R i a s = repo_write R i a Absent s"

definition repo_delete ::
  "('s, 'o, 'a) repo \<Rightarrow> string \<Rightarrow> 's \<Rightarrow> (StorageError, bool) result \<times> 's" where
  "repo_delete R i s = ds_delete (repo_docs R) (repo_collection R) i NoPrecondition s"

text \<open>The sleep between two attempts.\<close>

definition cas_wait :: "'s world \<Rightarrow> CasRetryPolicy \<Rightarrow> nat \<Rightarrow> 's \<Rightarrow> 's" where
  "cas_wait W p attempt s =
     (let d = pause p attempt (w_random W s) in if d = 0 then s else w_sleep W d s)"

text \<open>
  The loop of \<open>update\<close> with \<open>left\<close> attempts after this one.  The closure may read the world (a
  clock) and carries captured variables of type \<open>'c\<close>.
\<close>

fun update_loop ::
  "('s, 'o, 'a) repo \<Rightarrow> 's world \<Rightarrow> string \<Rightarrow> ('s \<Rightarrow> 'c \<Rightarrow> 'a option \<Rightarrow> (StorageError, 'a option) result \<times> 'c)
    \<Rightarrow> nat \<Rightarrow> nat \<Rightarrow> 'c \<Rightarrow> 's \<Rightarrow> (StorageError, ('a \<times> nat) option) result \<times> 'c \<times> 's" where
  "update_loop R W i f attempt left c s =
     (case repo_get R i s of
        (Inl e, s1) \<Rightarrow> (Inl e, c, s1)
      | (Inr found, s1) \<Rightarrow>
          (let precondition = (case found of Some (v, _) \<Rightarrow> Version v | None \<Rightarrow> Absent);
               current = map_option snd found in
           case f s1 c current of
             (Inl e, c1) \<Rightarrow> (Inl e, c1, s1)
           | (Inr None, c1) \<Rightarrow> (Inr None, c1, s1)
           | (Inr (Some nxt), c1) \<Rightarrow>
               (case repo_write R i nxt precondition s1 of
                  (Inr version, s2) \<Rightarrow> (Inr (Some (nxt, version)), c1, s2)
                | (Inl e, s2) \<Rightarrow>
                    if err_kind e = Conflict
                    then (case left of
                            0 \<Rightarrow> (Inl e, c1, s2)
                          | Suc l \<Rightarrow>
                              update_loop R W i f (Suc attempt) l c1
                                (cas_wait W (repo_retry R) attempt s2))
                    else (Inl e, c1, s2))))"

declare update_loop.simps [simp del]

definition repo_update ::
  "('s, 'o, 'a) repo \<Rightarrow> 's world \<Rightarrow> string \<Rightarrow> ('s \<Rightarrow> 'c \<Rightarrow> 'a option \<Rightarrow> (StorageError, 'a option) result \<times> 'c)
    \<Rightarrow> 'c \<Rightarrow> 's \<Rightarrow> (StorageError, ('a \<times> nat) option) result \<times> 'c \<times> 's" where
  "repo_update R W i f c s =
     update_loop R W i f 0 (max (unat (attempts (repo_retry R))) 1 - 1) c s"

fun delete_loop ::
  "('s, 'o, 'a) repo \<Rightarrow> 's world \<Rightarrow> string \<Rightarrow> ('a \<Rightarrow> bool) \<Rightarrow> nat \<Rightarrow> nat \<Rightarrow> 's
    \<Rightarrow> (StorageError, bool) result \<times> 's" where
  "delete_loop R W i matches attempt left s =
     (case repo_get R i s of
        (Inl e, s1) \<Rightarrow> (Inl e, s1)
      | (Inr None, s1) \<Rightarrow> (Inr False, s1)
      | (Inr (Some (v, a)), s1) \<Rightarrow>
          if \<not> matches a then (Inr False, s1)
          else
            (case ds_delete (repo_docs R) (repo_collection R) i (Version v) s1 of
               (Inr removed, s2) \<Rightarrow> (Inr removed, s2)
             | (Inl e, s2) \<Rightarrow>
                 if err_kind e = Conflict
                 then (case left of
                         0 \<Rightarrow> (Inl e, s2)
                       | Suc l \<Rightarrow>
                           delete_loop R W i matches (Suc attempt) l
                             (cas_wait W (repo_retry R) attempt s2))
                 else (Inl e, s2)))"

declare delete_loop.simps [simp del]

definition repo_delete_if ::
  "('s, 'o, 'a) repo \<Rightarrow> 's world \<Rightarrow> string \<Rightarrow> ('a \<Rightarrow> bool) \<Rightarrow> 's \<Rightarrow> (StorageError, bool) result \<times> 's" where
  "repo_delete_if R W i matches s =
     delete_loop R W i matches 0 (max (unat (attempts (repo_retry R))) 1 - 1) s"

section \<open>What the loop relies on\<close>

type_synonym docs_view = "string \<Rightarrow> string \<Rightarrow> (nat \<times> json) option"

fun admits :: "Precondition \<Rightarrow> (nat \<times> json) option \<Rightarrow> bool" where
  "admits NoPrecondition d = True"
| "admits Absent d = (d = None)"
| "admits (Version v) d = (map_option fst d = Some v)"

definition view_upd :: "docs_view \<Rightarrow> string \<Rightarrow> string \<Rightarrow> (nat \<times> json) option \<Rightarrow> docs_view" where
  "view_upd v c i d = v(c := (v c)(i := d))"

definition store_laws ::
  "('s, 'o) document_store \<Rightarrow> 's world \<Rightarrow> ('s \<Rightarrow> docs_view) \<Rightarrow> ('s \<Rightarrow> 's \<Rightarrow> bool) \<Rightarrow> bool" where
  "store_laws D W view env \<longleftrightarrow>
     (\<forall>s. env s s) \<and>
     (\<forall>s t u. env s t \<longrightarrow> env t u \<longrightarrow> env s u) \<and>
     (\<forall>d s. env s (w_sleep W d s)) \<and>
     (\<forall>c i s r s'. ds_get D c i s = (r, s') \<longrightarrow>
        env s s' \<and> (\<forall>x. r = Inr x \<longrightarrow> (\<exists>t. env s t \<and> env t s' \<and> view t c i = x))) \<and>
     (\<forall>c i j p opts s v s'. ds_put_with D c i j p opts s = (Inr v, s') \<longrightarrow>
        (\<exists>t u. env s t \<and> admits p (view t c i) \<and> view u = view_upd (view t) c i (Some (v, j)) \<and>
               env u s')) \<and>
     (\<forall>c i j p opts s e s'. ds_put_with D c i j p opts s = (Inl e, s') \<longrightarrow> err_kind e = Conflict \<longrightarrow>
        env s s') \<and>
     (\<forall>c i p s s'. ds_delete D c i p s = (Inr True, s') \<longrightarrow>
        (\<exists>t u. env s t \<and> admits p (view t c i) \<and> view t c i \<noteq> None \<and>
               view u = view_upd (view t) c i None \<and> env u s')) \<and>
     (\<forall>c i p s s'. ds_delete D c i p s = (Inr False, s') \<longrightarrow> env s s') \<and>
     (\<forall>c i p s e s'. ds_delete D c i p s = (Inl e, s') \<longrightarrow> err_kind e = Conflict \<longrightarrow> env s s') \<and>
     (\<forall>c i s s' v j j'. env s s' \<longrightarrow> view s c i = Some (v, j) \<longrightarrow> view s' c i = Some (v, j') \<longrightarrow> j = j')"

text \<open>The typed reading of a document.\<close>

definition reads :: "('s, 'o, 'a) repo \<Rightarrow> (nat \<times> json) option \<Rightarrow> 'a option \<Rightarrow> bool" where
  "reads R d a =
     (case d of None \<Rightarrow> a = None | Some (v, j) \<Rightarrow> \<exists>x. repo_decode R j = Inr x \<and> a = Some x)"

section \<open>The loop is one atomic read-modify-write\<close>

lemma store_lawsD:
  assumes "store_laws D W view env"
  shows env_refl: "env s s"
    and env_trans: "env s t \<Longrightarrow> env t u \<Longrightarrow> env s u"
    and env_sleep: "env s (w_sleep W d s)"
    and get_env: "ds_get D c i s = (r, s') \<Longrightarrow> env s s'"
    and get_reads: "ds_get D c i s = (Inr x, s') \<Longrightarrow> \<exists>t. env s t \<and> env t s' \<and> view t c i = x"
    and put_commits: "ds_put_with D c i j p opts s = (Inr v, s') \<Longrightarrow>
      \<exists>t u. env s t \<and> admits p (view t c i) \<and> view u = view_upd (view t) c i (Some (v, j)) \<and> env u s'"
    and put_conflict: "ds_put_with D c i j p opts s = (Inl e, s') \<Longrightarrow> err_kind e = Conflict \<Longrightarrow> env s s'"
    and delete_commits: "ds_delete D c i p s = (Inr True, s') \<Longrightarrow>
      \<exists>t u. env s t \<and> admits p (view t c i) \<and> view t c i \<noteq> None \<and>
            view u = view_upd (view t) c i None \<and> env u s'"
    and delete_missing: "ds_delete D c i p s = (Inr False, s') \<Longrightarrow> env s s'"
    and delete_conflict: "ds_delete D c i p s = (Inl e, s') \<Longrightarrow> err_kind e = Conflict \<Longrightarrow> env s s'"
    and version_body: "env s s' \<Longrightarrow> view s c i = Some (v, j) \<Longrightarrow> view s' c i = Some (v, j') \<Longrightarrow> j = j'"
proof -
  note r0 = assms [unfolded store_laws_def]
  note l1 = r0 [THEN conjunct1] and r1 = r0 [THEN conjunct2]
  note l2 = r1 [THEN conjunct1] and r2 = r1 [THEN conjunct2]
  note l3 = r2 [THEN conjunct1] and r3 = r2 [THEN conjunct2]
  note l4 = r3 [THEN conjunct1] and r4 = r3 [THEN conjunct2]
  note l5 = r4 [THEN conjunct1] and r5 = r4 [THEN conjunct2]
  note l6 = r5 [THEN conjunct1] and r6 = r5 [THEN conjunct2]
  note l7 = r6 [THEN conjunct1] and r7 = r6 [THEN conjunct2]
  note l8 = r7 [THEN conjunct1] and r8 = r7 [THEN conjunct2]
  note l9 = r8 [THEN conjunct1] and l10 = r8 [THEN conjunct2]
  show "env s s" using l1 by blast
  show "env s t \<Longrightarrow> env t u \<Longrightarrow> env s u" using l2 by blast
  show "env s (w_sleep W d s)" using l3 by blast
  show "ds_get D c i s = (r, s') \<Longrightarrow> env s s'" using l4 by blast
  show "ds_get D c i s = (Inr x, s') \<Longrightarrow> \<exists>t. env s t \<and> env t s' \<and> view t c i = x" using l4 by blast
  show "ds_put_with D c i j p opts s = (Inr v, s') \<Longrightarrow>
      \<exists>t u. env s t \<and> admits p (view t c i) \<and> view u = view_upd (view t) c i (Some (v, j)) \<and> env u s'"
    using l5 by blast
  show "ds_put_with D c i j p opts s = (Inl e, s') \<Longrightarrow> err_kind e = Conflict \<Longrightarrow> env s s'"
    using l6 by blast
  show "ds_delete D c i p s = (Inr True, s') \<Longrightarrow>
      \<exists>t u. env s t \<and> admits p (view t c i) \<and> view t c i \<noteq> None \<and>
            view u = view_upd (view t) c i None \<and> env u s'"
    using l7 by blast
  show "ds_delete D c i p s = (Inr False, s') \<Longrightarrow> env s s'" using l8 by blast
  show "ds_delete D c i p s = (Inl e, s') \<Longrightarrow> err_kind e = Conflict \<Longrightarrow> env s s'" using l9 by blast
  show "env s s' \<Longrightarrow> view s c i = Some (v, j) \<Longrightarrow> view s' c i = Some (v, j') \<Longrightarrow> j = j'"
    using l10 by blast
qed

text \<open>\<open>seen_as R d found\<close>: the read found document \<open>d\<close>, decoded to \<open>found\<close>.\<close>

definition seen_as ::
  "('s, 'o, 'a) repo \<Rightarrow> (nat \<times> json) option \<Rightarrow> (nat \<times> 'a) option \<Rightarrow> bool" where
  "seen_as R d found \<longleftrightarrow> reads R d (map_option snd found) \<and> map_option fst d = map_option fst found"

lemma repo_get_env:
  assumes "store_laws (repo_docs R) W view env" "repo_get R i s = (r, s1)"
  shows "env s s1"
proof -
  obtain r0 where "ds_get (repo_docs R) (repo_collection R) i s = (r0, s1)"
    using assms(2) by (auto simp: repo_get_def split: prod.splits sum.splits option.splits)
  then show ?thesis using get_env [OF assms(1)] by blast
qed

lemma repo_get_seen:
  assumes "store_laws (repo_docs R) W view env" "repo_get R i s = (Inr found, s1)"
  obtains t where "env s t" "env t s1" "seen_as R (view t (repo_collection R) i) found"
proof -
  obtain d where d: "ds_get (repo_docs R) (repo_collection R) i s = (Inr d, s1)"
    and seen: "seen_as R d found"
    using assms(2)
    by (auto simp: repo_get_def seen_as_def reads_def decode_found_def result_bind_Inr_iff
        split: prod.splits sum.splits option.splits)
  from get_reads [OF assms(1) d] obtain t where "env s t" "env t s1" "view t (repo_collection R) i = d"
    by blast
  with seen show thesis using that by blast
qed

lemma cas_wait_env:
  assumes "store_laws D W view env"
  shows "env s (cas_wait W p n s)"
  using env_refl [OF assms] env_sleep [OF assms] by (simp add: cas_wait_def Let_def)

lemma repo_write_conflict:
  assumes "store_laws (repo_docs R) W view env" "repo_write R i a p s = (Inl e, s')"
    "err_kind e = Conflict"
  shows "env s s'"
  using assms(2) put_conflict [OF assms(1) _ assms(3)] env_refl [OF assms(1)]
  by (auto simp: repo_write_def split: sum.splits)

lemma repo_write_commits:
  assumes "store_laws (repo_docs R) W view env" "repo_write R i a p s = (Inr v, s')"
  obtains j t u where "repo_encode R a = Inr j" "env s t" "admits p (view t (repo_collection R) i)"
    "view u = view_upd (view t) (repo_collection R) i (Some (v, j))" "env u s'"
proof -
  obtain j where j: "repo_encode R a = Inr j"
    "ds_put_with (repo_docs R) (repo_collection R) i j p (repo_options R) s = (Inr v, s')"
    using assms(2) by (auto simp: repo_write_def split: sum.splits)
  from put_commits [OF assms(1) j(2)] show thesis
    by (elim exE conjE) (rule that [OF j(1)])
qed

definition precondition_of :: "(nat \<times> 'a) option \<Rightarrow> Precondition" where
  "precondition_of found = (case found of Some (v, _) \<Rightarrow> Version v | None \<Rightarrow> Absent)"

text \<open>A write whose precondition still holds replaces exactly the document that was read.\<close>

lemma same_document:
  assumes L: "store_laws (repo_docs R) W view env"
    and "seen_as R (view t c i) found" "env t t'" "admits (precondition_of found) (view t' c i)"
  shows "view t' c i = view t c i"
proof (cases found)
  case None
  then show ?thesis using assms(2,4) by (auto simp: seen_as_def precondition_of_def)
next
  case (Some va)
  obtain v a where va: "va = (v, a)" by (cases va)
  obtain j where j: "view t c i = Some (v, j)"
    using assms(2) Some va by (cases "view t c i") (auto simp: seen_as_def)
  obtain j' where j': "view t' c i = Some (v, j')"
    using assms(4) Some va by (cases "view t' c i") (auto simp: precondition_of_def)
  show ?thesis using version_body [OF L assms(3) j j'] j j' by simp
qed

text \<open>
  What a result of \<open>update\<close> says: a stored value replaced, in one step from \<open>t\<close> to \<open>u\<close>, exactly the
  value the closure was given; a declined update and a conflict left the store to the others.
\<close>

definition update_outcome ::
  "('s, 'o, 'a) repo \<Rightarrow> ('s \<Rightarrow> docs_view) \<Rightarrow> ('s \<Rightarrow> 's \<Rightarrow> bool) \<Rightarrow> string
    \<Rightarrow> ('s \<Rightarrow> 'c \<Rightarrow> 'a option \<Rightarrow> (StorageError, 'a option) result \<times> 'c)
    \<Rightarrow> 's \<Rightarrow> (StorageError, ('a \<times> nat) option) result \<Rightarrow> 'c \<Rightarrow> 's \<Rightarrow> bool" where
  "update_outcome R view env i f s r c' s' =
     (case r of
        Inr (Some (nxt, v)) \<Rightarrow>
          \<exists>st t u c0 x j. env s st \<and> env st t \<and> reads R (view t (repo_collection R) i) x \<and>
            f st c0 x = (Inr (Some nxt), c') \<and> repo_encode R nxt = Inr j \<and>
            view u = view_upd (view t) (repo_collection R) i (Some (v, j)) \<and> env u s'
      | Inr None \<Rightarrow>
          \<exists>t c0 x. env s t \<and> env t s' \<and> reads R (view t (repo_collection R) i) x \<and>
            f s' c0 x = (Inr None, c')
      | Inl e \<Rightarrow> err_kind e = Conflict \<longrightarrow> env s s')"

lemma update_outcome_later:
  assumes L: "store_laws D W view env" and "env s s0"
    and out: "update_outcome R view env i f s0 r c' s'"
  shows "update_outcome R view env i f s r c' s'"
proof -
  have *: "env s x" if "env s0 x" for x
    using env_trans [OF L assms(2) that] .
  show ?thesis
  proof (cases r)
    case (Inl e)
    then show ?thesis using out * by (auto simp: update_outcome_def)
  next
    case (Inr q)
    show ?thesis
    proof (cases q)
      case None
      then show ?thesis using out * Inr unfolding update_outcome_def by fastforce
    next
      case (Some nv)
      then show ?thesis using out * Inr
        by (cases nv) (simp add: update_outcome_def, blast)
    qed
  qed
qed

text \<open>One round of the loop, by what the closure answered.\<close>

lemma update_loop_round:
  assumes L: "store_laws (repo_docs R) W view env"
    and run: "update_loop R W i f attempt left c s = (r, c', s')"
  obtains
    (finished) "update_outcome R view env i f s r c' s'"
  | (again) l c1 s2 where "left = Suc l" "env s s2"
      "update_loop R W i f (Suc attempt) l c1 (cas_wait W (repo_retry R) attempt s2) = (r, c', s')"
proof -
  obtain g s1 where g: "repo_get R i s = (g, s1)" by (cases "repo_get R i s")
  have s1: "env s s1" by (rule repo_get_env [OF L g])
  show thesis
  proof (cases g)
    case (Inl e)
    then show thesis
      using run g s1 by - (rule finished, auto simp: update_loop.simps [of R W i f attempt left c s] update_outcome_def)
  next
    case (Inr found)
    obtain t where t: "env s t" "env t s1" "seen_as R (view t (repo_collection R) i) found"
      using repo_get_seen [OF L g [unfolded Inr]] .
    define x where "x = map_option snd found"
    obtain a c1 where a: "f s1 c x = (a, c1)" by (cases "f s1 c x")
    note unf = run [unfolded update_loop.simps [of R W i f attempt left c s] g Inr, simplified,
        folded precondition_of_def x_def, unfolded a, simplified]
    have rd: "reads R (view t (repo_collection R) i) x"
      using t(3) by (simp add: seen_as_def x_def)
    show thesis
    proof (cases a)
      case (Inl e)
      then show thesis using unf s1 by - (rule finished, auto simp: update_outcome_def)
    next
      case (Inr n)
      show thesis
      proof (cases n)
        case None
        then have "r = Inr None" "c' = c1" "s' = s1" using unf Inr by simp_all
        then show thesis
          using finished t rd a Inr None unfolding update_outcome_def by fastforce
      next
        case (Some nxt)
        obtain w s2 where w: "repo_write R i nxt (precondition_of found) s1 = (w, s2)"
          by (cases "repo_write R i nxt (precondition_of found) s1")
        note unf = unf [unfolded Inr Some, simplified, unfolded w, simplified]
        show thesis
        proof (cases w)
          case (Inl e)
          then show thesis
          proof (cases "err_kind e = Conflict")
            case True
            have s2: "env s s2"
              using env_trans [OF L s1 repo_write_conflict [OF L w [unfolded Inl] True]] .
            show thesis
            proof (cases left)
              case 0
              then show thesis using unf Inl True s2 by - (rule finished, auto simp: update_outcome_def)
            next
              case (Suc l)
              then show thesis using unf Inl True s2 again by simp
            qed
          next
            case False
            then show thesis using unf Inl by - (rule finished, auto simp: update_outcome_def)
          qed
        next
          case (Inr v)
          then have r: "r = Inr (Some (nxt, v))" "c' = c1" "s' = s2" using unf by simp_all
          obtain j t' u where j: "repo_encode R nxt = Inr j" "env s1 t'"
            "admits (precondition_of found) (view t' (repo_collection R) i)"
            "view u = view_upd (view t') (repo_collection R) i (Some (v, j))" "env u s2"
            using repo_write_commits [OF L w [unfolded Inr]] .
          have "view t' (repo_collection R) i = view t (repo_collection R) i"
            using same_document [OF L t(3) env_trans [OF L t(2) j(2)] j(3)] .
          then have rd': "reads R (view t' (repo_collection R) i) x" using rd by simp
          have fx: "f s1 c x = (Inr (Some nxt), c')"
            using a \<open>a = Inr n\<close> Some r(2) by simp
          have "update_outcome R view env i f s r c' s'"
            unfolding update_outcome_def r(1,3)
            using s1 j(2) rd' fx j(1,4,5) by (simp, blast)
          then show thesis by (rule finished)
        qed
      qed
    qed
  qed
qed

lemma update_loop_outcome:
  assumes L: "store_laws (repo_docs R) W view env"
    and "update_loop R W i f attempt left c s = (r, c', s')"
  shows "update_outcome R view env i f s r c' s'"
  using assms(2)
proof (induction left arbitrary: attempt c s)
  case 0
  show ?case by (rule update_loop_round [OF L 0]) simp_all
next
  case (Suc left)
  show ?case
  proof (rule update_loop_round [OF L Suc.prems])
    fix l c1 s2
    assume *: "Suc left = Suc l" "env s s2"
      "update_loop R W i f (Suc attempt) l c1 (cas_wait W (repo_retry R) attempt s2) = (r, c', s')"
    then have "update_outcome R view env i f (cas_wait W (repo_retry R) attempt s2) r c' s'"
      using Suc.IH by simp
    then show ?case
      by (rule update_outcome_later [OF L env_trans [OF L *(2) cas_wait_env [OF L]]])
  qed
qed

lemma repo_update_outcome:
  assumes "store_laws (repo_docs R) W view env" "repo_update R W i f c s = (r, c', s')"
  shows "update_outcome R view env i f s r c' s'"
  by (rule update_loop_outcome [OF assms(1) assms(2) [unfolded repo_update_def]])

text \<open>The conditional delete: a removed record is the one \<open>matches\<close> accepted.\<close>

definition delete_outcome ::
  "('s, 'o, 'a) repo \<Rightarrow> ('s \<Rightarrow> docs_view) \<Rightarrow> ('s \<Rightarrow> 's \<Rightarrow> bool) \<Rightarrow> string \<Rightarrow> ('a \<Rightarrow> bool)
    \<Rightarrow> 's \<Rightarrow> (StorageError, bool) result \<Rightarrow> 's \<Rightarrow> bool" where
  "delete_outcome R view env i matches s r s' =
     (case r of
        Inr True \<Rightarrow>
          \<exists>t u a. env s t \<and> reads R (view t (repo_collection R) i) (Some a) \<and> matches a \<and>
            view u = view_upd (view t) (repo_collection R) i None \<and> env u s'
      | Inr False \<Rightarrow> env s s'
      | Inl e \<Rightarrow> err_kind e = Conflict \<longrightarrow> env s s')"

lemma delete_loop_round:
  assumes L: "store_laws (repo_docs R) W view env"
    and run: "delete_loop R W i matches attempt left s = (r, s')"
  obtains
    (finished) "delete_outcome R view env i matches s r s'"
  | (again) l s2 where "left = Suc l" "env s s2"
      "delete_loop R W i matches (Suc attempt) l (cas_wait W (repo_retry R) attempt s2) = (r, s')"
proof -
  note unf = run [unfolded delete_loop.simps [of R W i matches attempt left s]]
  obtain g s1 where g: "repo_get R i s = (g, s1)" by (cases "repo_get R i s")
  have s1: "env s s1" by (rule repo_get_env [OF L g])
  consider (err) e where "g = Inl e" | (none) "g = Inr None" | (some) v a where "g = Inr (Some (v, a))"
    by (cases g) (auto, metis not_None_eq old.prod.exhaust)
  then show thesis
  proof cases
    case err
    then show thesis using unf g s1 by - (rule finished, auto simp: delete_outcome_def)
  next
    case none
    then show thesis using unf g s1 by - (rule finished, auto simp: delete_outcome_def)
  next
    case (some v a)
    obtain t where t: "env s t" "env t s1" "seen_as R (view t (repo_collection R) i) (Some (v, a))"
      using repo_get_seen [OF L g [unfolded some]] .
    show thesis
    proof (cases "matches a")
      case False
      then show thesis using unf g some s1 by - (rule finished, auto simp: delete_outcome_def)
    next
      case True
      obtain w s2 where w: "ds_delete (repo_docs R) (repo_collection R) i (Version v) s1 = (w, s2)"
        by fastforce
      consider (fail) e where "w = Inl e" | (gone) "w = Inr False" | (removed) "w = Inr True"
        by (metis (full_types) old.sum.exhaust)
      then show thesis
      proof cases
        case fail
        show thesis
        proof (cases "err_kind e = Conflict")
          case conflict: True
          have s2: "env s s2"
            using env_trans [OF L s1 delete_conflict [OF L w [unfolded fail] conflict]] .
          show thesis
            using unf g some True w fail conflict s2
            by (cases left) (auto simp: delete_outcome_def intro: finished again)
        next
          case False
          then show thesis
            using unf g some True w fail by - (rule finished, auto simp: delete_outcome_def)
        qed
      next
        case gone
        then show thesis
          using unf g some True w env_trans [OF L s1 delete_missing [OF L w [unfolded gone]]]
          by - (rule finished, auto simp: delete_outcome_def)
      next
        case removed
        then have r: "r = Inr True" "s' = s2" using unf g some True w by simp_all
        obtain t' u where u: "env s1 t'" "admits (Version v) (view t' (repo_collection R) i)"
          "view u = view_upd (view t') (repo_collection R) i None" "env u s2"
          using delete_commits [OF L w [unfolded removed]] by blast
        have "view t' (repo_collection R) i = view t (repo_collection R) i"
          using same_document [OF L t(3) env_trans [OF L t(2) u(1)]] u(2)
          by (simp add: precondition_of_def)
        then have "reads R (view t' (repo_collection R) i) (Some a)"
          using t(3) by (simp add: seen_as_def)
        then have "delete_outcome R view env i matches s r s'"
          unfolding delete_outcome_def r
          using env_trans [OF L s1 u(1)] True u(3,4) by (simp, blast)
        then show thesis by (rule finished)
      qed
    qed
  qed
qed

lemma delete_loop_outcome:
  assumes L: "store_laws (repo_docs R) W view env"
    and "delete_loop R W i matches attempt left s = (r, s')"
  shows "delete_outcome R view env i matches s r s'"
  using assms(2)
proof (induction left arbitrary: attempt s)
  case 0
  show ?case by (rule delete_loop_round [OF L 0]) simp_all
next
  case (Suc left)
  show ?case
  proof (rule delete_loop_round [OF L Suc.prems])
    fix l s2
    assume *: "Suc left = Suc l" "env s s2"
      "delete_loop R W i matches (Suc attempt) l (cas_wait W (repo_retry R) attempt s2) = (r, s')"
    then have out: "delete_outcome R view env i matches (cas_wait W (repo_retry R) attempt s2) r s'"
      using Suc.IH by simp
    have to: "env s x" if "env (cas_wait W (repo_retry R) attempt s2) x" for x
      using env_trans [OF L env_trans [OF L *(2) cas_wait_env [OF L]] that] .
    show ?case
      using out to unfolding delete_outcome_def by (auto split: sum.splits bool.splits)
  qed
qed

section \<open>A log as a concrete store\<close>

text \<open>
  The documents as the log of all writes: a document's version is the position of its last entry.
  \<open>rival\<close> is what other clients append after a read.
\<close>

type_synonym doc_log = "(string \<times> string \<times> json option) list"

definition log_view :: "doc_log \<Rightarrow> docs_view" where
  "log_view l c i =
     (case filter (\<lambda>(n, c', i', d). c' = c \<and> i' = i) (rev (enumerate 0 l)) of
        [] \<Rightarrow> None
      | (n, c', i', d) # _ \<Rightarrow> map_option (\<lambda>j. (n, j)) d)"

fun admits_now :: "Precondition \<Rightarrow> (nat \<times> json) option \<Rightarrow> bool" where
  "admits_now NoPrecondition d = True"
| "admits_now Absent d = (case d of None \<Rightarrow> True | Some _ \<Rightarrow> False)"
| "admits_now (Version v) d = (case d of None \<Rightarrow> False | Some (w, _) \<Rightarrow> v = w)"

definition conflict_error :: StorageError where
  "conflict_error = \<lparr>err_kind = Conflict, err_message = ''conflict''\<rparr>"

definition log_store :: "(doc_log \<Rightarrow> doc_log) \<Rightarrow> (doc_log, unit) document_store" where
  "log_store rival =
     \<lparr>ds_get = (\<lambda>c i l. (Inr (log_view l c i), l @ rival l)),
      ds_put_with = (\<lambda>c i j p _ l.
        if admits_now p (log_view l c i) then (Inr (length l), l @ [(c, i, Some j)])
        else (Inl conflict_error, l)),
      ds_delete = (\<lambda>c i p l.
        if \<not> admits_now p (log_view l c i) then (Inl conflict_error, l)
        else (case log_view l c i of
                None \<Rightarrow> (Inr False, l)
              | Some _ \<Rightarrow> (Inr True, l @ [(c, i, None)])))\<rparr>"

definition log_world :: "doc_log world" where
  "log_world = \<lparr>w_random = (\<lambda>_. 7), w_sleep = (\<lambda>_ l. l)\<rparr>"

lemma admits_now: "admits_now p d = admits p d"
  by (cases p) (auto split: option.splits)

lemma log_view_snoc:
  "log_view (l @ [(c, i, d)]) = view_upd (log_view l) c i (map_option (\<lambda>j. (length l, j)) d)"
  by (intro ext) (auto simp: log_view_def view_upd_def enumerate_append_eq)

lemma log_view_entry:
  assumes "log_view l c i = Some (v, j)"
  shows "v < length l \<and> l ! v = (c, i, Some j)"
proof -
  obtain n c' i' d rest where f:
    "filter (\<lambda>(n, c', i', d). c' = c \<and> i' = i) (rev (enumerate 0 l)) = (n, c', i', d) # rest"
    using assms by (auto simp: log_view_def split: list.splits)
  then have "(n, c', i', d) \<in> set (enumerate 0 l)" "c' = c" "i' = i"
    using filter_is_subset [of "\<lambda>(n, c', i', d). c' = c \<and> i' = i" "rev (enumerate 0 l)"]
      filter_eq_ConsD [OF f] by auto
  then show ?thesis
    using assms f by (auto simp: log_view_def in_set_enumerate_eq)
qed

lemma log_store_laws_env:
  assumes refl: "\<And>s. env s s" and trans: "\<And>s t u. env s t \<Longrightarrow> env t u \<Longrightarrow> env s u"
    and grows: "\<And>s t. env s t \<Longrightarrow> prefix s t" and rivals: "\<And>s. env s (s @ rival s)"
  shows "store_laws (log_store rival) log_world log_view env"
proof -
  have noaba: "j = j'" if "prefix s s'" "log_view s c i = Some (v, j)" "log_view s' c i = Some (v, j')"
    for s s' :: doc_log and c i v j j'
    using log_view_entry [OF that(2)] log_view_entry [OF that(3)] that(1)
    by (auto simp: prefix_def nth_append)
  have put: "\<exists>t u. env s t \<and> admits p (log_view t c i) \<and>
      log_view u = view_upd (log_view t) c i (Some (v, j)) \<and> env u s'"
    if "ds_put_with (log_store rival) c i j p opts s = (Inr v, s')" for c i j p opts s v s'
    using that
    by (intro exI [of _ s] exI [of _ s'])
      (auto simp: log_store_def admits_now log_view_snoc refl split: if_splits)
  have del: "\<exists>t u. env s t \<and> admits p (log_view t c i) \<and> log_view t c i \<noteq> None \<and>
      log_view u = view_upd (log_view t) c i None \<and> env u s'"
    if "ds_delete (log_store rival) c i p s = (Inr True, s')" for c i p s s'
    using that
    by (intro exI [of _ s] exI [of _ s'])
      (auto simp: log_store_def admits_now log_view_snoc refl split: if_splits option.splits)
  have get: "env s s' \<and> (\<forall>x. r = Inr x \<longrightarrow> (\<exists>t. env s t \<and> env t s' \<and> log_view t c i = x))"
    if "ds_get (log_store rival) c i s = (r, s')" for c i s r s'
    using that refl rivals by (auto simp: log_store_def)
  have same: "s' = s"
    if "ds_delete (log_store rival) c i p s = (Inr False, s') \<or>
        ds_delete (log_store rival) c i p s = (Inl e, s') \<or>
        ds_put_with (log_store rival) c i j p opts s = (Inl e, s')" for c i j p opts s e s'
    using that by (auto simp: log_store_def split: if_splits option.splits)
  show ?thesis
    unfolding store_laws_def
  proof (intro conjI allI impI)
    show "env s s" for s by (rule refl)
    show "env s u" if "env s t" "env t u" for s t u using that by (rule trans)
    show "env s (w_sleep log_world d s)" for d s by (simp add: log_world_def refl)
  next
    fix c i s r s'
    assume "ds_get (log_store rival) c i s = (r, s')"
    from get [OF this] show "env s s'"
      and "\<And>x. r = Inr x \<Longrightarrow> \<exists>t. env s t \<and> env t s' \<and> log_view t c i = x" by simp_all
  qed (erule put del noaba [OF grows]; assumption | (drule same [OF disjI1] same [OF disjI2 [OF disjI1]]
        same [OF disjI2 [OF disjI2]], simp add: refl))+
qed

lemma log_store_laws: "store_laws (log_store rival) log_world log_view prefix"
  by (rule log_store_laws_env) (auto intro: prefix_order.trans)

text \<open>The pause of the loop stays within its bounds and needs no wait at a zero backoff.\<close>

lemma pause_bounds:
  "pause p n w \<le> max_backoff p \<and> min (initial_backoff p) (min (max_backoff p) (2 ^ 64 - 1)) div 2 \<le> pause p n w"
proof -
  define factor :: nat where "factor = (if n < 32 then 2 ^ n else 2 ^ 32 - 1)"
  define cap where "cap = min (min (initial_backoff p * factor) duration_max) (max_backoff p)"
  define nanos where "nanos = min cap (2 ^ 64 - 1)"
  have nanos: "(if cap < 2 ^ 64 then cap else 2 ^ 64 - 1) = nanos"
    by (simp add: nanos_def min_def)
  have p: "pause p n w = (if nanos = 0 then 0 else nanos div 2 + unat w mod (nanos - nanos div 2 + 1))"
    unfolding pause_def Let_def factor_def [symmetric] cap_def [symmetric] nanos ..
  have "unat w mod (nanos - nanos div 2 + 1) \<le> nanos - nanos div 2"
    using mod_less_divisor [of "nanos - nanos div 2 + 1" "unat w"] by simp
  then have "nanos div 2 + unat w mod (nanos - nanos div 2 + 1) \<le> nanos" by linarith
  then have up: "pause p n w \<le> nanos" and lo: "nanos div 2 \<le> pause p n w"
    unfolding p by simp_all
  have "1 \<le> factor" by (simp add: factor_def)
  then have "initial_backoff p \<le> initial_backoff p * factor" by simp
  moreover have "(2 ^ 64 - 1 :: nat) \<le> duration_max" by (simp add: duration_max_def)
  ultimately have "min (initial_backoff p) (min (max_backoff p) (2 ^ 64 - 1)) \<le> nanos"
    unfolding nanos_def cap_def by (meson min.mono min.boundedI min.coboundedI1 min.coboundedI2 le_trans order_refl) 
  then have "min (initial_backoff p) (min (max_backoff p) (2 ^ 64 - 1)) div 2 \<le> pause p n w"
    using lo div_le_mono le_trans by blast
  moreover have "nanos \<le> max_backoff p" by (simp add: nanos_def cap_def)
  ultimately show ?thesis using up by simp
qed

text \<open>A collection of numbers, and a rival that stores 2 right after the first read.\<close>

definition number_repo :: "(doc_log \<Rightarrow> doc_log) \<Rightarrow> (doc_log, unit, nat) repo" where
  "number_repo rival =
     \<lparr>repo_docs = log_store rival, repo_collection = ''jobs'', repo_options = (),
      repo_retry = cas_policy_default,
      repo_encode = (\<lambda>n. Inr (JArray (replicate n JNull))),
      repo_decode = (\<lambda>j. case j of JArray xs \<Rightarrow> Inr (length xs)
                        | _ \<Rightarrow> Inl \<lparr>err_kind = SerializationKind, err_message = ''not a number''\<rparr>)\<rparr>"

definition rival_first :: "doc_log \<Rightarrow> doc_log" where
  "rival_first l = (if l = [] then [(''jobs'', ''x'', Some (JArray [JNull, JNull]))] else [])"

definition increment :: "doc_log \<Rightarrow> nat \<Rightarrow> nat option \<Rightarrow> (StorageError, nat option) result \<times> nat" where
  "increment _ calls cur = (Inr (Some (case cur of None \<Rightarrow> 1 | Some n \<Rightarrow> n + 1)), Suc calls)"

lemmas run_simps =
  repo_update_def update_loop.simps repo_delete_if_def delete_loop.simps repo_get_def repo_write_def
  decode_found_def number_repo_def log_store_def log_view_def rival_first_def increment_def
  conflict_error_def cas_wait_def pause_def log_world_def cas_policy_default_def cas_policy_new_def
  duration_max_def Let_def

section \<open>Properties\<close>

text \<open>
  C1. \<open>Repo::update\<close> is one atomic read-modify-write, whatever other clients do in between: a stored
  value was computed by the closure from exactly the value it replaced (no lost update), and the
  write is the only change the call made; when the closure declines, and when the call gives up with
  a conflict, the call wrote nothing.
\<close>

theorem update_is_atomic:
  assumes "store_laws (repo_docs R) W view env"
    and "repo_update R W i f c s = (r, c', s')"
  shows "case r of
      Inr (Some (nxt, v)) \<Rightarrow>
        \<exists>st t u c0 x j. env s st \<and> env st t \<and> reads R (view t (repo_collection R) i) x \<and>
          f st c0 x = (Inr (Some nxt), c') \<and> repo_encode R nxt = Inr j \<and>
          view u = view_upd (view t) (repo_collection R) i (Some (v, j)) \<and> env u s'
    | Inr None \<Rightarrow>
        \<exists>t c0 x. env s t \<and> env t s' \<and> reads R (view t (repo_collection R) i) x \<and>
          f s' c0 x = (Inr None, c')
    | Inl e \<Rightarrow> err_kind e = Conflict \<longrightarrow> env s s'"
  using repo_update_outcome [OF assms] unfolding update_outcome_def .

theorem update_is_atomic_witness:
  "repo_update (number_repo rival_first) log_world ''x'' increment 0 [] =
     (Inr (Some (3, 1)), 2,
      [(''jobs'', ''x'', Some (JArray [JNull, JNull])),
       (''jobs'', ''x'', Some (JArray [JNull, JNull, JNull]))]) \<and>
   (\<exists>st t u c0 x j. prefix [] st \<and> prefix st t \<and>
      reads (number_repo rival_first) (log_view t ''jobs'' ''x'') x \<and>
      increment st c0 x = (Inr (Some 3), 2) \<and> repo_encode (number_repo rival_first) 3 = Inr j \<and>
      log_view u = view_upd (log_view t) ''jobs'' ''x'' (Some (1, j)) \<and>
      prefix u [(''jobs'', ''x'', Some (JArray [JNull, JNull])),
                (''jobs'', ''x'', Some (JArray [JNull, JNull, JNull]))])"
proof -
  have run: "repo_update (number_repo rival_first) log_world ''x'' increment 0 [] =
     (Inr (Some (3, 1)), 2,
      [(''jobs'', ''x'', Some (JArray [JNull, JNull])),
       (''jobs'', ''x'', Some (JArray [JNull, JNull, JNull]))])"
    by (simp add: run_simps)
  have L: "store_laws (repo_docs (number_repo rival_first)) log_world log_view prefix"
    by (simp add: number_repo_def log_store_laws)
  have c: "repo_collection (number_repo rival_first) = ''jobs''" by (simp add: number_repo_def)
  from update_is_atomic [OF L run] show ?thesis
    unfolding c sum.case option.case prod.case by (intro conjI run)
qed

text \<open>
  C15. \<open>Repo::delete_if\<close> removes a record only in the state its predicate accepted: the deleted
  value satisfied \<open>matches\<close> at the very moment of the delete; a \<open>false\<close> result and a conflict removed
  nothing.
\<close>

theorem delete_if_is_atomic:
  assumes "store_laws (repo_docs R) W view env"
    and "repo_delete_if R W i matches s = (r, s')"
  shows "case r of
      Inr True \<Rightarrow>
        \<exists>t u a. env s t \<and> reads R (view t (repo_collection R) i) (Some a) \<and> matches a \<and>
          view u = view_upd (view t) (repo_collection R) i None \<and> env u s'
    | Inr False \<Rightarrow> env s s'
    | Inl e \<Rightarrow> err_kind e = Conflict \<longrightarrow> env s s'"
  using delete_loop_outcome [OF assms(1) assms(2) [unfolded repo_delete_if_def]]
  unfolding delete_outcome_def .

theorem delete_if_is_atomic_witness:
  "repo_delete_if (number_repo (\<lambda>_. [])) log_world ''x'' (\<lambda>n. n = 1)
      [(''jobs'', ''x'', Some (JArray [JNull]))] =
     (Inr True, [(''jobs'', ''x'', Some (JArray [JNull])), (''jobs'', ''x'', None)]) \<and>
   (\<exists>t u a. prefix [(''jobs'', ''x'', Some (JArray [JNull]))] t \<and>
      reads (number_repo (\<lambda>_. [])) (log_view t ''jobs'' ''x'') (Some a) \<and> a = 1 \<and>
      log_view u = view_upd (log_view t) ''jobs'' ''x'' None \<and>
      prefix u [(''jobs'', ''x'', Some (JArray [JNull])), (''jobs'', ''x'', None)])"
proof -
  have run: "repo_delete_if (number_repo (\<lambda>_. [])) log_world ''x'' (\<lambda>n. n = 1)
      [(''jobs'', ''x'', Some (JArray [JNull]))] =
     (Inr True, [(''jobs'', ''x'', Some (JArray [JNull])), (''jobs'', ''x'', None)])"
    by (simp add: run_simps)
  have L: "store_laws (repo_docs (number_repo (\<lambda>_. []))) log_world log_view prefix"
    by (simp add: number_repo_def log_store_laws)
  have c: "repo_collection (number_repo (\<lambda>_. [])) = ''jobs''" by (simp add: number_repo_def)
  from delete_if_is_atomic [OF L run] show ?thesis
    unfolding c sum.case bool.case by (intro conjI run)
qed


end
