(* ===== verification/Leases.thy ===== *)
theory Leases
  imports Repo
begin

text \<open>
  Time-limited ownership with a fencing epoch: \<open>tinyagents-storage-kit/src/primitives/leases.rs\<close>.

  Each closure the code passes to \<open>Repo::update\<close> is a definition of its own (\<open>acquire_f\<close>, \<open>renew_f\<close>,
  \<open>release_f\<close>, \<open>acquire_with_f\<close>) and the operations compose it with \<open>repo_update\<close>.  The injectable
  clock reads the state of the world.  \<open>lease_write\<close> is the relation of all writes these closures
  can make to one record, and \<open>lease_path\<close> its closure: what any number of clients can do to a record
  through this interface (\<open>compact\<close>, which drops a record and with it the epoch history, apart).
  The derived serialization of the record is the codec of the repository.
\<close>

section \<open>Records\<close>

record Body =
  lb_holder :: string
  lb_epoch :: u64
  lb_expires_ms :: int
  lb_endpoint :: "string option"
  lb_released :: bool

record LeaseRecord =
  lr_holder :: string
  lr_endpoint :: "string option"
  lr_epoch :: u64
  lr_expires_ms :: int
  lr_released :: bool

definition lease_record_is_live :: "LeaseRecord \<Rightarrow> int \<Rightarrow> bool" where
  "lease_record_is_live r now_ms \<longleftrightarrow> \<not> lr_released r \<and> now_ms < lr_expires_ms r"

definition lease_record_from_body :: "Body \<Rightarrow> LeaseRecord" where
  "lease_record_from_body b =
     \<lparr>lr_holder = lb_holder b, lr_endpoint = lb_endpoint b, lr_epoch = lb_epoch b,
      lr_expires_ms = lb_expires_ms b, lr_released = lb_released b\<rparr>"

record Acquire =
  aq_owner :: string
  aq_key :: string
  aq_holder :: string
  aq_ttl_ms :: int
  aq_endpoint :: "string option"
  aq_held_epoch :: "u64 option"

record Lease =
  le_id :: string
  le_holder :: string
  le_epoch :: u64
  le_expires_ms :: int
  le_endpoint :: "string option"

datatype Acquisition = Granted Lease bool | Held LeaseRecord

definition lease_from_body :: "string \<Rightarrow> Body \<Rightarrow> Lease" where
  "lease_from_body i b =
     \<lparr>le_id = i, le_holder = lb_holder b, le_epoch = lb_epoch b, le_expires_ms = lb_expires_ms b,
      le_endpoint = lb_endpoint b\<rparr>"

text \<open>The handle; \<open>lz_digest\<close> and \<open>lz_key_new\<close> are the third-party functions of \<open>composite_key\<close>.\<close>

record ('s, 'o) leases =
  lz_repo :: "('s, 'o, Body) repo"
  lz_clock :: "'s \<Rightarrow> u64"
  lz_digest :: "string \<Rightarrow> string"
  lz_key_new :: "string \<Rightarrow> (StorageError, string) result"

definition with_clock :: "('s \<Rightarrow> u64) \<Rightarrow> ('s, 'o) leases \<Rightarrow> ('s, 'o) leases" where
  "with_clock clock L = L\<lparr>lz_clock := clock\<rparr>"

definition with_retry :: "CasRetryPolicy \<Rightarrow> ('s, 'o) leases \<Rightarrow> ('s, 'o) leases" where
  "with_retry retry L = L\<lparr>lz_repo := (lz_repo L)\<lparr>repo_retry := retry\<rparr>\<rparr>"

definition lease_id :: "('s, 'o) leases \<Rightarrow> string \<Rightarrow> string \<Rightarrow> (StorageError, string) result" where
  "lease_id L owner key = composite_key (lz_digest L) (lz_key_new L) [owner, key]"

section \<open>Time\<close>

definition I64_MAX :: int where "I64_MAX = 9223372036854775807"

definition lease_now :: "('s \<Rightarrow> u64) \<Rightarrow> 's \<Rightarrow> (StorageError, int) result" where
  "lease_now clock s =
     (if uint (clock s) \<le> I64_MAX then Inr (uint (clock s))
      else Inl (invalid_input ''clock out of range''))"

definition deadline :: "('s \<Rightarrow> u64) \<Rightarrow> int \<Rightarrow> 's \<Rightarrow> (StorageError, int \<times> int) result" where
  "deadline clock ttl_ms s =
     (if ttl_ms \<le> 0 then Inl (invalid_input ''a lease ttl must be positive'')
      else result_bind (lease_now clock s)
        (\<lambda>now. if now + ttl_ms \<le> I64_MAX then Inr (now, now + ttl_ms)
                else Inl (invalid_input ''lease ttl out of range'')))"

section \<open>The closures\<close>

definition next_epoch :: "Body \<Rightarrow> (StorageError, u64) result" where
  "next_epoch b =
     (case checked_add (lb_epoch b) 1 of
        Some e \<Rightarrow> Inr e
      | None \<Rightarrow> Inl (backend_error ''lease epoch overflow''))"

definition acquire_f ::
  "('s \<Rightarrow> u64) \<Rightarrow> string \<Rightarrow> int \<Rightarrow> 's \<Rightarrow> unit \<Rightarrow> Body option \<Rightarrow> (StorageError, Body option) result \<times> unit" where
  "acquire_f clock holder ttl_ms s c current =
     (result_bind (deadline clock ttl_ms s) (\<lambda>(now, expires_ms).
        let grant = (\<lambda>epoch. Inr (Some \<lparr>lb_holder = holder, lb_epoch = epoch, lb_expires_ms = expires_ms,
                                   lb_endpoint = None, lb_released = False\<rparr>)) in
        case current of
          None \<Rightarrow> grant 1
        | Some lease \<Rightarrow>
            if lb_expires_ms lease > now \<and> \<not> lb_released lease
            then if lb_holder lease = holder then grant (lb_epoch lease) else Inr None
            else result_bind (next_epoch lease) grant), c)"

definition owns_tenure :: "string \<Rightarrow> u64 \<Rightarrow> int \<Rightarrow> Body \<Rightarrow> bool" where
  "owns_tenure holder epoch now lease \<longleftrightarrow>
     lb_holder lease = holder \<and> lb_epoch lease = epoch \<and> lb_expires_ms lease > now \<and>
     \<not> lb_released lease"

definition renew_f ::
  "('s \<Rightarrow> u64) \<Rightarrow> string \<Rightarrow> u64 \<Rightarrow> int \<Rightarrow> 's \<Rightarrow> unit \<Rightarrow> Body option
    \<Rightarrow> (StorageError, Body option) result \<times> unit" where
  "renew_f clock holder epoch ttl_ms s c current =
     (result_bind (deadline clock ttl_ms s) (\<lambda>(now, expires_ms).
        Inr (case current of
               None \<Rightarrow> None
             | Some lease \<Rightarrow>
                 if owns_tenure holder epoch now lease then Some (lease\<lparr>lb_expires_ms := expires_ms\<rparr>)
                 else None)), c)"

definition release_f ::
  "string \<Rightarrow> u64 \<Rightarrow> int \<Rightarrow> 's \<Rightarrow> unit \<Rightarrow> Body option \<Rightarrow> (StorageError, Body option) result \<times> unit" where
  "release_f holder epoch now s c current =
     (Inr (case current of
             None \<Rightarrow> None
           | Some lease \<Rightarrow>
               if owns_tenure holder epoch now lease
               then Some (lease\<lparr>lb_expires_ms := now, lb_released := True\<rparr>) else None), c)"

text \<open>The variables the closure of \<open>acquire_with\<close> captures.\<close>

record acquire_vars =
  av_unclean :: bool
  av_seen :: "Body option"
  av_attempts :: u32

definition acquire_with_f ::
  "('s \<Rightarrow> u64) \<Rightarrow> Acquire \<Rightarrow> 's \<Rightarrow> acquire_vars \<Rightarrow> Body option
    \<Rightarrow> (StorageError, Body option) result \<times> acquire_vars" where
  "acquire_with_f clock request s c current =
     (case deadline clock (aq_ttl_ms request) s of
        Inl e \<Rightarrow> (Inl e, c)
      | Inr (now, expires_ms) \<Rightarrow>
          (let raced = (av_attempts c > 0);
               c1 = \<lparr>av_unclean = False, av_seen = None, av_attempts = av_attempts c + 1\<rparr>;
               holder = aq_holder request;
               grant = (\<lambda>epoch unclean.
                 (Inr (Some \<lparr>lb_holder = holder, lb_epoch = epoch, lb_expires_ms = expires_ms,
                        lb_endpoint = aq_endpoint request, lb_released = False\<rparr>),
                  c1\<lparr>av_unclean := unclean\<rparr>))
           in case current of
                None \<Rightarrow> grant 1 False
              | Some found \<Rightarrow>
                  (let live = (lb_expires_ms found > now \<and> \<not> lb_released found) in
                   if live \<and> lb_holder found = holder \<and> aq_held_epoch request = Some (lb_epoch found)
                   then grant (lb_epoch found) False
                   else if live \<and> (lb_holder found \<noteq> holder \<or> raced \<or> aq_held_epoch request \<noteq> None)
                   then (Inr None, c1\<lparr>av_seen := current\<rparr>)
                   else (case next_epoch found of
                           Inl e \<Rightarrow> (Inl e, c1)
                         | Inr epoch \<Rightarrow> grant epoch (\<not> lb_released found)))))"

section \<open>Operations\<close>

definition acquire ::
  "('s, 'o) leases \<Rightarrow> 's world \<Rightarrow> string \<Rightarrow> string \<Rightarrow> string \<Rightarrow> int \<Rightarrow> 's
    \<Rightarrow> (StorageError, Lease option) result \<times> 's" where
  "acquire L W owner key holder ttl_ms s =
     (case lease_id L owner key of
        Inl e \<Rightarrow> (Inl e, s)
      | Inr i \<Rightarrow>
          (case repo_update (lz_repo L) W i (acquire_f (lz_clock L) holder ttl_ms) () s of
             (Inl e, _, s') \<Rightarrow> (Inl e, s')
           | (Inr stored, _, s') \<Rightarrow> (Inr (map_option (\<lambda>(b, _). lease_from_body i b) stored), s')))"

definition renew ::
  "('s, 'o) leases \<Rightarrow> 's world \<Rightarrow> string \<Rightarrow> string \<Rightarrow> string \<Rightarrow> u64 \<Rightarrow> int \<Rightarrow> 's
    \<Rightarrow> (StorageError, Lease option) result \<times> 's" where
  "renew L W owner key holder epoch ttl_ms s =
     (case lease_id L owner key of
        Inl e \<Rightarrow> (Inl e, s)
      | Inr i \<Rightarrow>
          (case repo_update (lz_repo L) W i (renew_f (lz_clock L) holder epoch ttl_ms) () s of
             (Inl e, _, s') \<Rightarrow> (Inl e, s')
           | (Inr stored, _, s') \<Rightarrow> (Inr (map_option (\<lambda>(b, _). lease_from_body i b) stored), s')))"

definition release ::
  "('s, 'o) leases \<Rightarrow> 's world \<Rightarrow> string \<Rightarrow> string \<Rightarrow> string \<Rightarrow> u64 \<Rightarrow> 's
    \<Rightarrow> (StorageError, bool) result \<times> 's" where
  "release L W owner key holder epoch s =
     (case lease_id L owner key of
        Inl e \<Rightarrow> (Inl e, s)
      | Inr i \<Rightarrow>
          (case lease_now (lz_clock L) s of
             Inl e \<Rightarrow> (Inl e, s)
           | Inr now \<Rightarrow>
               (case repo_update (lz_repo L) W i (release_f holder epoch now) () s of
                  (Inl e, _, s') \<Rightarrow> (Inl e, s')
                | (Inr stored, _, s') \<Rightarrow> (Inr (stored \<noteq> None), s'))))"

definition current ::
  "('s, 'o) leases \<Rightarrow> string \<Rightarrow> string \<Rightarrow> 's \<Rightarrow> (StorageError, Lease option) result \<times> 's" where
  "current L owner key s =
     (case lease_id L owner key of
        Inl e \<Rightarrow> (Inl e, s)
      | Inr i \<Rightarrow>
          (case lease_now (lz_clock L) s of
             Inl e \<Rightarrow> (Inl e, s)
           | Inr now \<Rightarrow>
               (case repo_get (lz_repo L) i s of
                  (Inl e, s') \<Rightarrow> (Inl e, s')
                | (Inr None, s') \<Rightarrow> (Inr None, s')
                | (Inr (Some (v, b)), s') \<Rightarrow>
                    (Inr (if lb_expires_ms b > now \<and> \<not> lb_released b
                          then Some (lease_from_body i b) else None), s'))))"

definition acquire_with ::
  "('s, 'o) leases \<Rightarrow> 's world \<Rightarrow> Acquire \<Rightarrow> 's \<Rightarrow> (StorageError, Acquisition) result \<times> 's" where
  "acquire_with L W request s =
     (case lease_id L (aq_owner request) (aq_key request) of
        Inl e \<Rightarrow> (Inl e, s)
      | Inr i \<Rightarrow>
          (case repo_update (lz_repo L) W i (acquire_with_f (lz_clock L) request)
                  \<lparr>av_unclean = False, av_seen = None, av_attempts = 0\<rparr> s of
             (Inl e, _, s') \<Rightarrow> (Inl e, s')
           | (Inr (Some (b, _)), c, s') \<Rightarrow> (Inr (Granted (lease_from_body i b) (av_unclean c)), s')
           | (Inr None, c, s') \<Rightarrow>
               (case av_seen c of
                  Some b \<Rightarrow> (Inr (Held (lease_record_from_body b)), s')
                | None \<Rightarrow> (Inl (backend_error ''lease acquire declined without a live record''), s'))))"

definition inspect ::
  "('s, 'o) leases \<Rightarrow> string \<Rightarrow> string \<Rightarrow> 's \<Rightarrow> (StorageError, LeaseRecord option) result \<times> 's" where
  "inspect L owner key s =
     (case lease_id L owner key of
        Inl e \<Rightarrow> (Inl e, s)
      | Inr i \<Rightarrow>
          (case repo_get (lz_repo L) i s of
             (Inl e, s') \<Rightarrow> (Inl e, s')
           | (Inr found, s') \<Rightarrow>
               (Inr (map_option (\<lambda>(_, b). lease_record_from_body b) found), s')))"

definition compact ::
  "('s, 'o) leases \<Rightarrow> 's world \<Rightarrow> string \<Rightarrow> string \<Rightarrow> string \<Rightarrow> u64 \<Rightarrow> 's
    \<Rightarrow> (StorageError, bool) result \<times> 's" where
  "compact L W owner key holder epoch s =
     (case lease_id L owner key of
        Inl e \<Rightarrow> (Inl e, s)
      | Inr i \<Rightarrow>
          repo_delete_if (lz_repo L) W i (\<lambda>lease. lb_holder lease = holder \<and> lb_epoch lease = epoch) s)"

section \<open>The writes to one record\<close>

inductive lease_write :: "('s \<Rightarrow> u64) \<Rightarrow> 's \<Rightarrow> Body option \<Rightarrow> Body \<Rightarrow> bool" for clock where
  acquires: "acquire_f clock h ttl s () x = (Inr (Some b), ()) \<Longrightarrow> lease_write clock s x b"
| renews: "renew_f clock h e ttl s () x = (Inr (Some b), ()) \<Longrightarrow> lease_write clock s x b"
| releases: "release_f h e now s () x = (Inr (Some b), ()) \<Longrightarrow> lease_write clock s x b"
| acquires_with: "acquire_with_f clock req s c x = (Inr (Some b), c') \<Longrightarrow> lease_write clock s x b"

definition lease_path :: "('s \<Rightarrow> u64) \<Rightarrow> Body option \<Rightarrow> Body option \<Rightarrow> bool" where
  "lease_path clock = (\<lambda>x y. \<exists>s b. lease_write clock s x b \<and> y = Some b)\<^sup>*\<^sup>*"

text \<open>The record of one lease in a store, as the interface reads it.\<close>

definition lease_at ::
  "('s, 'o) leases \<Rightarrow> ('s \<Rightarrow> docs_view) \<Rightarrow> string \<Rightarrow> 's \<Rightarrow> Body option \<Rightarrow> bool" where
  "lease_at L view i s = reads (lz_repo L) (view s (repo_collection (lz_repo L)) i)"

text \<open>The rule of \<open>acquire_with\<close> as documented: six clauses, the first that applies.\<close>

datatype takeover = Grant u64 bool | Overflow | Stand

definition takeover_rule ::
  "string \<Rightarrow> u64 option \<Rightarrow> bool \<Rightarrow> int \<Rightarrow> Body option \<Rightarrow> takeover" where
  "takeover_rule holder held_epoch raced now rec =
     (case rec of
        None \<Rightarrow> Grant 1 False
      | Some b \<Rightarrow>
          (let live = lease_record_is_live (lease_record_from_body b) now;
               bump = (\<lambda>unclean. if lb_epoch b = - 1 then Overflow else Grant (lb_epoch b + 1) unclean)
           in if live \<and> lb_holder b = holder \<and> held_epoch = Some (lb_epoch b) then Grant (lb_epoch b) False
              else if lb_released b then bump False
              else if live \<and> lb_holder b = holder \<and> held_epoch = None \<and> \<not> raced then bump True
              else if now \<ge> lb_expires_ms b then bump True
              else Stand))"

section \<open>Epochs along the history of a record\<close>

lemma next_epoch_Inr: "next_epoch b = Inr e \<Longrightarrow> unat e = unat (lb_epoch b) + 1"
  by (auto simp: next_epoch_def split: option.splits dest!: checked_add_Some)

lemma next_epoch_eq:
  "next_epoch b = (if lb_epoch b = - 1 then Inl (backend_error ''lease epoch overflow'')
     else Inr (lb_epoch b + 1))"
proof -
  have "lb_epoch b = - 1 \<longleftrightarrow> unat (lb_epoch b) = unat (- 1 :: u64)"
    by (metis word_eq_iff_unsigned)
  then have "unat (lb_epoch b) + 1 < 2 ^ 64 \<longleftrightarrow> lb_epoch b \<noteq> - 1"
    using unat_max_word [where ?'a = 64] unat_bound [of "lb_epoch b"] by simp linarith
  then show ?thesis by (auto simp: next_epoch_def checked_add_def)
qed

text \<open>A new body continues the tenure or opens the next one.\<close>

definition continues :: "Body \<Rightarrow> Body \<Rightarrow> bool" where
  "continues a b \<longleftrightarrow> lb_epoch b = lb_epoch a \<and> lb_holder b = lb_holder a \<or>
     unat (lb_epoch b) = unat (lb_epoch a) + 1"

lemma acquire_f_Some:
  assumes "acquire_f clock h ttl s c x = (Inr (Some b), c')"
  obtains now where "lease_now clock s = Inr now" "lb_holder b = h" "lb_expires_ms b = now + ttl"
    "ttl > 0" "\<not> lb_released b"
    "case x of None \<Rightarrow> lb_epoch b = 1
     | Some a \<Rightarrow> if lb_expires_ms a > now \<and> \<not> lb_released a
                then lb_holder a = h \<and> lb_epoch b = lb_epoch a
                else unat (lb_epoch b) = unat (lb_epoch a) + 1"
proof -
  obtain now e where d: "deadline clock ttl s = Inr (now, e)"
    using assms by (cases "deadline clock ttl s") (auto simp: acquire_f_def)
  have now: "lease_now clock s = Inr now" "ttl > 0" "e = now + ttl"
    using d by (auto simp: deadline_def result_bind_Inr_iff split: if_splits)
  have b: "lb_holder b = h" "lb_expires_ms b = e" "\<not> lb_released b"
    using assms d
    by (auto simp: acquire_f_def Let_def result_bind_Inr_iff split: option.splits if_splits)
  have "case x of None \<Rightarrow> lb_epoch b = 1
     | Some a \<Rightarrow> if lb_expires_ms a > now \<and> \<not> lb_released a
                then lb_holder a = h \<and> lb_epoch b = lb_epoch a
                else unat (lb_epoch b) = unat (lb_epoch a) + 1"
    using assms d
    by (auto simp: acquire_f_def Let_def result_bind_Inr_iff
        split: option.splits if_splits dest!: next_epoch_Inr)
  with now b show thesis by (intro that [of now]) simp_all
qed

lemma acquire_with_f_Some:
  assumes "acquire_with_f clock req s c x = (Inr (Some b), c')"
  shows "lb_holder b = aq_holder req \<and>
    (case x of None \<Rightarrow> lb_epoch b = 1 | Some a \<Rightarrow> continues a b)"
proof (cases x)
  case None
  then show ?thesis
    using assms by (auto simp: acquire_with_f_def Let_def split: sum.splits)
next
  case (Some a)
  then show ?thesis
    using assms
    by (auto simp: acquire_with_f_def Let_def continues_def
        split: sum.splits if_splits dest!: next_epoch_Inr)
qed

lemma lease_write_continues:
  assumes "lease_write clock s x b"
  shows "case x of None \<Rightarrow> lb_epoch b = 1 | Some a \<Rightarrow> continues a b"
  using assms
proof cases
  case (acquires h ttl)
  then show ?thesis
    by (elim acquire_f_Some) (auto simp: continues_def split: option.splits if_splits)
next
  case (renews h e ttl)
  then show ?thesis
    by (auto simp: renew_f_def owns_tenure_def continues_def result_bind_Inr_iff
        split: option.splits if_splits prod.splits)
next
  case (releases h e now)
  then show ?thesis
    by (auto simp: release_f_def owns_tenure_def continues_def split: option.splits if_splits)
next
  case (acquires_with req c c')
  show ?thesis using acquire_with_f_Some [OF acquires_with] by blast
qed

text \<open>Along a path a tenure ends only by a higher epoch.\<close>

definition supersedes :: "Body option \<Rightarrow> Body option \<Rightarrow> bool" where
  "supersedes x y \<longleftrightarrow> (\<forall>a. x = Some a \<longrightarrow>
     (\<exists>b. y = Some b \<and> (unat (lb_epoch a) < unat (lb_epoch b) \<or>
                        lb_epoch b = lb_epoch a \<and> lb_holder b = lb_holder a)))"

lemma supersedes_refl: "supersedes x x"
  by (simp add: supersedes_def)

lemma supersedes_trans: "supersedes x y \<Longrightarrow> supersedes y z \<Longrightarrow> supersedes x z"
  unfolding supersedes_def by fastforce

lemma lease_write_supersedes: "lease_write clock s x b \<Longrightarrow> supersedes x (Some b)"
  by (drule lease_write_continues) (auto simp: supersedes_def continues_def split: option.splits)

lemma lease_path_supersedes:
  assumes "lease_path clock x y"
  shows "supersedes x y"
  using assms unfolding lease_path_def
proof (induction rule: rtranclp_induct)
  case base
  show ?case by (rule supersedes_refl)
next
  case (step y z)
  then show ?case by (auto intro: supersedes_trans [OF _ lease_write_supersedes])
qed

lemma lease_path_trans: "lease_path clock x y \<Longrightarrow> lease_path clock y z \<Longrightarrow> lease_path clock x z"
  unfolding lease_path_def by (rule rtranclp_trans)

lemma lease_path_snoc: "lease_path clock x y \<Longrightarrow> lease_write clock s y b \<Longrightarrow> lease_path clock x (Some b)"
  unfolding lease_path_def by (rule rtranclp.rtrancl_into_rtrancl) auto

section \<open>The operations on the store\<close>

text \<open>
  \<open>shared_record L W view env i\<close>: the store keeps its laws, the codec reads back what it wrote, and
  other clients touch the record \<open>i\<close> through the lease interface only.
\<close>

definition shared_record ::
  "('s, 'o) leases \<Rightarrow> 's world \<Rightarrow> ('s \<Rightarrow> docs_view) \<Rightarrow> ('s \<Rightarrow> 's \<Rightarrow> bool) \<Rightarrow> string \<Rightarrow> bool" where
  "shared_record L W view env i \<longleftrightarrow>
     store_laws (repo_docs (lz_repo L)) W view env \<and>
     (\<forall>b j. repo_encode (lz_repo L) b = Inr j \<longrightarrow> repo_decode (lz_repo L) j = Inr b) \<and>
     (\<forall>s s' x. env s s' \<longrightarrow> lease_at L view i s x \<longrightarrow>
        (\<exists>y. lease_at L view i s' y \<and> lease_path (lz_clock L) x y))"

lemma reads_unique: "reads R d a \<Longrightarrow> reads R d b \<Longrightarrow> a = b"
  by (auto simp: reads_def split: option.splits)

text \<open>A stored body: the record it replaced, and the record left behind.\<close>

lemma lease_update_stored:
  assumes sh: "shared_record L W view env i"
    and upd: "repo_update (lz_repo L) W i f c s = (Inr (Some (b, v)), c', s')"
  obtains st t c0 x y where "env s st" "env st t" "lease_at L view i t x"
    "f st c0 x = (Inr (Some b), c')" "lease_at L view i s' y" "lease_path (lz_clock L) (Some b) y"
proof -
  note sh = sh [unfolded shared_record_def]
  obtain st t u c0 x j where at: "env s st" "env st t"
    "reads (lz_repo L) (view t (repo_collection (lz_repo L)) i) x"
    "f st c0 x = (Inr (Some b), c')" "repo_encode (lz_repo L) b = Inr j"
    "view u = view_upd (view t) (repo_collection (lz_repo L)) i (Some (v, j))" "env u s'"
    using repo_update_outcome [OF sh [THEN conjunct1] upd] unfolding update_outcome_def by (simp, blast)
  have "lease_at L view i u (Some b)"
    using at(5,6) sh by (simp add: lease_at_def reads_def view_upd_def)
  then obtain y where "lease_at L view i s' y" "lease_path (lz_clock L) (Some b) y"
    using sh at(7) by blast
  then show thesis
    using that [OF at(1,2)] at(3,4) by (simp add: lease_at_def)
qed

lemma acquire_granted:
  assumes sh: "\<And>i. lease_id L owner key = Inr i \<Longrightarrow> shared_record L W view env i"
    and run: "acquire L W owner key h ttl s = (Inr (Some l), s')"
  obtains i b st x y t where "lease_id L owner key = Inr i" "l = lease_from_body i b"
    "env s st" "env st t" "lease_at L view i t x"
    "acquire_f (lz_clock L) h ttl st () x = (Inr (Some b), ())"
    "lease_at L view i s' y" "lease_path (lz_clock L) (Some b) y"
proof -
  obtain i where i: "lease_id L owner key = Inr i"
    using run by (auto simp: acquire_def split: sum.splits)
  obtain b v c' where upd:
    "repo_update (lz_repo L) W i (acquire_f (lz_clock L) h ttl) () s = (Inr (Some (b, v)), c', s')"
    and l: "l = lease_from_body i b"
    using run i by (auto simp: acquire_def split: prod.splits sum.splits)
  from lease_update_stored [OF sh [OF i] upd] show thesis
    using that [OF i l] by (metis old.unit.exhaust)
qed

text \<open>A later reading of the record supersedes an earlier one.\<close>

lemma later_reading:
  assumes "shared_record L W view env i" "env s t" "lease_at L view i s x" "lease_at L view i t y"
  shows "lease_path (lz_clock L) x y"
proof -
  obtain z where "lease_at L view i t z" "lease_path (lz_clock L) x z"
    using assms(1-3) unfolding shared_record_def by blast
  then show ?thesis using assms(4) reads_unique unfolding lease_at_def by blast
qed

lemma epochs_between_grants:
  assumes sh: "\<And>i. lease_id L owner key = Inr i \<Longrightarrow> shared_record L W view env i"
    and "acquire L W owner key h1 ttl1 s0 = (Inr (Some l1), s1)"
    and "env s1 s2"
    and "acquire L W owner key h2 ttl2 s2 = (Inr (Some l2), s3)"
  shows "unat (le_epoch l1) < unat (le_epoch l2) \<or> le_epoch l2 = le_epoch l1 \<and> h2 = h1"
proof -
  obtain i b1 st1 x1 y1 t1 where 1: "lease_id L owner key = Inr i" "l1 = lease_from_body i b1"
    "acquire_f (lz_clock L) h1 ttl1 st1 () x1 = (Inr (Some b1), ())"
    "lease_at L view i s1 y1" "lease_path (lz_clock L) (Some b1) y1"
    using acquire_granted [OF sh assms(2)] .
  obtain i' b2 st2 x2 y2 t2 where 2: "lease_id L owner key = Inr i'" "l2 = lease_from_body i' b2"
    "env s2 st2" "env st2 t2" "lease_at L view i' t2 x2"
    "acquire_f (lz_clock L) h2 ttl2 st2 () x2 = (Inr (Some b2), ())"
    using acquire_granted [OF sh assms(4)] .
  have ii: "i' = i" using 1(1) 2(1) by simp
  note sh = sh [OF 1(1)]
  note tr = env_trans [OF sh [unfolded shared_record_def, THEN conjunct1]]
  have "lease_path (lz_clock L) y1 x2"
    using later_reading [OF sh tr [OF assms(3) tr [OF 2(3,4)]] 1(4)] 2(5) ii by simp
  then have "lease_path (lz_clock L) (Some b1) (Some b2)"
    using lease_path_snoc [OF lease_path_trans [OF 1(5)] lease_write.acquires [OF 2(6)]] by simp
  from lease_path_supersedes [OF this] have
    "unat (lb_epoch b1) < unat (lb_epoch b2) \<or> lb_epoch b2 = lb_epoch b1 \<and> lb_holder b2 = lb_holder b1"
    by (simp add: supersedes_def)
  moreover have "lb_holder b1 = h1" "lb_holder b2 = h2"
    using 1(3) 2(6) by (elim acquire_f_Some; simp)+
  ultimately show ?thesis unfolding 1(2) 2(2) lease_from_body_def Lease.simps by simp
qed

lemma acquire_holder:
  assumes "acquire L W owner key h ttl s = (Inr (Some l), s')"
    "\<And>i. lease_id L owner key = Inr i \<Longrightarrow> shared_record L W view env i"
  shows "le_holder l = h"
  by (rule acquire_granted [OF assms(2,1)]) (auto simp: lease_from_body_def elim: acquire_f_Some)

section \<open>Properties\<close>


text \<open>
  A lost tenure stays lost: once another grant has moved the epoch on, the earlier holder's
  release is never reported as done, whatever happens in between, so it cannot end the new tenure.
\<close>

theorem stale_release_declined:
  assumes "\<And>i. lease_id L owner key = Inr i \<Longrightarrow> shared_record L W view env i"
    and "acquire L W owner key h1 ttl1 s0 = (Inr (Some l1), s1)"
    and "env s1 s2"
    and "acquire L W owner key h2 ttl2 s2 = (Inr (Some l2), s3)"
    and "le_epoch l2 \<noteq> le_epoch l1"
    and "env s3 s4"
    and "release L W owner key h1 (le_epoch l1) s4 = (r, s5)"
  shows "r \<noteq> Inr True"
proof
  assume r: "r = Inr True"
  have less: "unat (le_epoch l1) < unat (le_epoch l2)"
    using epochs_between_grants [OF assms(1-4)] assms(5) by simp
  obtain i b2 y2 where 2: "lease_id L owner key = Inr i" "l2 = lease_from_body i b2"
    "lease_at L view i s3 y2" "lease_path (lz_clock L) (Some b2) y2"
    by (rule acquire_granted [OF assms(1,4)])
  note sh = assms(1) [OF 2(1)]
  note tr = env_trans [OF sh [unfolded shared_record_def, THEN conjunct1]]
  obtain now b v c' where upd: "repo_update (lz_repo L) W i (release_f h1 (le_epoch l1) now) () s4 =
      (Inr (Some (b, v)), c', s5)"
    using assms(7) 2(1) r by (auto simp: release_def split: prod.splits sum.splits)
  obtain st t x where 3: "env s4 st" "env st t" "lease_at L view i t x"
    "release_f h1 (le_epoch l1) now st () x = (Inr (Some b), ())"
    using lease_update_stored [OF sh upd] by (metis old.unit.exhaust)
  obtain a where a: "x = Some a" "lb_epoch a = le_epoch l1"
    using 3(4) by (auto simp: release_f_def owns_tenure_def split: option.splits if_splits)
  have "lease_path (lz_clock L) (Some b2) (Some a)"
    using lease_path_trans [OF 2(4) later_reading [OF sh tr [OF assms(6) tr [OF 3(1,2)]] 2(3) 3(3)]]
    a(1) by simp
  from lease_path_supersedes [OF this] have "unat (lb_epoch b2) \<le> unat (lb_epoch a)"
    by (auto simp: supersedes_def)
  then show False using less a(2) 2(2) by (simp add: lease_from_body_def)
qed

text \<open>
  C32. \<open>acquire_with\<close> follows its documented rule: on every record, epoch and clock the closure's
  branches give what the first applicable of the six clauses gives, the takeover being unclean
  exactly when the clause says so.
\<close>

theorem acquire_with_follows_rule:
  assumes "deadline clock (aq_ttl_ms req) s = Inr (now, expires_ms)"
  shows "acquire_with_f clock req s c rec =
    (let c1 = \<lparr>av_unclean = False, av_seen = None, av_attempts = av_attempts c + 1\<rparr> in
     case takeover_rule (aq_holder req) (aq_held_epoch req) (av_attempts c > 0) now rec of
       Grant epoch unclean \<Rightarrow>
         (Inr (Some \<lparr>lb_holder = aq_holder req, lb_epoch = epoch, lb_expires_ms = expires_ms,
                lb_endpoint = aq_endpoint req, lb_released = False\<rparr>), c1\<lparr>av_unclean := unclean\<rparr>)
     | Overflow \<Rightarrow> (Inl (backend_error ''lease epoch overflow''), c1)
     | Stand \<Rightarrow> (Inr None, c1\<lparr>av_seen := rec\<rparr>))"
proof (cases rec)
  case None
  then show ?thesis
    by (simp add: assms acquire_with_f_def takeover_rule_def Let_def)
next
  case (Some b)
  have nx: "next_epoch b = (if lb_epoch b = - 1 then Inl (backend_error ''lease epoch overflow'')
      else Inr (lb_epoch b + 1))"
    by (rule next_epoch_eq)
  show ?thesis
    by (auto simp: assms acquire_with_f_def takeover_rule_def Let_def Some nx
        lease_record_is_live_def lease_record_from_body_def)
qed

section \<open>A concrete lease\<close>

text \<open>A clock of ten milliseconds per write, and a codec for records with small numbers.\<close>

definition demo_encode :: "Body \<Rightarrow> (StorageError, json) result" where
  "demo_encode b =
     (if 0 \<le> lb_expires_ms b \<and> lb_endpoint b = None
      then Inr (JArray [JString (lb_holder b), JArray (replicate (unat (lb_epoch b)) JNull),
                        JArray (replicate (nat (lb_expires_ms b)) JNull), JBool (lb_released b)])
      else Inl (backend_error ''out of range''))"

definition demo_decode :: "json \<Rightarrow> (StorageError, Body) result" where
  "demo_decode j =
     (case j of
        JArray [JString h, JArray es, JArray xs, JBool r] \<Rightarrow>
          Inr \<lparr>lb_holder = h, lb_epoch = of_nat (length es), lb_expires_ms = int (length xs),
               lb_endpoint = None, lb_released = r\<rparr>
      | _ \<Rightarrow> Inl (backend_error ''not a lease''))"

definition demo_leases :: "(doc_log, unit) leases" where
  "demo_leases =
     \<lparr>lz_repo = \<lparr>repo_docs = log_store (\<lambda>_. []), repo_collection = ''tsd.leases'', repo_options = (),
        repo_retry = cas_policy_default, repo_encode = demo_encode, repo_decode = demo_decode\<rparr>,
      lz_clock = (\<lambda>l. of_nat (10 * length l)), lz_digest = (\<lambda>s. s), lz_key_new = Inr\<rparr>"

text \<open>Other clients append to the log, and to this record as the interface allows.\<close>

definition demo_env :: "doc_log \<Rightarrow> doc_log \<Rightarrow> bool" where
  "demo_env s s' \<longleftrightarrow> prefix s s' \<and>
     (\<forall>x. lease_at demo_leases log_view ''o/k'' s x \<longrightarrow>
        (\<exists>y. lease_at demo_leases log_view ''o/k'' s' y \<and> lease_path (lz_clock demo_leases) x y))"

lemma demo_env_refl: "demo_env s s"
  by (auto simp: demo_env_def lease_path_def)

lemma demo_shared: "lease_id demo_leases ''o'' ''k'' = Inr i \<Longrightarrow>
  shared_record demo_leases log_world log_view demo_env i"
proof -
  assume "lease_id demo_leases ''o'' ''k'' = Inr i"
  then have i: "i = ''o/k''"
    by (simp add: lease_id_def demo_leases_def composite_key_def encode_parts_def escape_char_def
        MAX_KEY_LEN_def)
  have "store_laws (log_store (\<lambda>_. [])) log_world log_view demo_env"
  proof (rule log_store_laws_env)
    show "demo_env s s" for s by (rule demo_env_refl)
    show "demo_env s u" if "demo_env s t" "demo_env t u" for s t u
      using that unfolding demo_env_def by (meson lease_path_trans prefix_order.trans)
    show "prefix s t" if "demo_env s t" for s t using that by (simp add: demo_env_def)
    show "demo_env s (s @ [])" for s using demo_env_refl by simp
  qed
  moreover have "demo_decode j = Inr b" if "demo_encode b = Inr j" for b j
    using that by (auto simp: demo_encode_def demo_decode_def split: if_splits)
  ultimately show ?thesis
    unfolding shared_record_def i
    by (auto simp: demo_env_def) (simp_all add: demo_leases_def)
qed

definition demo_entry :: "string \<Rightarrow> u64 \<Rightarrow> nat \<Rightarrow> string \<times> string \<times> json option" where
  "demo_entry h e x = (''tsd.leases'', ''o/k'',
     Some (JArray [JString h, JArray (replicate (unat e) JNull), JArray (replicate x JNull), JBool False]))"

lemmas lease_run_simps =
  run_simps acquire_def acquire_f_def release_def release_f_def owns_tenure_def lease_id_def
  demo_leases_def composite_key_def encode_parts_def escape_char_def MAX_KEY_LEN_def deadline_def
  lease_now_def I64_MAX_def demo_encode_def demo_decode_def demo_entry_def next_epoch_def
  checked_add_def lease_from_body_def

lemma demo_acquire_1:
  "acquire demo_leases log_world ''o'' ''k'' ''h1'' 5 [] =
     (Inr (Some \<lparr>le_id = ''o/k'', le_holder = ''h1'', le_epoch = 1, le_expires_ms = 5,
                le_endpoint = None\<rparr>), [demo_entry ''h1'' 1 5])"
  by (simp add: lease_run_simps)

lemma demo_acquire_3:
  "acquire demo_leases log_world ''o'' ''k'' ''h3'' 7 [demo_entry ''h1'' 1 5, demo_entry ''h2'' 2 15] =
     (Inr (Some \<lparr>le_id = ''o/k'', le_holder = ''h3'', le_epoch = 3, le_expires_ms = 27,
                le_endpoint = None\<rparr>),
      [demo_entry ''h1'' 1 5, demo_entry ''h2'' 2 15, demo_entry ''h3'' 3 27])"
  by (simp add: lease_run_simps)

text \<open>A second client took the lapsed lease over in between.\<close>

lemma demo_rival:
  "demo_env [demo_entry ''h1'' 1 5] [demo_entry ''h1'' 1 5, demo_entry ''h2'' 2 15]"
proof -
  have at1: "lease_at demo_leases log_view ''o/k'' [demo_entry ''h1'' 1 5]
      (Some \<lparr>lb_holder = ''h1'', lb_epoch = 1, lb_expires_ms = 5, lb_endpoint = None, lb_released = False\<rparr>)"
    by (simp add: lease_at_def reads_def lease_run_simps)
  have at2: "lease_at demo_leases log_view ''o/k'' [demo_entry ''h1'' 1 5, demo_entry ''h2'' 2 15]
      (Some \<lparr>lb_holder = ''h2'', lb_epoch = 2, lb_expires_ms = 15, lb_endpoint = None, lb_released = False\<rparr>)"
    by (simp add: lease_at_def reads_def lease_run_simps)
  have "acquire_f (lz_clock demo_leases) ''h2'' 5 [demo_entry ''h1'' 1 5] ()
      (Some \<lparr>lb_holder = ''h1'', lb_epoch = 1, lb_expires_ms = 5, lb_endpoint = None, lb_released = False\<rparr>) =
      (Inr (Some \<lparr>lb_holder = ''h2'', lb_epoch = 2, lb_expires_ms = 15, lb_endpoint = None,
        lb_released = False\<rparr>), ())"
    by (simp add: lease_run_simps)
  from lease_write.acquires [OF this] have "lease_path (lz_clock demo_leases)
      (Some \<lparr>lb_holder = ''h1'', lb_epoch = 1, lb_expires_ms = 5, lb_endpoint = None, lb_released = False\<rparr>)
      (Some \<lparr>lb_holder = ''h2'', lb_epoch = 2, lb_expires_ms = 15, lb_endpoint = None, lb_released = False\<rparr>)"
    by (intro lease_path_snoc) (simp_all add: lease_path_def)
  with at1 at2 show ?thesis
    unfolding demo_env_def by (auto simp: lease_at_def dest: reads_unique)
qed


theorem stale_release_declined_witness:
  "\<exists>r s. release demo_leases log_world ''o'' ''k'' ''h1'' 1
      [demo_entry ''h1'' 1 5, demo_entry ''h2'' 2 15, demo_entry ''h3'' 3 27] = (r, s) \<and> r \<noteq> Inr True"
proof -
  let ?s = "[demo_entry ''h1'' 1 5, demo_entry ''h2'' 2 15, demo_entry ''h3'' 3 27]"
  have run: "release demo_leases log_world ''o'' ''k'' ''h1'' 1 ?s = (Inr False, ?s)"
    by (simp add: lease_run_simps)
  have "(Inr False :: (StorageError, bool) result) \<noteq> Inr True"
    by (rule stale_release_declined [OF demo_shared demo_acquire_1 demo_rival demo_acquire_3 _
          demo_env_refl, unfolded Lease.simps, OF _ _ run]) simp_all
  with run show ?thesis by blast
qed

theorem acquire_with_follows_rule_witness:
  "takeover_rule ''h'' None False 20
     (Some \<lparr>lb_holder = ''h'', lb_epoch = 4, lb_expires_ms = 30, lb_endpoint = None,
        lb_released = False\<rparr>) = Grant 5 True \<and>
   acquire_with_f (\<lambda>_. 20) \<lparr>aq_owner = ''o'', aq_key = ''k'', aq_holder = ''h'', aq_ttl_ms = 50,
       aq_endpoint = Some ''e'', aq_held_epoch = None\<rparr> ()
     \<lparr>av_unclean = False, av_seen = None, av_attempts = 0\<rparr>
     (Some \<lparr>lb_holder = ''h'', lb_epoch = 4, lb_expires_ms = 30, lb_endpoint = None,
        lb_released = False\<rparr>) =
     (Inr (Some \<lparr>lb_holder = ''h'', lb_epoch = 5, lb_expires_ms = 70, lb_endpoint = Some ''e'',
        lb_released = False\<rparr>), \<lparr>av_unclean = True, av_seen = None, av_attempts = 1\<rparr>)"
proof -
  have d: "deadline (\<lambda>_. 20) (aq_ttl_ms \<lparr>aq_owner = ''o'', aq_key = ''k'', aq_holder = ''h'', aq_ttl_ms = 50,
       aq_endpoint = Some ''e'', aq_held_epoch = None\<rparr>) () = Inr (20, 70)"
    by (simp add: deadline_def lease_now_def I64_MAX_def)
  show ?thesis
    by (simp add: acquire_with_follows_rule [OF d] takeover_rule_def lease_record_is_live_def
        lease_record_from_body_def Let_def)
qed

end
