(* ===== verification/Counters.thy ===== *)
theory Counters
  imports Repo
begin

text \<open>
  Named monotonic counters: \<open>tinyagents-storage-kit/src/primitives/counters.rs\<close>.  Each operation is
  one \<open>repo_update\<close> with the closure the code passes (\<open>next_f\<close>, \<open>set_at_least_f\<close>).  \<open>counter_shared\<close>
  is what the code relies on: the store's laws, a codec that reads back what it wrote, and other
  clients that move the counter through this interface only (\<open>counter_write\<close>).
\<close>

section \<open>Operations\<close>

definition COUNTER_MAX_VALUE :: nat where "COUNTER_MAX_VALUE = 2 ^ 63 - 1"

record CounterBody =
  cb_value :: u64

record ('s, 'o) counters =
  cn_repo :: "('s, 'o, CounterBody) repo"
  cn_digest :: "string \<Rightarrow> string"
  cn_key_new :: "string \<Rightarrow> (StorageError, string) result"

definition counter_id :: "('s, 'o) counters \<Rightarrow> string \<Rightarrow> string \<Rightarrow> (StorageError, string) result" where
  "counter_id C owner name = composite_key (cn_digest C) (cn_key_new C) [owner, name]"

definition next_f ::
  "'s \<Rightarrow> unit \<Rightarrow> CounterBody option \<Rightarrow> (StorageError, CounterBody option) result \<times> unit" where
  "next_f s c body =
     (case (case body of
              None \<Rightarrow> Some 1
            | Some b \<Rightarrow>
                (case checked_add (cb_value b) 1 of
                   None \<Rightarrow> None
                 | Some v \<Rightarrow> if unat v \<le> COUNTER_MAX_VALUE then Some v else None)) of
        Some v \<Rightarrow> Inr (Some \<lparr>cb_value = v\<rparr>)
      | None \<Rightarrow> Inl (invalid_input ''counter overflow''), c)"

definition counter_next ::
  "('s, 'o) counters \<Rightarrow> 's world \<Rightarrow> string \<Rightarrow> string \<Rightarrow> 's \<Rightarrow> (StorageError, u64) result \<times> 's" where
  "counter_next C W owner name s =
     (case counter_id C owner name of
        Inl e \<Rightarrow> (Inl e, s)
      | Inr i \<Rightarrow>
          (case repo_update (cn_repo C) W i next_f () s of
             (Inl e, _, s') \<Rightarrow> (Inl e, s')
           | (Inr (Some (b, _)), _, s') \<Rightarrow> (Inr (cb_value b), s')
           | (Inr None, _, s') \<Rightarrow> (Inl (backend_error ''counter update declined unexpectedly''), s')))"

definition counter_peek ::
  "('s, 'o) counters \<Rightarrow> string \<Rightarrow> string \<Rightarrow> 's \<Rightarrow> (StorageError, u64) result \<times> 's" where
  "counter_peek C owner name s =
     (case counter_id C owner name of
        Inl e \<Rightarrow> (Inl e, s)
      | Inr i \<Rightarrow>
          (case repo_get (cn_repo C) i s of
             (Inl e, s') \<Rightarrow> (Inl e, s')
           | (Inr None, s') \<Rightarrow> (Inr 0, s')
           | (Inr (Some (_, b)), s') \<Rightarrow> (Inr (cb_value b), s')))"

definition set_at_least_f ::
  "u64 \<Rightarrow> 's \<Rightarrow> unit \<Rightarrow> CounterBody option \<Rightarrow> (StorageError, CounterBody option) result \<times> unit" where
  "set_at_least_f minimum s c body =
     (Inr (case body of
             Some b \<Rightarrow> if cb_value b \<ge> minimum then None else Some \<lparr>cb_value = minimum\<rparr>
           | None \<Rightarrow> Some \<lparr>cb_value = minimum\<rparr>), c)"

definition set_at_least ::
  "('s, 'o) counters \<Rightarrow> 's world \<Rightarrow> string \<Rightarrow> string \<Rightarrow> u64 \<Rightarrow> 's \<Rightarrow> (StorageError, u64) result \<times> 's" where
  "set_at_least C W owner name minimum s =
     (if unat minimum > COUNTER_MAX_VALUE then (Inl (invalid_input ''counter value out of range''), s)
      else
        (case counter_id C owner name of
           Inl e \<Rightarrow> (Inl e, s)
         | Inr i \<Rightarrow>
             (case repo_update (cn_repo C) W i (set_at_least_f minimum) () s of
                (Inl e, _, s') \<Rightarrow> (Inl e, s')
              | (Inr (Some (b, _)), _, s') \<Rightarrow> (Inr (cb_value b), s')
              | (Inr None, _, s') \<Rightarrow> counter_peek C owner name s')))"

section \<open>The value of a counter\<close>

text \<open>\<open>counted x\<close> is the value a record stands for; every write raises it, and keeps it in range.\<close>

fun counted :: "CounterBody option \<Rightarrow> nat" where
  "counted None = 0"
| "counted (Some b) = unat (cb_value b)"

inductive counter_write :: "CounterBody option \<Rightarrow> CounterBody \<Rightarrow> bool" where
  nexts: "next_f () () x = (Inr (Some b), ()) \<Longrightarrow> counter_write x b"
| sets: "unat minimum \<le> COUNTER_MAX_VALUE \<Longrightarrow> set_at_least_f minimum () () x = (Inr (Some b), ()) \<Longrightarrow>
     counter_write x b"

definition counter_at ::
  "('s, 'o) counters \<Rightarrow> ('s \<Rightarrow> docs_view) \<Rightarrow> string \<Rightarrow> 's \<Rightarrow> CounterBody option \<Rightarrow> bool" where
  "counter_at C view i s = reads (cn_repo C) (view s (repo_collection (cn_repo C)) i)"

definition counter_shared ::
  "('s, 'o) counters \<Rightarrow> 's world \<Rightarrow> ('s \<Rightarrow> docs_view) \<Rightarrow> ('s \<Rightarrow> 's \<Rightarrow> bool) \<Rightarrow> string \<Rightarrow> bool" where
  "counter_shared C W view env i \<longleftrightarrow>
     store_laws (repo_docs (cn_repo C)) W view env \<and>
     (\<forall>b j. repo_encode (cn_repo C) b = Inr j \<longrightarrow> repo_decode (cn_repo C) j = Inr b) \<and>
     (\<forall>s s' x. env s s' \<longrightarrow> counter_at C view i s x \<longrightarrow>
        (\<exists>y. counter_at C view i s' y \<and> (\<lambda>x y. \<exists>b. counter_write x b \<and> y = Some b)\<^sup>*\<^sup>* x y))"

lemma next_f_Some:
  "next_f s c x = (Inr (Some b), c') \<Longrightarrow>
     unat (cb_value b) = counted x + 1 \<and> unat (cb_value b) \<le> COUNTER_MAX_VALUE"
  by (auto simp: next_f_def COUNTER_MAX_VALUE_def split: option.splits if_splits dest!: checked_add_Some)

lemma counter_write_raises: "counter_write x b \<Longrightarrow> counted x \<le> counted (Some b)"
proof (induction rule: counter_write.induct)
  case (nexts x b)
  then show ?case by (auto dest!: next_f_Some)
next
  case (sets minimum x b)
  then show ?case
    by (cases x) (auto simp: set_at_least_f_def word_le_nat_alt not_le split: if_splits)
qed

lemma counter_path_raises:
  assumes "(\<lambda>x y. \<exists>b. counter_write x b \<and> y = Some b)\<^sup>*\<^sup>* x y"
  shows "counted x \<le> counted y"
  using assms
proof (induction rule: rtranclp_induct)
  case (step y z)
  then show ?case using counter_write_raises by (metis le_trans)
qed simp

lemma later_count:
  assumes "counter_shared C W view env i" "env s t" "counter_at C view i s x" "counter_at C view i t y"
  shows "counted x \<le> counted y"
proof -
  obtain z where z: "counter_at C view i t z" "(\<lambda>x y. \<exists>b. counter_write x b \<and> y = Some b)\<^sup>*\<^sup>* x z"
    using assms(1-3) unfolding counter_shared_def by blast
  have "z = y"
    using z(1) assms(4) unfolding counter_at_def reads_def by (auto split: option.splits)
  then show ?thesis using counter_path_raises [OF z(2)] by simp
qed

text \<open>A stored body: what it replaced, and the value the counter has afterwards.\<close>

lemma counter_update_stored:
  assumes sh: "counter_shared C W view env i"
    and upd: "repo_update (cn_repo C) W i f c s = (Inr (Some (b, v)), c', s')"
  obtains st t c0 x y where "env s st" "env st t" "counter_at C view i t x"
    "f st c0 x = (Inr (Some b), c')" "counter_at C view i s' y" "counted (Some b) \<le> counted y"
proof -
  note sh' = sh [unfolded counter_shared_def]
  obtain st t u c0 x j where at: "env s st" "env st t"
    "reads (cn_repo C) (view t (repo_collection (cn_repo C)) i) x"
    "f st c0 x = (Inr (Some b), c')" "repo_encode (cn_repo C) b = Inr j"
    "view u = view_upd (view t) (repo_collection (cn_repo C)) i (Some (v, j))" "env u s'"
    using repo_update_outcome [OF sh' [THEN conjunct1] upd] unfolding update_outcome_def by (simp, blast)
  have u: "counter_at C view i u (Some b)"
    using at(5,6) sh' by (simp add: counter_at_def reads_def view_upd_def)
  then obtain y where "counter_at C view i s' y"
    using sh' at(7) by blast
  then show thesis
    using that [OF at(1,2)] at(3,4) later_count [OF sh at(7) u] by (simp add: counter_at_def)
qed

lemma counter_next_stored:
  assumes sh: "\<And>i. counter_id C owner name = Inr i \<Longrightarrow> counter_shared C W view env i"
    and run: "counter_next C W owner name s = (Inr a, s')"
  obtains i t x y where "counter_id C owner name = Inr i" "env s t" "counter_at C view i t x"
    "unat a = counted x + 1" "unat a \<le> COUNTER_MAX_VALUE" "counter_at C view i s' y" "unat a \<le> counted y"
proof -
  obtain i b v c' where i: "counter_id C owner name = Inr i"
    and upd: "repo_update (cn_repo C) W i next_f () s = (Inr (Some (b, v)), c', s')" and a: "a = cb_value b"
    using run by (auto simp: counter_next_def split: sum.splits prod.splits option.splits)
  obtain st t c0 x y where 1: "env s st" "env st t" "counter_at C view i t x"
    "next_f st c0 x = (Inr (Some b), c')" "counter_at C view i s' y" "counted (Some b) \<le> counted y"
    by (rule counter_update_stored [OF sh [OF i] upd])
  have "env s t"
    using env_trans [OF sh [OF i, unfolded counter_shared_def, THEN conjunct1]] 1(1,2) .
  with 1 show thesis using that [OF i] next_f_Some [OF 1(4)] a by simp
qed

text \<open>After \<open>set_at_least\<close> the counter is at the minimum or above.\<close>

lemma set_at_least_reached:
  assumes sh: "\<And>i. counter_id C owner name = Inr i \<Longrightarrow> counter_shared C W view env i"
    and run: "set_at_least C W owner name minimum s = (Inr a, s')"
  obtains i y where "counter_id C owner name = Inr i" "counter_at C view i s' y"
    "unat minimum \<le> counted y" "minimum \<le> a"
proof -
  obtain i where i: "counter_id C owner name = Inr i"
    using run by (auto simp: set_at_least_def split: if_splits sum.splits)
  note sh = sh [OF i]
  note L = sh [unfolded counter_shared_def, THEN conjunct1]
  obtain q c1 s1 where upd: "repo_update (cn_repo C) W i (set_at_least_f minimum) () s = (Inr q, c1, s1)"
    using run i by (auto simp: set_at_least_def split: if_splits prod.splits sum.splits)
  show thesis
  proof (cases q)
    case (Some bv)
    obtain b v where bv: "bv = (b, v)" by (cases bv)
    have a: "a = cb_value b" "s' = s1"
      using run i upd Some bv by (auto simp: set_at_least_def split: if_splits)
    obtain st t c0 x y where 1: "set_at_least_f minimum st c0 x = (Inr (Some b), c1)" "env st t"
      "counter_at C view i s1 y" "counted (Some b) \<le> counted y" "env s st" "counter_at C view i t x"
      by (rule counter_update_stored [OF sh upd [unfolded Some bv]])
    have "cb_value b = minimum"
      using 1(1) by (auto simp: set_at_least_f_def split: option.splits if_splits)
    with 1 a show thesis using that [OF i] by simp
  next
    case None
    obtain t c0 x where 1: "env s t" "env t s1" "reads (cn_repo C) (view t (repo_collection (cn_repo C)) i) x"
      "set_at_least_f minimum s1 c0 x = (Inr None, c1)"
      using repo_update_outcome [OF L upd [unfolded None]] unfolding update_outcome_def by (simp, blast)
    have x: "unat minimum \<le> counted x"
      using 1(4) by (cases x) (auto simp: set_at_least_f_def word_le_nat_alt split: if_splits)
    have peek: "counter_peek C owner name s1 = (Inr a, s')"
      using run i upd None by (auto simp: set_at_least_def split: if_splits)
    obtain found where g: "repo_get (cn_repo C) i s1 = (Inr found, s')"
      and a: "a = (case found of None \<Rightarrow> 0 | Some (_, b) \<Rightarrow> cb_value b)"
      using peek i by (auto simp: counter_peek_def split: sum.splits prod.splits option.splits)
    obtain t2 where t2: "env s1 t2" "env t2 s'" "seen_as (cn_repo C) (view t2 (repo_collection (cn_repo C)) i) found"
      by (rule repo_get_seen [OF L g])
    have at: "counter_at C view i t x" "counter_at C view i t2 (map_option snd found)"
      using 1(3) t2(3) by (simp_all add: counter_at_def seen_as_def)
    have le: "counted x \<le> counted (map_option snd found)"
      using later_count [OF sh env_trans [OF L 1(2) t2(1)] at] .
    obtain y where y: "counter_at C view i s' y"
      using sh at(2) t2(2) unfolding counter_shared_def by blast
    have "counted (map_option snd found) = unat a"
      by (auto simp: a split: option.splits prod.splits)
    then show thesis
      using that [OF i y] x le later_count [OF sh t2(2) at(2) y] by (simp add: word_le_nat_alt)
  qed
qed

section \<open>Properties\<close>

text \<open>
  C28. A counter never hands out the same number twice: of two calls of \<open>next\<close>, in any process and with
  any interleaving of other calls between them, the later one returns the larger value, and no value
  passes \<open>i64::MAX\<close>.
\<close>

theorem counter_next_increases:
  assumes "\<And>i. counter_id C owner name = Inr i \<Longrightarrow> counter_shared C W view env i"
    and "counter_next C W owner name s0 = (Inr a, s1)"
    and "env s1 s2"
    and "counter_next C W owner name s2 = (Inr b, s3)"
  shows "unat a < unat b \<and> unat b \<le> COUNTER_MAX_VALUE"
proof -
  obtain i t1 x1 y1 where 1: "counter_id C owner name = Inr i" "counter_at C view i s1 y1"
    "unat a \<le> counted y1"
    by (rule counter_next_stored [OF assms(1,2)])
  obtain i' t2 x2 y2 where 2: "counter_id C owner name = Inr i'" "env s2 t2" "counter_at C view i' t2 x2"
    "unat b = counted x2 + 1" "unat b \<le> COUNTER_MAX_VALUE"
    by (rule counter_next_stored [OF assms(1,4)])
  have ii: "i' = i" using 1(1) 2(1) by simp
  note sh = assms(1) [OF 1(1)]
  note L = sh [unfolded counter_shared_def, THEN conjunct1]
  have "counted y1 \<le> counted x2"
    using later_count [OF sh env_trans [OF L assms(3) 2(2)] 1(2) 2(3) [unfolded ii]] .
  then show ?thesis using 1(3) 2(4,5) by linarith
qed

text \<open>Numbers imported through \<open>set_at_least\<close> are never handed out again.\<close>

lemma next_after_set_at_least:
  assumes "\<And>i. counter_id C owner name = Inr i \<Longrightarrow> counter_shared C W view env i"
    and "set_at_least C W owner name minimum s0 = (Inr a, s1)"
    and "env s1 s2"
    and "counter_next C W owner name s2 = (Inr b, s3)"
  shows "minimum \<le> a \<and> unat minimum < unat b"
proof -
  obtain i y1 where 1: "counter_id C owner name = Inr i" "counter_at C view i s1 y1"
    "unat minimum \<le> counted y1" "minimum \<le> a"
    by (rule set_at_least_reached [OF assms(1,2)])
  obtain i' t2 x2 y2 where 2: "counter_id C owner name = Inr i'" "env s2 t2" "counter_at C view i' t2 x2"
    "unat b = counted x2 + 1"
    by (rule counter_next_stored [OF assms(1,4)])
  have ii: "i' = i" using 1(1) 2(1) by simp
  note sh = assms(1) [OF 1(1)]
  note L = sh [unfolded counter_shared_def, THEN conjunct1]
  have "counted y1 \<le> counted x2"
    using later_count [OF sh env_trans [OF L assms(3) 2(2)] 1(2) 2(3) [unfolded ii]] .
  then show ?thesis using 1(3,4) 2(4) by linarith
qed

definition demo_counters :: "(doc_log, unit) counters" where
  "demo_counters =
     \<lparr>cn_repo = \<lparr>repo_docs = log_store (\<lambda>_. []), repo_collection = ''tsd.counters'', repo_options = (),
        repo_retry = cas_policy_default,
        repo_encode = (\<lambda>b. Inr (JArray (replicate (unat (cb_value b)) JNull))),
        repo_decode = (\<lambda>j. case j of JArray xs \<Rightarrow> Inr \<lparr>cb_value = of_nat (length xs)\<rparr>
                          | _ \<Rightarrow> Inl (backend_error ''not a counter''))\<rparr>,
      cn_digest = (\<lambda>s. s), cn_key_new = Inr\<rparr>"

definition demo_counter_env :: "doc_log \<Rightarrow> doc_log \<Rightarrow> bool" where
  "demo_counter_env s s' \<longleftrightarrow> prefix s s' \<and>
     (\<forall>x. counter_at demo_counters log_view ''o/n'' s x \<longrightarrow>
        (\<exists>y. counter_at demo_counters log_view ''o/n'' s' y \<and>
             (\<lambda>x y. \<exists>b. counter_write x b \<and> y = Some b)\<^sup>*\<^sup>* x y))"

lemma demo_counter_env_refl: "demo_counter_env s s"
  by (auto simp: demo_counter_env_def)

lemma demo_counter_shared: "counter_id demo_counters ''o'' ''n'' = Inr i \<Longrightarrow>
  counter_shared demo_counters log_world log_view demo_counter_env i"
proof -
  assume "counter_id demo_counters ''o'' ''n'' = Inr i"
  then have i: "i = ''o/n''"
    by (simp add: counter_id_def demo_counters_def composite_key_def encode_parts_def escape_char_def
        MAX_KEY_LEN_def)
  have "store_laws (log_store (\<lambda>_. [])) log_world log_view demo_counter_env"
  proof (rule log_store_laws_env)
    show "demo_counter_env s s" for s by (rule demo_counter_env_refl)
    show "demo_counter_env s u" if "demo_counter_env s t" "demo_counter_env t u" for s t u
      using that unfolding demo_counter_env_def by (meson rtranclp_trans prefix_order.trans)
    show "prefix s t" if "demo_counter_env s t" for s t using that by (simp add: demo_counter_env_def)
    show "demo_counter_env s (s @ [])" for s using demo_counter_env_refl by simp
  qed
  then show ?thesis
    unfolding counter_shared_def i by (auto simp: demo_counter_env_def) (auto simp: demo_counters_def)
qed

definition demo_count :: "nat \<Rightarrow> string \<times> string \<times> json option" where
  "demo_count n = (''tsd.counters'', ''o/n'', Some (JArray (replicate n JNull)))"

lemmas counter_run_simps =
  run_simps counter_next_def next_f_def counter_id_def demo_counters_def composite_key_def
  encode_parts_def escape_char_def MAX_KEY_LEN_def COUNTER_MAX_VALUE_def demo_count_def checked_add_def

theorem counter_next_increases_witness:
  "counter_next demo_counters log_world ''o'' ''n'' [] = (Inr 1, [demo_count 1]) \<and>
   counter_next demo_counters log_world ''o'' ''n'' [demo_count 1] =
     (Inr 2, [demo_count 1, demo_count 2]) \<and>
   unat (1 :: u64) < unat (2 :: u64)"
proof -
  have 1: "counter_next demo_counters log_world ''o'' ''n'' [] = (Inr 1, [demo_count 1])"
    by (simp add: counter_run_simps)
  have 2: "counter_next demo_counters log_world ''o'' ''n'' [demo_count 1] =
     (Inr 2, [demo_count 1, demo_count 2])"
    by (simp add: counter_run_simps)
  show ?thesis
    using counter_next_increases [OF demo_counter_shared 1 demo_counter_env_refl 2] 1 2 by simp
qed

end
