(* ===== verification/NoProgress.thy ===== *)
theory NoProgress
  imports Errors
begin

text \<open>
  The no-progress escalation ladders: \<open>tinyagents-harness/src/no_progress\<close> (\<open>mod.rs\<close>, \<open>types.rs\<close>,
  \<open>classified.rs\<close>, \<open>classified_ladder.rs\<close>, \<open>recoverable.rs\<close>).

  \<open>record_with_cause\<close> is the failure ladder over \<open>LadderState\<close>, \<open>classified_step_with_cause\<close> the
  budget per failure class, \<open>recoverable_record_with_cause\<close> the ladder for transient failures.  The
  fingerprinter that blanks volatile spans and the host's wording of recoverable halts are
  parameters.  A run of outcomes is a list of steps and attempts (\<open>run_ladder\<close>).
\<close>

section \<open>Attempts and verdicts\<close>

record ToolAttempt =
  ta_tool :: string
  ta_arg_fingerprint :: string
  ta_error :: "string option"
  ta_hard_reject :: bool
  ta_recoverable_miss :: bool

definition attempt_success :: "string \<Rightarrow> string \<Rightarrow> ToolAttempt" where
  "attempt_success tool args =
     \<lparr>ta_tool = tool, ta_arg_fingerprint = args, ta_error = None, ta_hard_reject = False,
      ta_recoverable_miss = False\<rparr>"

definition attempt_failure :: "string \<Rightarrow> string \<Rightarrow> string \<Rightarrow> ToolAttempt" where
  "attempt_failure tool args err =
     \<lparr>ta_tool = tool, ta_arg_fingerprint = args, ta_error = Some err, ta_hard_reject = False,
      ta_recoverable_miss = False\<rparr>"

definition attempt_hard_reject :: "ToolAttempt \<Rightarrow> ToolAttempt" where
  "attempt_hard_reject a = a\<lparr>ta_hard_reject := True\<rparr>"

definition attempt_recoverable_miss :: "ToolAttempt \<Rightarrow> ToolAttempt" where
  "attempt_recoverable_miss a = a\<lparr>ta_recoverable_miss := True\<rparr>"

datatype NoProgress = Continue | Nudge string | Halt string

fun message :: "NoProgress \<Rightarrow> string option" where
  "message Continue = None"
| "message (Nudge m) = Some m"
| "message (Halt m) = Some m"

fun is_nudge :: "NoProgress \<Rightarrow> bool" where
  "is_nudge (Nudge _) = True"
| "is_nudge _ = False"

fun is_halt :: "NoProgress \<Rightarrow> bool" where
  "is_halt (Halt _) = True"
| "is_halt _ = False"

fun no_progress_as_str :: "NoProgress \<Rightarrow> string" where
  "no_progress_as_str Continue = ''continue''"
| "no_progress_as_str (Nudge _) = ''nudge''"
| "no_progress_as_str (Halt _) = ''halt''"

record ClassifiedStopCause =
  sc_class :: string
  sc_operation :: string
  sc_summary :: string

record NoProgressAssessment =
  verdict :: NoProgress
  failure_cause :: "ClassifiedStopCause option"

record LadderState =
  last_sig :: "string option"
  same_count :: nat
  consecutive :: nat
  nudged_sig :: "string option"
  nudged_streak :: bool

definition default_ladder :: LadderState where
  "default_ladder =
     \<lparr>last_sig = None, same_count = 0, consecutive = 0, nudged_sig = None, nudged_streak = False\<rparr>"

section \<open>Wording\<close>

definition em_dash :: string where "em_dash = [CHR 0xE2, CHR 0x80, CHR 0x94]"
definition ellipsis :: string where "ellipsis = [CHR 0xE2, CHR 0x80, CHR 0xA6]"
definition newline :: string where "newline = [CHR 0x0A]"

definition truncate_with_suffix :: "string \<Rightarrow> nat \<Rightarrow> string \<Rightarrow> string" where
  "truncate_with_suffix text max_chars sfx =
     (if char_count text \<le> max_chars then text else take_chars max_chars text @ sfx)"

definition truncate_for_halt :: "string \<Rightarrow> string" where
  "truncate_for_halt text = truncate_with_suffix text 600 ellipsis"

definition identical_nudge :: "nat \<Rightarrow> string \<Rightarrow> nat \<Rightarrow> string \<Rightarrow> string" where
  "identical_nudge step tool count err =
     ''[no progress since step '' @ show_nat step @ ''] The '' @ quoted tool @ '' call has now failed ''
     @ show_nat count @ '' times with the same arguments and the same error '' @ em_dash
     @ '' you are retrying an identical action that cannot succeed as-is. Do NOT repeat it. Change ''
     @ ''strategy on your next step: use a different tool or different arguments (for a missing path, ''
     @ ''enumerate the directory first; for a failing query, correct or broaden it), or report back ''
     @ ''that it can't be done here. Last error:'' @ newline @ truncate_for_halt err"

definition varied_nudge :: "nat \<Rightarrow> string \<Rightarrow> nat \<Rightarrow> string \<Rightarrow> string" where
  "varied_nudge step tool count err =
     ''[no progress since step '' @ show_nat step @ ''] '' @ show_nat count
     @ '' tool calls in a row have failed without making progress. Stop cycling through variations ''
     @ ''of the same approach '' @ em_dash @ '' step back and try a different strategy ''
     @ ''(enumerate/inspect before acting, pick a different tool, or narrow the goal). Last error (from ''
     @ quoted tool @ ''):'' @ newline @ truncate_for_halt err"

definition policy_halt :: "string \<Rightarrow> string \<Rightarrow> string" where
  "policy_halt tool err =
     ''Stopping: the '' @ quoted tool @ '' call is blocked by the security policy and was re-issued with ''
     @ ''identical arguments '' @ em_dash @ '' it can never succeed this way. Reason:'' @ newline
     @ truncate_for_halt err @ newline @ newline @ ''Do not repeat this call; use an allowed alternative ''
     @ ''or report that it can't be done here.''"

definition identical_halt :: "string \<Rightarrow> nat \<Rightarrow> string \<Rightarrow> string" where
  "identical_halt tool count err =
     ''Stopping: the '' @ quoted tool @ '' call was retried '' @ show_nat count
     @ '' times with identical arguments and kept failing '' @ em_dash
     @ '' repeating it will not help. Last error:'' @ newline @ truncate_for_halt err @ newline @ newline
     @ ''This looks unrecoverable in the current environment. Report this back instead of retrying.''"

definition varied_halt :: "nat \<Rightarrow> string \<Rightarrow> string \<Rightarrow> string" where
  "varied_halt count tool err =
     ''Stopping: '' @ show_nat count @ '' tool calls in a row failed with no progress. Last error (from ''
     @ quoted tool @ ''):'' @ newline @ truncate_for_halt err @ newline @ newline
     @ ''Different commands are all failing '' @ em_dash @ '' the goal looks unreachable in this ''
     @ ''environment. Report this back instead of retrying.''"

section \<open>The failure ladder\<close>

definition DEFAULT_IDENTICAL_HALT_THRESHOLD :: nat where "DEFAULT_IDENTICAL_HALT_THRESHOLD = 3"
definition IDENTICAL_NUDGE_THRESHOLD :: nat where "IDENTICAL_NUDGE_THRESHOLD = 2"
definition NO_PROGRESS_HALT_THRESHOLD :: nat where "NO_PROGRESS_HALT_THRESHOLD = 6"
definition NO_PROGRESS_NUDGE_THRESHOLD :: nat where "NO_PROGRESS_NUDGE_THRESHOLD = 4"
definition HARD_REJECT_HALT_THRESHOLD :: nat where "HARD_REJECT_HALT_THRESHOLD = 2"

lemmas ladder_thresholds =
  DEFAULT_IDENTICAL_HALT_THRESHOLD_def IDENTICAL_NUDGE_THRESHOLD_def NO_PROGRESS_HALT_THRESHOLD_def
  NO_PROGRESS_NUDGE_THRESHOLD_def HARD_REJECT_HALT_THRESHOLD_def

record NoProgressTracker =
  identical_halt_threshold :: nat
  fingerprinter :: "string \<Rightarrow> string"
  ladder :: LadderState

definition ladder_new :: "(string \<Rightarrow> string) \<Rightarrow> nat \<Rightarrow> NoProgressTracker" where
  "ladder_new normalizer threshold =
     \<lparr>identical_halt_threshold = max threshold (IDENTICAL_NUDGE_THRESHOLD + 1),
      fingerprinter = normalizer, ladder = default_ladder\<rparr>"

definition with_fingerprinter :: "(string \<Rightarrow> string) \<Rightarrow> NoProgressTracker \<Rightarrow> NoProgressTracker" where
  "with_fingerprinter f t = t\<lparr>fingerprinter := f\<rparr>"

definition ladder_reset :: "NoProgressTracker \<Rightarrow> NoProgressTracker" where
  "ladder_reset t = t\<lparr>ladder := default_ladder\<rparr>"

definition no_progress_halt :: "string \<Rightarrow> string \<Rightarrow> string \<Rightarrow> NoProgressAssessment" where
  "no_progress_halt summary class operation =
     \<lparr>verdict = Halt summary,
      failure_cause = Some \<lparr>sc_class = class, sc_operation = operation, sc_summary = summary\<rparr>\<rparr>"

definition signature :: "(string \<Rightarrow> string) \<Rightarrow> ToolAttempt \<Rightarrow> string \<Rightarrow> string" where
  "signature fp a err =
     ta_tool a @ [CHR 0x1F] @ ta_arg_fingerprint a @ [CHR 0x1F] @ fp err"

text \<open>The counters after a failure, before any verdict.\<close>

definition count_failure :: "string \<Rightarrow> bool \<Rightarrow> LadderState \<Rightarrow> LadderState" where
  "count_failure sig miss st =
     (let st1 = (if miss then st else st\<lparr>consecutive := consecutive st + 1\<rparr>) in
      if last_sig st1 = Some sig then st1\<lparr>same_count := same_count st1 + 1\<rparr>
      else st1\<lparr>last_sig := Some sig, same_count := 1, nudged_sig := None\<rparr>)"

definition record_with_cause ::
  "nat \<Rightarrow> ToolAttempt \<Rightarrow> NoProgressTracker \<Rightarrow> NoProgressAssessment \<times> NoProgressTracker" where
  "record_with_cause step a t =
     (case ta_error a of
        None \<Rightarrow> (\<lparr>verdict = Continue, failure_cause = None\<rparr>, t\<lparr>ladder := default_ladder\<rparr>)
      | Some err \<Rightarrow>
          (let sig = signature (fingerprinter t) a err;
               st = count_failure sig (ta_recoverable_miss a) (ladder t) in
           if ta_hard_reject a \<and> same_count st \<ge> HARD_REJECT_HALT_THRESHOLD
           then (no_progress_halt (policy_halt (ta_tool a) err) ''policy'' (ta_tool a),
                 t\<lparr>ladder := default_ladder\<rparr>)
           else if same_count st \<ge> identical_halt_threshold t
           then (no_progress_halt (identical_halt (ta_tool a) (same_count st) err) ''repeated_failure''
                   (ta_tool a), t\<lparr>ladder := default_ladder\<rparr>)
           else if consecutive st \<ge> NO_PROGRESS_HALT_THRESHOLD
           then (no_progress_halt (varied_halt (consecutive st) (ta_tool a) err) ''varied_failures''
                   (ta_tool a), t\<lparr>ladder := default_ladder\<rparr>)
           else if same_count st = IDENTICAL_NUDGE_THRESHOLD \<and> nudged_sig st \<noteq> Some sig
           then (\<lparr>verdict = Nudge (identical_nudge step (ta_tool a) (same_count st) err),
                  failure_cause = None\<rparr>, t\<lparr>ladder := st\<lparr>nudged_sig := Some sig\<rparr>\<rparr>)
           else if \<not> ta_recoverable_miss a \<and> consecutive st = NO_PROGRESS_NUDGE_THRESHOLD \<and>
                   \<not> nudged_streak st
           then (\<lparr>verdict = Nudge (varied_nudge step (ta_tool a) (consecutive st) err),
                  failure_cause = None\<rparr>, t\<lparr>ladder := st\<lparr>nudged_streak := True\<rparr>\<rparr>)
           else (\<lparr>verdict = Continue, failure_cause = None\<rparr>, t\<lparr>ladder := st\<rparr>)))"

definition ladder_record :: "nat \<Rightarrow> ToolAttempt \<Rightarrow> NoProgressTracker \<Rightarrow> NoProgress \<times> NoProgressTracker" where
  "ladder_record step a t =
     (case record_with_cause step a t of (r, t') \<Rightarrow> (verdict r, t'))"

section \<open>Classified failures\<close>

record ClassifiedFailure =
  cf_class :: string
  cf_operation :: string
  cf_scope :: string

type_synonym classified_tracker = "ClassifiedFailure \<rightharpoonup> nat"

definition classified_record ::
  "ClassifiedFailure \<Rightarrow> nat \<Rightarrow> classified_tracker \<Rightarrow> NoProgress \<times> classified_tracker" where
  "classified_record key recovery_budget counts =
     (let attempts = (case counts key of None \<Rightarrow> 0 | Some n \<Rightarrow> n) + 1;
          counts' = counts(key \<mapsto> attempts) in
      (if attempts > recovery_budget
       then Halt (''Stopping after '' @ show_nat attempts @ '' attempt(s): failure class ''
              @ quoted (cf_class key) @ '' still blocks operation '' @ quoted (cf_operation key) @ '' on ''
              @ quoted (cf_scope key) @ ''. Resolve this blocker before retrying.'')
       else Continue, counts'))"

definition classified_clear :: "ClassifiedFailure \<Rightarrow> classified_tracker \<Rightarrow> classified_tracker" where
  "classified_clear key counts = counts(key := None)"

definition clear_operation :: "string \<Rightarrow> string \<Rightarrow> classified_tracker \<Rightarrow> classified_tracker" where
  "clear_operation operation scope counts =
     (\<lambda>k. if cf_operation k = operation \<and> cf_scope k = scope then None else counts k)"

definition classified_reset :: "classified_tracker \<Rightarrow> classified_tracker" where
  "classified_reset counts = Map.empty"

datatype ClassifiedStepWithCause =
    StepHalt ClassifiedStopCause
  | StepNudge string
  | StepWithin

datatype ClassifiedStep = PlainHalt string | PlainNudge string | PlainWithin

definition RECOVERY_CLASSES :: "string list" where
  "RECOVERY_CLASSES =
     [''permission'', ''authentication'', ''site_refused'', ''policy'', ''blocked_by_policy'',
      ''task_failed'', ''unsupported'', ''missing_window'', ''missing_app'', ''not_found'', ''transient'',
      ''uncertain_side_effect'', ''validation'', ''unavailable'', ''service_refused'',
      ''invalid_arguments'']"

definition UNCERTAIN_SIDE_EFFECT_HALT_SUFFIX :: string where
  "UNCERTAIN_SIDE_EFFECT_HALT_SUFFIX =
     '' The action may already have happened; reconcile its external state before any retry.''"

definition class_has_nudge :: "string \<Rightarrow> bool" where
  "class_has_nudge class \<longleftrightarrow>
     class \<in> {''missing_window'', ''missing_app'', ''validation'', ''invalid_arguments'',
              ''uncertain_side_effect'', ''unavailable'', ''service_refused'', ''blocked_by_policy'',
              ''task_failed''}"

definition recovery_nudge :: "string \<Rightarrow> string \<Rightarrow> string \<Rightarrow> string option" where
  "recovery_nudge class tool failure_line =
     (if class = ''service_refused'' then Some (
        ''The '' @ quoted tool @ '' tool cannot be used in this session: the service refused the request (''
        @ failure_line @ ''). Do not call '' @ quoted tool @ '' again; continue with your other tools.'')
      else if class = ''blocked_by_policy'' then Some (
        ''The '' @ quoted tool @ '' call was blocked by policy and did not run ('' @ failure_line
        @ ''). Try one narrower, permitted alternative (a scoped path, a bounded command, a read ''
        @ ''instead of a write) or continue with other tools; do not resend it unchanged. Another ''
        @ ''refusal of this operation ends the turn.'')
      else if class = ''task_failed'' then Some (
        ''The '' @ quoted tool @ '' task ended without finishing ('' @ failure_line
        @ ''). Follow its hint once: change the goal, inputs or starting point it names, or continue ''
        @ ''with other tools. Do not rerun it unchanged.'')
      else if class = ''validation'' then Some (
        ''The last call failed validation. Correct its schema or arguments once before trying again.'')
      else if class = ''invalid_arguments'' then Some (
        ''The '' @ quoted tool @ '' call was rejected before it ran: its arguments did not match the ''
        @ ''tool's schema ('' @ failure_line @ ''). Read the tool's parameters and correct the call; do ''
        @ ''not resend it unchanged.'')
      else if class = ''uncertain_side_effect'' then Some (
        ''The last command timed out and was killed; it may have partly run. Check its effect before ''
        @ ''repeating anything, then retry at most once as a smaller, bounded step (fewer items per ''
        @ ''call, a per-item timeout such as '' @ quoted ''timeout 5'' @ '', or background it and poll).'')
      else if class = ''unavailable'' then Some (
        ''The '' @ quoted tool @ '' tool is unavailable for the rest of this run: a module it needs ''
        @ ''failed to load and will not recover until the app restarts. Do not call '' @ quoted tool
        @ '' again; continue with your other tools.'')
      else if class = ''missing_window'' \<or> class = ''missing_app'' then Some (
        ''The desktop target was not found. Rediscover the current app and window once before trying ''
        @ ''again.'')
      else None)"

text \<open>\<open>str::lines\<close>: split at line feeds, a carriage return before one dropped, no last empty line.\<close>

fun split_lf :: "string \<Rightarrow> string list" where
  "split_lf [] = [[]]"
| "split_lf (c # cs) =
     (if c = CHR 0x0A then [] # split_lf cs
      else (case split_lf cs of l # ls \<Rightarrow> (c # l) # ls | [] \<Rightarrow> [[c]]))"

definition drop_cr :: "string \<Rightarrow> string" where
  "drop_cr l = (if l \<noteq> [] \<and> last l = CHR 0x0D then butlast l else l)"

definition str_lines :: "string \<Rightarrow> string list" where
  "str_lines s =
     (let ls = split_lf s in
      map drop_cr (butlast ls) @ (if last ls = [] then [] else [last ls]))"

text \<open>The text after the first occurrence of a marker.\<close>

fun after_first :: "string \<Rightarrow> string \<Rightarrow> string option" where
  "after_first needle [] = (if needle = [] then Some [] else None)"
| "after_first needle (c # cs) =
     (case strip_prefix needle (c # cs) of Some r \<Rightarrow> Some r | None \<Rightarrow> after_first needle cs)"

definition first_error_line :: "string \<Rightarrow> string" where
  "first_error_line text =
     (let first = str_trim (case find (\<lambda>l. str_trim l \<noteq> []) (str_lines text) of Some l \<Rightarrow> l | None \<Rightarrow> []);
          stderr = (case after_first (''[stderr]'' @ newline) text of
                      None \<Rightarrow> None
                    | Some tail \<Rightarrow>
                        (case find (\<lambda>l. str_trim l \<noteq> []) (str_lines tail) of
                           None \<Rightarrow> None
                         | Some l \<Rightarrow> if str_trim l \<noteq> [] \<and> str_trim l \<noteq> first then Some (str_trim l) else None))
      in take_chars 200
           (case stderr of Some err \<Rightarrow> first @ '' '' @ em_dash @ '' '' @ err | None \<Rightarrow> first))"

definition classified_step_with_cause ::
  "string \<Rightarrow> string \<Rightarrow> string \<Rightarrow> nat \<Rightarrow> string \<Rightarrow> classified_tracker
    \<Rightarrow> ClassifiedStepWithCause \<times> classified_tracker" where
  "classified_step_with_cause class tool scope budget failure_text counts =
     (let key = \<lparr>cf_class = class, cf_operation = tool, cf_scope = scope\<rparr> in
      case classified_record key budget counts of
        (Halt summary, counts') \<Rightarrow>
          (StepHalt \<lparr>sc_class = class, sc_operation = tool,
             sc_summary = (if class = ''uncertain_side_effect''
                           then summary @ UNCERTAIN_SIDE_EFFECT_HALT_SUFFIX else summary)\<rparr>, counts')
      | (_, counts') \<Rightarrow>
          (if class_has_nudge class
           then (case recovery_nudge class tool (first_error_line failure_text) of
                   Some instruction \<Rightarrow> (StepNudge instruction, counts')
                 | None \<Rightarrow> (StepWithin, counts'))
           else (StepWithin, counts')))"

definition classified_step ::
  "string \<Rightarrow> string \<Rightarrow> string \<Rightarrow> nat \<Rightarrow> string \<Rightarrow> classified_tracker \<Rightarrow> ClassifiedStep \<times> classified_tracker" where
  "classified_step class tool scope budget failure_text counts =
     (case classified_step_with_cause class tool scope budget failure_text counts of
        (StepHalt cause, c) \<Rightarrow> (PlainHalt (sc_summary cause), c)
      | (StepNudge i, c) \<Rightarrow> (PlainNudge i, c)
      | (StepWithin, c) \<Rightarrow> (PlainWithin, c))"

definition clear_recovered :: "string \<Rightarrow> string \<Rightarrow> classified_tracker \<Rightarrow> classified_tracker" where
  "clear_recovered tool scope counts = clear_operation tool scope counts"

section \<open>Recoverable failures\<close>

record LoopGuardThresholds =
  recoverable_repeat_failure :: u32
  recoverable_no_progress_failure :: u32

record failure_policy =
  identical_halt_summary :: "string \<Rightarrow> u32 \<Rightarrow> string \<Rightarrow> string"
  no_progress_halt_summary :: "u32 \<Rightarrow> string \<Rightarrow> string \<Rightarrow> string"

record RecoverableFailureLadder =
  rl_thresholds :: LoopGuardThresholds
  rl_identical :: "string \<rightharpoonup> u32"
  rl_consecutive :: u32

definition recoverable_new :: "LoopGuardThresholds \<Rightarrow> RecoverableFailureLadder" where
  "recoverable_new th = \<lparr>rl_thresholds = th, rl_identical = Map.empty, rl_consecutive = 0\<rparr>"

definition reset_streak :: "RecoverableFailureLadder \<Rightarrow> RecoverableFailureLadder" where
  "reset_streak l = l\<lparr>rl_consecutive := 0\<rparr>"

definition recoverable_reset :: "RecoverableFailureLadder \<Rightarrow> RecoverableFailureLadder" where
  "recoverable_reset l = (reset_streak l)\<lparr>rl_identical := Map.empty\<rparr>"

definition recoverable_record_with_cause ::
  "failure_policy \<Rightarrow> string \<Rightarrow> string \<Rightarrow> string \<Rightarrow> RecoverableFailureLadder
    \<Rightarrow> ClassifiedStopCause option \<times> RecoverableFailureLadder" where
  "recoverable_record_with_cause policy tool arg_fingerprint failure_text l =
     (let key = tool @ [CHR 0x1F] @ arg_fingerprint;
          count = (case rl_identical l key of None \<Rightarrow> 0 | Some n \<Rightarrow> n) + 1;
          streak = rl_consecutive l + 1;
          l' = l\<lparr>rl_identical := (rl_identical l)(key \<mapsto> count), rl_consecutive := streak\<rparr> in
      if count \<ge> recoverable_repeat_failure (rl_thresholds l)
      then (Some \<lparr>sc_class = ''transient'', sc_operation = tool,
                  sc_summary = identical_halt_summary policy tool count failure_text\<rparr>, l')
      else if streak \<ge> recoverable_no_progress_failure (rl_thresholds l)
      then (Some \<lparr>sc_class = ''transient'', sc_operation = tool,
                  sc_summary = no_progress_halt_summary policy streak tool failure_text\<rparr>, l')
      else (None, l'))"

definition COMMAND_EXIT_REPORT_PREFIX :: string where
  "COMMAND_EXIT_REPORT_PREFIX = ''Command failed (''"

definition is_command_exit_report :: "string \<Rightarrow> bool" where
  "is_command_exit_report err = prefix COMMAND_EXIT_REPORT_PREFIX (trim_start err)"

section \<open>Runs of the ladder\<close>

fun run_ladder ::
  "(nat \<times> ToolAttempt) list \<Rightarrow> NoProgressTracker \<Rightarrow> NoProgressAssessment list \<times> NoProgressTracker" where
  "run_ladder [] t = ([], t)"
| "run_ladder ((step, a) # xs) t =
     (case record_with_cause step a t of
        (r, t1) \<Rightarrow> (case run_ladder xs t1 of (rs, t2) \<Rightarrow> (r # rs, t2)))"

text \<open>A failure the any-failure backstop counts.\<close>

definition counted_failure :: "ToolAttempt \<Rightarrow> bool" where
  "counted_failure a \<longleftrightarrow> ta_error a \<noteq> None \<and> \<not> ta_recoverable_miss a"

definition ladder_inv :: "NoProgressTracker \<Rightarrow> bool" where
  "ladder_inv t \<longleftrightarrow>
     identical_halt_threshold t > IDENTICAL_NUDGE_THRESHOLD \<and>
     consecutive (ladder t) < NO_PROGRESS_HALT_THRESHOLD \<and>
     same_count (ladder t) < identical_halt_threshold t \<and>
     (same_count (ladder t) \<ge> IDENTICAL_NUDGE_THRESHOLD \<longrightarrow> nudged_sig (ladder t) \<noteq> None)"

lemma ladder_inv_new: "ladder_inv (ladder_new fp n)"
  by (auto simp: ladder_inv_def ladder_new_def default_ladder_def ladder_thresholds)

lemma count_failure_same:
  "same_count (count_failure sig miss st) =
     (if last_sig st = Some sig then same_count st + 1 else 1)"
  by (simp add: count_failure_def Let_def)

lemma count_failure_consecutive:
  "consecutive (count_failure sig miss st) = (if miss then consecutive st else consecutive st + 1)"
  by (simp add: count_failure_def Let_def)

lemma count_failure_nudged:
  "nudged_sig (count_failure sig miss st) = (if last_sig st = Some sig then nudged_sig st else None)"
  by (simp add: count_failure_def Let_def)

lemmas count_failure_simps = count_failure_same count_failure_consecutive count_failure_nudged

lemma record_threshold:
  "record_with_cause step a t = (r, t') \<Longrightarrow>
     identical_halt_threshold t' = identical_halt_threshold t \<and> fingerprinter t' = fingerprinter t"
  by (auto simp: record_with_cause_def Let_def split: option.splits if_splits)

text \<open>What a verdict says of the counters.\<close>

lemma record_cases:
  assumes "record_with_cause step a t = (r, t')"
  obtains
    (progress) "ta_error a = None" "verdict r = Continue" "ladder t' = default_ladder"
  | (halted) err where "ta_error a = Some err" "is_halt (verdict r)" "ladder t' = default_ladder"
  | (failing) err sig st where "ta_error a = Some err" "sig = signature (fingerprinter t) a err"
      "st = count_failure sig (ta_recoverable_miss a) (ladder t)" "\<not> is_halt (verdict r)"
      "same_count st < identical_halt_threshold t" "consecutive st < NO_PROGRESS_HALT_THRESHOLD"
      "ladder t' = st \<or> ladder t' = st\<lparr>nudged_sig := Some sig\<rparr> \<or> ladder t' = st\<lparr>nudged_streak := True\<rparr>"
      "same_count st = IDENTICAL_NUDGE_THRESHOLD \<Longrightarrow> nudged_sig (ladder t') \<noteq> None"
      "nudged_sig (ladder t') \<noteq> nudged_sig st \<Longrightarrow> is_nudge (verdict r)"
proof (cases "ta_error a")
  case None
  then show thesis
    using assms by - (rule progress, auto simp: record_with_cause_def)
next
  case (Some err)
  define sig where "sig = signature (fingerprinter t) a err"
  define st where "st = count_failure sig (ta_recoverable_miss a) (ladder t)"
  note eq = assms [unfolded record_with_cause_def Some, simplified,
      folded sig_def, simplified Let_def, folded st_def]
  show thesis
  proof (cases "is_halt (verdict r)")
    case True
    then show thesis
      using eq by - (rule halted [OF Some], auto split: if_splits)
  next
    case False
    then have "\<not> same_count st \<ge> identical_halt_threshold t"
      "\<not> consecutive st \<ge> NO_PROGRESS_HALT_THRESHOLD"
      using eq by (auto simp: no_progress_halt_def split: if_splits)
    then show thesis
      using eq False
      by - (rule failing [OF Some sig_def st_def], auto simp: no_progress_halt_def split: if_splits)
  qed
qed

lemma record_inv [inv_intros]:
  assumes "record_with_cause step a t = (r, t')" "ladder_inv t"
  shows "ladder_inv t'"
  using assms(1)
proof (cases rule: record_cases)
  case progress
  then show ?thesis
    using assms(2) record_threshold [OF assms(1)]
    by (auto simp: ladder_inv_def default_ladder_def ladder_thresholds)
next
  case halted
  then show ?thesis
    using assms(2) record_threshold [OF assms(1)]
    by (auto simp: ladder_inv_def default_ladder_def ladder_thresholds)
next
  case (failing err sig st)
  have sc: "same_count (ladder t') = same_count st" "consecutive (ladder t') = consecutive st"
    using failing(7) by auto
  have "nudged_sig (ladder t') \<noteq> None" if "same_count st \<ge> IDENTICAL_NUDGE_THRESHOLD"
  proof (cases "same_count st = IDENTICAL_NUDGE_THRESHOLD")
    case True
    then show ?thesis by (rule failing(8))
  next
    case False
    then have "last_sig (ladder t) = Some sig" "same_count (ladder t) \<ge> IDENTICAL_NUDGE_THRESHOLD"
      using that by (auto simp: failing(3) count_failure_simps ladder_thresholds split: if_splits)
    then have "nudged_sig st \<noteq> None"
      using assms(2) by (simp add: failing(3) count_failure_simps ladder_inv_def)
    then show ?thesis using failing(7) by auto
  qed
  then show ?thesis
    using assms(2) failing(5,6) sc record_threshold [OF assms(1)] by (simp add: ladder_inv_def)
qed

lemma run_ladder_inv:
  assumes "run_ladder xs t = (rs, t')" "ladder_inv t"
  shows "ladder_inv t'"
  using assms
proof (induction xs arbitrary: t rs)
  case (Cons x xs)
  then show ?case
    by (cases x) (auto split: prod.splits dest: record_inv)
qed simp

lemma run_ladder_append:
  "run_ladder (xs @ ys) t =
     (case run_ladder xs t of (rs, t1) \<Rightarrow> (case run_ladder ys t1 of (ss, t2) \<Rightarrow> (rs @ ss, t2)))"
  by (induction xs t rule: run_ladder.induct) (auto split: prod.splits)

lemma run_ladder_streak:
  assumes "run_ladder xs t = (rs, t')" "\<forall>(_, a) \<in> set xs. counted_failure a"
    and "\<forall>r \<in> set rs. \<not> is_halt (verdict r)"
  shows "consecutive (ladder t') = consecutive (ladder t) + length xs"
  using assms
proof (induction xs arbitrary: t rs)
  case (Cons x xs)
  obtain step a where x: "x = (step, a)" by (cases x)
  obtain r t1 rs1 where 1: "record_with_cause step a t = (r, t1)" "run_ladder xs t1 = (rs1, t')"
    "rs = r # rs1"
    using Cons.prems(1) by (auto simp: x split: prod.splits)
  from 1(1) have "consecutive (ladder t1) = consecutive (ladder t) + 1"
  proof (cases rule: record_cases)
    case progress
    then show ?thesis using Cons.prems(2) by (simp add: x counted_failure_def)
  next
    case halted
    then show ?thesis using Cons.prems(3) 1(3) by simp
  next
    case (failing err sig st)
    then have "consecutive (ladder t1) = consecutive st" by auto
    then show ?thesis
      using failing(3) Cons.prems(2) by (simp add: x count_failure_simps counted_failure_def)
  qed
  moreover have "consecutive (ladder t') = consecutive (ladder t1) + length xs"
    using Cons.IH [OF 1(2)] Cons.prems(2,3) 1(3) by simp
  ultimately show ?case by simp
qed simp

lemma run_ladder_nudged:
  assumes "run_ladder xs t = (rs, t')" "nudged_sig (ladder t) = None" "nudged_sig (ladder t') \<noteq> None"
  shows "\<exists>r \<in> set rs. is_nudge (verdict r)"
  using assms
proof (induction xs arbitrary: rs t' rule: rev_induct)
  case (snoc x xs)
  obtain step a where x: "x = (step, a)" by (cases x)
  obtain rs1 t1 r where 1: "run_ladder xs t = (rs1, t1)" "record_with_cause step a t1 = (r, t')"
    "rs = rs1 @ [r]"
    using snoc.prems(1) by (auto simp: x run_ladder_append split: prod.splits)
  show ?case
  proof (cases "nudged_sig (ladder t1) = None")
    case False
    then show ?thesis using snoc.IH [OF 1(1) snoc.prems(2)] 1(3) by auto
  next
    case True
    from 1(2) have "is_nudge (verdict r)"
    proof (cases rule: record_cases)
      case progress
      then show ?thesis using snoc.prems(3) by (simp add: default_ladder_def)
    next
      case halted
      then show ?thesis using snoc.prems(3) by (simp add: default_ladder_def)
    next
      case (failing err sig st)
      have "nudged_sig st = None" using True by (simp add: failing(3) count_failure_simps)
      then show ?thesis using failing(9) snoc.prems(3) by simp
    qed
    then show ?thesis using 1(3) by simp
  qed
qed simp

section \<open>Properties\<close>

text \<open>
  C30. A stuck run is always stopped: after any history, among any six consecutive failing tool calls
  (unknown-tool misses apart) the ladder halts the run at least once, however much the calls, their
  arguments and their errors vary.
\<close>

theorem six_failures_halt:
  assumes "run_ladder history (ladder_new fp n) = (rs0, t)"
    and "run_ladder xs t = (rs, t')"
    and "length xs = 6" "\<forall>(_, a) \<in> set xs. counted_failure a"
  shows "\<exists>r \<in> set rs. is_halt (verdict r)"
proof (rule ccontr)
  assume "\<not> ?thesis"
  then have "consecutive (ladder t') = consecutive (ladder t) + 6"
    using run_ladder_streak [OF assms(2,4)] assms(3) by simp
  moreover have "ladder_inv t'"
    using run_ladder_inv [OF assms(2) run_ladder_inv [OF assms(1) ladder_inv_new]] .
  ultimately show False by (simp add: ladder_inv_def ladder_thresholds)
qed

definition demo_failures :: "(nat \<times> ToolAttempt) list" where
  "demo_failures = map (\<lambda>i. (i, attempt_failure ''read'' (show_nat i) ''denied'')) [1..<7]"

theorem six_failures_halt_witness:
  "\<exists>r \<in> set (fst (run_ladder demo_failures (snd (run_ladder [(0, attempt_success ''ls'' ''x'')]
      (ladder_new (\<lambda>s. s) 3))))). is_halt (verdict r)"
proof (rule six_failures_halt [OF surjective_pairing surjective_pairing])
  show "length demo_failures = 6" by (simp add: demo_failures_def)
  show "\<forall>(_, a) \<in> set demo_failures. counted_failure a"
    by (auto simp: demo_failures_def counted_failure_def attempt_failure_def)
qed

text \<open>
  The model is warned before it is stopped: whenever the ladder halts a run because one failing
  call was repeated unchanged, an earlier attempt of the run had been answered with a nudge.
\<close>

theorem nudge_precedes_repeat_halt:
  assumes "run_ladder (history @ [(step, a)]) (ladder_new fp n) = (rs @ [r], t)"
    and "failure_cause r = Some cause" "sc_class cause = ''repeated_failure''"
  shows "\<exists>r \<in> set rs. is_nudge (verdict r)"
proof -
  obtain t1 where 1: "run_ladder history (ladder_new fp n) = (rs, t1)"
    "record_with_cause step a t1 = (r, t)"
    using assms(1) by (auto simp: run_ladder_append split: prod.splits)
  have inv: "ladder_inv t1" by (rule run_ladder_inv [OF 1(1) ladder_inv_new])
  obtain err where err: "ta_error a = Some err"
    using 1(2) assms(2) by (auto simp: record_with_cause_def split: option.splits)
  define sig where "sig = signature (fingerprinter t1) a err"
  define st where "st = count_failure sig (ta_recoverable_miss a) (ladder t1)"
  have "same_count st \<ge> identical_halt_threshold t1"
    using 1(2) assms(2,3)
    by (auto simp: record_with_cause_def err Let_def no_progress_halt_def st_def sig_def split: if_splits)
  then have "same_count (ladder t1) \<ge> IDENTICAL_NUDGE_THRESHOLD"
    using inv by (auto simp: st_def count_failure_simps ladder_inv_def ladder_thresholds split: if_splits)
  then have "nudged_sig (ladder t1) \<noteq> None" using inv by (simp add: ladder_inv_def)
  moreover have "nudged_sig (ladder (ladder_new fp n)) = None"
    by (simp add: ladder_new_def default_ladder_def)
  ultimately show ?thesis using run_ladder_nudged [OF 1(1)] by blast
qed

definition demo_repeats :: "(nat \<times> ToolAttempt) list" where
  "demo_repeats = [(1, attempt_failure ''read'' ''x'' ''denied''), (2, attempt_failure ''read'' ''x'' ''denied'')]"

theorem nudge_precedes_repeat_halt_witness:
  "\<exists>rs r t. run_ladder (demo_repeats @ [(3, attempt_failure ''read'' ''x'' ''denied'')])
       (ladder_new (\<lambda>s. s) 3) = (rs @ [r], t) \<and> is_halt (verdict r) \<and> (\<exists>r \<in> set rs. is_nudge (verdict r))"
proof -
  let ?run = "run_ladder (demo_repeats @ [(3, attempt_failure ''read'' ''x'' ''denied'')])
    (ladder_new (\<lambda>s. s) 3)"
  have "length (fst ?run) = 3 \<and> map_option sc_class (failure_cause (fst ?run ! 2)) = Some ''repeated_failure'' \<and>
      is_halt (verdict (fst ?run ! 2))"
    by code_simp
  then obtain r1 r2 r3 cause where rs: "fst ?run = [r1, r2, r3]" "failure_cause r3 = Some cause"
    "sc_class cause = ''repeated_failure''" "is_halt (verdict r3)"
    by (auto simp: length_Suc_conv eval_nat_numeral)
  then have run: "?run = ([r1, r2] @ [r3], snd ?run)"
    by (metis append_Cons append_Nil prod.collapse)
  show ?thesis
    using nudge_precedes_repeat_halt [OF run rs(2,3)] run rs(4) by blast
qed

end
