(* ===== verification/RepeatGuard.thy ===== *)
theory RepeatGuard
  imports Prelude "HOL-Library.AList"
begin

unbundle bit_operations_syntax

text \<open>
  Detection of successful repeats: \<open>tinyagents-harness/src/no_progress\<close> (\<open>successful_repeat.rs\<close>,
  \<open>escalation.rs\<close>, \<open>loop_patterns.rs\<close>, \<open>post_compaction.rs\<close>, \<open>monitor.rs\<close>).

  The trackers keep 64-bit hashes of call and outcome signatures; the two hash functions of the
  standard library are the record \<open>hashes\<close>, a parameter.  Hash maps whose size the code bounds are
  association lists with distinct keys (\<open>AList.update\<close>), so their length is the number of entries.
  Properties that need it assume that the signatures of one run do not collide.
\<close>

record hashes =
  hash_of :: "string \<Rightarrow> u64"
  hash_pair :: "string \<Rightarrow> string \<Rightarrow> u64"

definition MAX_TRACKED_CALLS :: nat where "MAX_TRACKED_CALLS = 65536"
definition DEFAULT_REPEAT_OUTPUT_THRESHOLD :: u32 where "DEFAULT_REPEAT_OUTPUT_THRESHOLD = 4"
definition DEFAULT_REPEAT_CALL_THRESHOLD :: u32 where "DEFAULT_REPEAT_CALL_THRESHOLD = 3"
definition DEFAULT_BLOCK_AFTER_WARN :: u32 where "DEFAULT_BLOCK_AFTER_WARN = 2"
definition DEFAULT_BLOCKS_BEFORE_HALT :: u32 where "DEFAULT_BLOCKS_BEFORE_HALT = 2"

section \<open>Escalation\<close>

record RepeatEscalation =
  block_after_warn :: u32
  blocks_before_halt :: u32

definition default_escalation :: RepeatEscalation where
  "default_escalation =
     \<lparr>block_after_warn = DEFAULT_BLOCK_AFTER_WARN, blocks_before_halt = DEFAULT_BLOCKS_BEFORE_HALT\<rparr>"

definition gap :: "RepeatEscalation \<Rightarrow> u32" where
  "gap e = max (block_after_warn e) 1"

definition halt_block :: "RepeatEscalation \<Rightarrow> u32" where
  "halt_block e = max (blocks_before_halt e) 1"

datatype SuccessfulRepeat = RContinue | RWarn string | RHalt string
datatype CallGate = Allow | Block string | GHalt string

section \<open>Streaks\<close>

record Streak =
  last_hash :: "u64 option"
  streak_len :: u32

definition default_streak :: Streak where
  "default_streak = \<lparr>last_hash = None, streak_len = 0\<rparr>"

definition streak_record :: "hashes \<Rightarrow> string \<Rightarrow> Streak \<Rightarrow> u32 \<times> Streak" where
  "streak_record H sig s =
     (let h = hash_of H sig;
          s' = (if last_hash s = Some h then s\<lparr>streak_len := sat_add (streak_len s) 1\<rparr>
                else \<lparr>last_hash = Some h, streak_len = 1\<rparr>)
      in (streak_len s', s'))"

section \<open>The tracker\<close>

record SuccessfulRepeatTracker =
  output_threshold :: u32
  call_threshold :: u32
  sr_output :: Streak
  sr_calls :: Streak
  recurrences :: "(u64 \<times> u32) list"
  escalation :: "RepeatEscalation option"
  last_outcome :: "(u64 \<times> u64) list"
  predictable :: "u64 set"
  blocks :: "(u64 \<times> u32) list"

definition repeat_new :: "u32 \<Rightarrow> u32 \<Rightarrow> SuccessfulRepeatTracker" where
  "repeat_new output_t call_t =
     \<lparr>output_threshold = max output_t 1, call_threshold = max call_t 1, sr_output = default_streak,
      sr_calls = default_streak, recurrences = [], escalation = None, last_outcome = [],
      predictable = {}, blocks = []\<rparr>"

definition with_escalation :: "RepeatEscalation \<Rightarrow> SuccessfulRepeatTracker \<Rightarrow> SuccessfulRepeatTracker" where
  "with_escalation e t = t\<lparr>escalation := Some e\<rparr>"

definition streak_verdict ::
  "SuccessfulRepeatTracker \<Rightarrow> u32 \<Rightarrow> u32 \<Rightarrow> string \<Rightarrow> string \<Rightarrow> SuccessfulRepeat" where
  "streak_verdict t n threshold warn halt =
     (case escalation t of
        None \<Rightarrow> if n \<ge> threshold then RHalt halt else RContinue
      | Some e \<Rightarrow>
          if n \<ge> sat_add threshold (gap e) then RHalt halt
          else if n = threshold then RWarn warn else RContinue)"

definition record_output ::
  "hashes \<Rightarrow> string \<Rightarrow> bool \<Rightarrow> SuccessfulRepeatTracker \<Rightarrow> SuccessfulRepeat \<times> SuccessfulRepeatTracker" where
  "record_output H sig exempt t =
     (RContinue, t\<lparr>sr_output := (if exempt then default_streak else snd (streak_record H sig (sr_output t)))\<rparr>)"

definition stuck_step :: "string \<Rightarrow> string" where
  "stuck_step n = ''the last '' @ n
     @ '' iterations produced the identical response and tool call with no change; ''"

definition same_batch :: "string \<Rightarrow> string" where
  "same_batch n = ''the same successful tool-call batch was issued '' @ n
     @ '' times in a row with identical arguments and no new information; ''"

fun outranking :: "SuccessfulRepeat \<Rightarrow> SuccessfulRepeat \<Rightarrow> SuccessfulRepeat" where
  "outranking (RHalt m) _ = RHalt m"
| "outranking _ (RHalt m) = RHalt m"
| "outranking (RWarn m) _ = RWarn m"
| "outranking _ (RWarn m) = RWarn m"
| "outranking _ _ = RContinue"

definition record_call_batch ::
  "hashes \<Rightarrow> string \<Rightarrow> bool \<Rightarrow> bool \<Rightarrow> SuccessfulRepeatTracker
    \<Rightarrow> SuccessfulRepeat \<times> SuccessfulRepeatTracker" where
  "record_call_batch H sig all_successful exempt t =
     (if exempt \<or> \<not> all_successful
      then (RContinue, t\<lparr>sr_output := default_streak, sr_calls := default_streak\<rparr>)
      else
        (let out = streak_len (sr_output t);
             out_s = show_nat (unat out);
             output_verdict = streak_verdict t out (output_threshold t)
               (stuck_step out_s @ ''you are repeating the same step without making progress.'')
               (''Stopping: '' @ stuck_step out_s
                @ ''the run is stuck repeating the same step without making progress.'') in
         case streak_record H sig (sr_calls t) of
           (n, calls') \<Rightarrow>
             (let n_s = show_nat (unat n);
                  call_verdict = streak_verdict t n (call_threshold t)
                    (same_batch n_s @ ''you are repeating one action without making progress.'')
                    (''Stopping: '' @ same_batch n_s
                     @ ''the run is stuck repeating one action without making progress.'')
              in (outranking output_verdict call_verdict, t\<lparr>sr_calls := calls'\<rparr>))))"

definition lookup_u32 :: "(u64 \<times> u32) list \<Rightarrow> u64 \<Rightarrow> u32" where
  "lookup_u32 m k = (case map_of m k of Some n \<Rightarrow> n | None \<Rightarrow> 0)"

definition block_count :: "SuccessfulRepeatTracker \<Rightarrow> RepeatEscalation \<Rightarrow> u32" where
  "block_count t e = sat_add (call_threshold t) (gap e)"

definition prediction_has_room :: "SuccessfulRepeatTracker \<Rightarrow> u64 \<Rightarrow> bool" where
  "prediction_has_room t call \<longleftrightarrow>
     map_of (last_outcome t) call \<noteq> None \<or> length (last_outcome t) < MAX_TRACKED_CALLS"

text \<open>The ledger update of one recorded outcome: the new count, and the ledger.\<close>

definition bump_recurrence :: "u64 \<Rightarrow> (u64 \<times> u32) list \<Rightarrow> u32 \<times> (u64 \<times> u32) list" where
  "bump_recurrence key m =
     (if length m \<ge> MAX_TRACKED_CALLS \<and> map_of m key = None then (1, m)
      else (let n = sat_add (lookup_u32 m key) 1 in (n, AList.update key n m)))"

definition remember_outcome :: "u64 \<Rightarrow> u64 \<Rightarrow> SuccessfulRepeatTracker \<Rightarrow> SuccessfulRepeatTracker" where
  "remember_outcome call key t =
     (if escalation t \<noteq> None \<and> prediction_has_room t call
      then (let previous = map_of (last_outcome t) call;
                t1 = t\<lparr>last_outcome := AList.update call key (last_outcome t),
                       predictable := insert call (predictable t)\<rparr> in
            case previous of
              Some p \<Rightarrow> if p \<noteq> key then t1\<lparr>blocks := AList.delete call (blocks t1)\<rparr> else t1
            | None \<Rightarrow> t1)
      else t)"

definition identical_result :: "string \<Rightarrow> string" where
  "identical_result n = ''the same successful tool call returned the identical result '' @ n
     @ '' times in this run; re-running steps whose results are already in the conversation adds no ''
     @ ''new information, so ''"

definition record_call_identity ::
  "hashes \<Rightarrow> string \<Rightarrow> string \<Rightarrow> SuccessfulRepeatTracker \<Rightarrow> SuccessfulRepeat \<times> SuccessfulRepeatTracker" where
  "record_call_identity H call_sig outcome t =
     (let call = hash_of H call_sig;
          key = hash_pair H call_sig outcome in
      case bump_recurrence key (recurrences t) of
        (n, m) \<Rightarrow>
          (let t1 = remember_outcome call key (t\<lparr>recurrences := m\<rparr>);
               warn = identical_result (show_nat (unat n)) @ ''you are cycling without making progress.'';
               halt = ''Stopping: '' @ identical_result (show_nat (unat n))
                      @ ''the run is cycling without making progress.'' in
           (case escalation t of
              None \<Rightarrow> if n \<ge> call_threshold t then RHalt halt else RContinue
            | Some e \<Rightarrow>
                if n \<ge> sat_add (block_count t e) (halt_block e - 1) then RHalt halt
                else if n = call_threshold t then RWarn warn else RContinue, t1)))"

definition record_call_outcome ::
  "hashes \<Rightarrow> (string \<Rightarrow> string) \<Rightarrow> string \<Rightarrow> string \<Rightarrow> SuccessfulRepeatTracker
    \<Rightarrow> SuccessfulRepeat \<times> SuccessfulRepeatTracker" where
  "record_call_outcome H fp call_sig outcome_sig t = record_call_identity H call_sig (fp outcome_sig) t"

definition recurrence_count :: "hashes \<Rightarrow> string \<Rightarrow> string \<Rightarrow> SuccessfulRepeatTracker \<Rightarrow> u32" where
  "recurrence_count H call_sig outcome t = lookup_u32 (recurrences t) (hash_pair H call_sig outcome)"

definition pre_call ::
  "hashes \<Rightarrow> string \<Rightarrow> SuccessfulRepeatTracker \<Rightarrow> CallGate \<times> SuccessfulRepeatTracker" where
  "pre_call H call_sig t =
     (case escalation t of
        None \<Rightarrow> (Allow, t)
      | Some e \<Rightarrow>
          (let call = hash_of H call_sig in
           if call \<notin> predictable t then (Allow, t)
           else
             (case map_of (last_outcome t) call of
                None \<Rightarrow> (Allow, t)
              | Some key \<Rightarrow>
                  (let n = lookup_u32 (recurrences t) key in
                   if sat_add n 1 < block_count t e then (Allow, t)
                   else
                     (let full = (length (blocks t) \<ge> MAX_TRACKED_CALLS \<and> map_of (blocks t) call = None);
                          blocked = sat_add (if full then 0 else lookup_u32 (blocks t) call) 1;
                          t1 = (if full then t else t\<lparr>blocks := AList.update call blocked (blocks t)\<rparr>) in
                      if blocked \<ge> halt_block e
                      then (GHalt (''Stopping: the same successful tool call was blocked ''
                              @ show_nat (unat blocked) @ '' times for returning the identical result ''
                              @ show_nat (unat n) @ '' times; the model kept re-issuing it after being ''
                              @ ''warned, so the run is stuck cycling without making progress.''), t1)
                      else (Block (''Blocked: this exact call has already returned the identical result ''
                              @ show_nat (unat n) @ '' times and was not executed again. Its result is ''
                              @ ''already in the conversation. Reassess: use that result, or take a ''
                              @ ''different action. Issuing it again will stop the run.''), t1))))))"

definition invalidate_predictions_except ::
  "hashes \<Rightarrow> string \<Rightarrow> SuccessfulRepeatTracker \<Rightarrow> SuccessfulRepeatTracker" where
  "invalidate_predictions_except H call_sig t =
     t\<lparr>predictable := Set.filter (\<lambda>c. c = hash_of H call_sig) (predictable t)\<rparr>"

definition invalidate_all_predictions :: "SuccessfulRepeatTracker \<Rightarrow> SuccessfulRepeatTracker" where
  "invalidate_all_predictions t = t\<lparr>predictable := {}\<rparr>"

definition clear_ledger :: "SuccessfulRepeatTracker \<Rightarrow> SuccessfulRepeatTracker" where
  "clear_ledger t =
     t\<lparr>sr_output := default_streak, sr_calls := default_streak, recurrences := [], predictable := {}\<rparr>"

definition repeat_reset_ledger :: "SuccessfulRepeatTracker \<Rightarrow> SuccessfulRepeatTracker" where
  "repeat_reset_ledger t = clear_ledger t"

definition repeat_reset :: "SuccessfulRepeatTracker \<Rightarrow> SuccessfulRepeatTracker" where
  "repeat_reset t = (clear_ledger t)\<lparr>last_outcome := [], blocks := []\<rparr>"

section \<open>Warning-only patterns\<close>

definition DEFAULT_PING_PONG_ALTERNATIONS :: u32 where "DEFAULT_PING_PONG_ALTERNATIONS = 6"
definition DEFAULT_CHURN_VARIANTS :: u32 where "DEFAULT_CHURN_VARIANTS = 3"
definition DEFAULT_CHURN_CALLS_PER_VARIANT :: u32 where "DEFAULT_CHURN_CALLS_PER_VARIANT = 3"
definition MAX_WARNED :: nat where "MAX_WARNED = 1024"
definition MAX_CHURN_GROUPS :: nat where "MAX_CHURN_GROUPS = 1024"
definition MAX_CHURN_VARIANTS_PER_GROUP :: nat where "MAX_CHURN_VARIANTS_PER_GROUP = 256"

definition is_digit :: "char \<Rightarrow> bool" where
  "is_digit c \<longleftrightarrow> 48 \<le> (of_char c :: nat) \<and> (of_char c :: nat) \<le> 57"

fun digits_value :: "nat \<Rightarrow> string \<Rightarrow> nat" where
  "digits_value acc [] = acc"
| "digits_value acc (c # cs) = digits_value (acc * 10 + ((of_char c :: nat) - 48)) cs"

text \<open>\<open>str::parse::<usize>\<close>: an optional plus sign, then digits, within 64 bits.\<close>

definition parse_usize :: "string \<Rightarrow> nat option" where
  "parse_usize s =
     (let ds = (case s of c # cs \<Rightarrow> if c = CHR ''+'' then cs else s | [] \<Rightarrow> s) in
      if ds \<noteq> [] \<and> list_all is_digit ds \<and> digits_value 0 ds < 2 ^ 64 then Some (digits_value 0 ds) else None)"

text \<open>\<open>str::get(..len)\<close>: the prefix, when it ends at a character boundary.\<close>

definition get_prefix :: "nat \<Rightarrow> string \<Rightarrow> string option" where
  "get_prefix n s =
     (if n < length s then (if is_continuation (s ! n) then None else Some (take n s))
      else if n = length s then Some s else None)"

definition tool_name :: "string \<Rightarrow> string" where
  "tool_name call_sig =
     (let fallback = takeWhile (\<lambda>c. c \<noteq> CHR 0x01) call_sig in
      if CHR '':'' \<in> set call_sig
      then (case parse_usize (takeWhile (\<lambda>c. c \<noteq> CHR '':'') call_sig) of
              None \<Rightarrow> fallback
            | Some len \<Rightarrow>
                (case get_prefix len (tl (dropWhile (\<lambda>c. c \<noteq> CHR '':'') call_sig)) of
                   Some name \<Rightarrow> name
                 | None \<Rightarrow> fallback))
      else fallback)"

record Step =
  step_call :: u64
  step_outcome :: u64

record PingPongState =
  pp_prev :: "Step option"
  pp_last :: "Step option"
  pp_names :: "string \<times> string"
  pp_tail :: u32
  pp_warned :: "u64 list"

record PingPongDetector =
  alternations :: u32
  pp_state :: PingPongState

definition default_ping_pong :: PingPongState where
  "default_ping_pong = \<lparr>pp_prev = None, pp_last = None, pp_names = ([], []), pp_tail = 0, pp_warned = []\<rparr>"

definition ping_pong_new :: "u32 \<Rightarrow> PingPongDetector" where
  "ping_pong_new n = \<lparr>alternations = max n 4, pp_state = default_ping_pong\<rparr>"

definition ping_pong_record ::
  "hashes \<Rightarrow> string \<Rightarrow> string \<Rightarrow> PingPongDetector \<Rightarrow> string option \<times> PingPongDetector" where
  "ping_pong_record H call_sig outcome d =
     (let step = \<lparr>step_call = hash_of H call_sig, step_outcome = hash_of H outcome\<rparr>;
          s = pp_state d;
          tail = (case pp_last s of
                    None \<Rightarrow> 1
                  | Some lst \<Rightarrow>
                      if step_call lst = step_call step then 1
                      else if pp_prev s = Some step then sat_add (pp_tail s) 1 else 2);
          s1 = s\<lparr>pp_tail := tail, pp_prev := pp_last s, pp_last := Some step,
                 pp_names := (snd (pp_names s), tool_name call_sig)\<rparr>;
          d1 = d\<lparr>pp_state := s1\<rparr> in
      if tail < alternations d then (None, d1)
      else
        (let other = (case pp_prev s1 of None \<Rightarrow> 0 | Some p \<Rightarrow> step_call p);
             pair = step_call step XOR other in
         if pair \<in> set (pp_warned s1) \<or> length (pp_warned s1) \<ge> MAX_WARNED then (None, d1)
         else (Some (''calls to `'' @ fst (pp_names s1) @ ''` and `'' @ snd (pp_names s1)
                 @ ''` have been alternating '' @ show_nat (unat tail)
                 @ '' times, each returning the same result every time; going back and forth between ''
                 @ ''them is not making progress. Use the results you already have or change approach.''),
               d\<lparr>pp_state := s1\<lparr>pp_warned := pair # pp_warned s1\<rparr>\<rparr>)))"

definition ping_pong_reset :: "PingPongDetector \<Rightarrow> PingPongDetector" where
  "ping_pong_reset d = d\<lparr>pp_state := default_ping_pong\<rparr>"

record ChurnState =
  ch_groups :: "((string \<times> u64) \<times> (u64 \<times> u32) list) list"
  ch_warned :: "(string \<times> u64) list"

record ArgumentChurnDetector =
  variants :: u32
  calls_per_variant :: u32
  ch_state :: ChurnState

definition default_churn :: ChurnState where
  "default_churn = \<lparr>ch_groups = [], ch_warned = []\<rparr>"

definition churn_new :: "u32 \<Rightarrow> u32 \<Rightarrow> ArgumentChurnDetector" where
  "churn_new v c = \<lparr>variants = max v 2, calls_per_variant = max c 2, ch_state = default_churn\<rparr>"

definition churn_record ::
  "hashes \<Rightarrow> string \<Rightarrow> string \<Rightarrow> string \<Rightarrow> ArgumentChurnDetector \<Rightarrow> string option \<times> ArgumentChurnDetector" where
  "churn_record H tool arguments outcome d =
     (let key = (tool, hash_of H outcome);
          argument = hash_of H arguments;
          s = ch_state d in
      if key \<in> set (ch_warned s) then (None, d)
      else if map_of (ch_groups s) key = None \<and> length (ch_groups s) \<ge> MAX_CHURN_GROUPS then (None, d)
      else
        (let vs = (case map_of (ch_groups s) key of Some vs \<Rightarrow> vs | None \<Rightarrow> []);
             s0 = s\<lparr>ch_groups := AList.update key vs (ch_groups s)\<rparr> in
         if map_of vs argument = None \<and> length vs \<ge> MAX_CHURN_VARIANTS_PER_GROUP
         then (None, d\<lparr>ch_state := s0\<rparr>)
         else
           (let vs1 = AList.update argument (sat_add (lookup_u32 vs argument) 1) vs;
                s1 = s\<lparr>ch_groups := AList.update key vs1 (ch_groups s)\<rparr>;
                qualifying = length (filter (\<lambda>(_, n). n \<ge> calls_per_variant d) vs1) in
            if qualifying < unat (variants d) then (None, d\<lparr>ch_state := s1\<rparr>)
            else
              (let s2 = s1\<lparr>ch_groups := AList.delete key (ch_groups s1)\<rparr> in
               if length (ch_warned s2) \<ge> MAX_WARNED then (None, d\<lparr>ch_state := s2\<rparr>)
               else (Some (''`'' @ tool @ ''` has been called with '' @ show_nat qualifying
                       @ '' different sets of arguments, each at least ''
                       @ show_nat (unat (calls_per_variant d))
                       @ '' times, and every one returned the same result; changing the arguments is ''
                       @ ''not changing what you learn. Try a different tool or approach.''),
                     d\<lparr>ch_state := s2\<lparr>ch_warned := key # ch_warned s2\<rparr>\<rparr>)))))"

definition churn_reset :: "ArgumentChurnDetector \<Rightarrow> ArgumentChurnDetector" where
  "churn_reset d = d\<lparr>ch_state := default_churn\<rparr>"

section \<open>The post-compaction guard\<close>

definition REPEATING_AT :: u32 where "REPEATING_AT = 2"
definition DEFAULT_POST_COMPACTION_WINDOW :: u32 where "DEFAULT_POST_COMPACTION_WINDOW = 3"

record GuardState =
  gd_tail :: "(u64 \<times> nat) list"
  gd_calls :: nat
  gd_armed :: "(u64 list \<times> u32) option"

record PostCompactionGuard =
  gd_window :: u32
  gd_state :: GuardState

definition default_guard :: GuardState where
  "default_guard = \<lparr>gd_tail = [], gd_calls = 0, gd_armed = None\<rparr>"

definition guard_new :: "u32 \<Rightarrow> PostCompactionGuard" where
  "guard_new w = \<lparr>gd_window = w, gd_state = default_guard\<rparr>"

definition guard_record ::
  "hashes \<Rightarrow> string \<Rightarrow> string \<Rightarrow> bool \<Rightarrow> PostCompactionGuard \<Rightarrow> bool \<times> PostCompactionGuard" where
  "guard_record H call_sig outcome repeating g =
     (if gd_window g = 0 then (False, g)
      else
        (let pair = hash_pair H call_sig outcome; s = gd_state g in
         case gd_armed s of
           Some (tail, remaining) \<Rightarrow>
             (let repeated = pair \<in> set tail; left = remaining - 1 in
              (repeated,
               g\<lparr>gd_state := s\<lparr>gd_armed := (if repeated \<or> left = 0 then None else Some (tail, left))\<rparr>\<rparr>))
         | None \<Rightarrow>
             (let now = gd_calls s + 1;
                  tail = (if repeating then gd_tail s @ [(pair, now)] else gd_tail s) in
              (False,
               g\<lparr>gd_state := s\<lparr>gd_calls := now,
                 gd_tail := dropWhile (\<lambda>(_, seen). now - seen \<ge> unat (gd_window g)) tail\<rparr>\<rparr>))))"

definition guard_arm :: "PostCompactionGuard \<Rightarrow> PostCompactionGuard" where
  "guard_arm g =
     (if gd_window g = 0 \<or> gd_tail (gd_state g) = [] then g
      else g\<lparr>gd_state := (gd_state g)\<lparr>gd_tail := [],
              gd_armed := Some (map fst (gd_tail (gd_state g)), gd_window g)\<rparr>\<rparr>)"

definition guard_reset :: "PostCompactionGuard \<Rightarrow> PostCompactionGuard" where
  "guard_reset g = g\<lparr>gd_state := default_guard\<rparr>"

section \<open>The monitor\<close>

record RepeatProgressConfig =
  cfg_output_threshold :: u32
  cfg_call_threshold :: u32
  cfg_escalation :: "RepeatEscalation option"
  ping_pong_alternations :: u32
  churn_variants :: u32
  churn_calls_per_variant :: u32
  post_compaction_window :: u32

definition default_repeat_config :: RepeatProgressConfig where
  "default_repeat_config =
     \<lparr>cfg_output_threshold = DEFAULT_REPEAT_OUTPUT_THRESHOLD,
      cfg_call_threshold = DEFAULT_REPEAT_CALL_THRESHOLD, cfg_escalation = Some default_escalation,
      ping_pong_alternations = DEFAULT_PING_PONG_ALTERNATIONS, churn_variants = DEFAULT_CHURN_VARIANTS,
      churn_calls_per_variant = DEFAULT_CHURN_CALLS_PER_VARIANT,
      post_compaction_window = DEFAULT_POST_COMPACTION_WINDOW\<rparr>"

definition immediate_halt :: RepeatProgressConfig where
  "immediate_halt = default_repeat_config\<lparr>cfg_escalation := None, ping_pong_alternations := 0,
     churn_variants := 0, post_compaction_window := 0\<rparr>"

definition call_signature :: "string \<Rightarrow> string \<Rightarrow> string" where
  "call_signature tool arguments = show_nat (length tool) @ '':'' @ tool @ [CHR 0x01] @ arguments"

record RepeatMonitor =
  mon_tracker :: SuccessfulRepeatTracker
  mon_ping_pong :: "PingPongDetector option"
  mon_churn :: "ArgumentChurnDetector option"
  mon_guard :: "PostCompactionGuard option"

definition monitor_new :: "RepeatProgressConfig \<Rightarrow> RepeatMonitor" where
  "monitor_new c =
     \<lparr>mon_tracker =
        (let t = repeat_new (cfg_output_threshold c) (cfg_call_threshold c) in
         case cfg_escalation c of Some e \<Rightarrow> with_escalation e t | None \<Rightarrow> t),
      mon_ping_pong = (if ping_pong_alternations c > 0
                       then Some (ping_pong_new (ping_pong_alternations c)) else None),
      mon_churn = (if churn_variants c > 0
                   then Some (churn_new (churn_variants c) (churn_calls_per_variant c)) else None),
      mon_guard = (if post_compaction_window c > 0
                   then Some (guard_new (post_compaction_window c)) else None)\<rparr>"

definition monitor_pre_call :: "hashes \<Rightarrow> string \<Rightarrow> string \<Rightarrow> RepeatMonitor \<Rightarrow> CallGate \<times> RepeatMonitor" where
  "monitor_pre_call H tool arguments m =
     (case pre_call H (call_signature tool arguments) (mon_tracker m) of
        (g, t) \<Rightarrow> (g, m\<lparr>mon_tracker := t\<rparr>))"

definition run_detector :: "('d \<Rightarrow> 'n option \<times> 'd) \<Rightarrow> 'd option \<Rightarrow> 'n list \<times> 'd option" where
  "run_detector f d =
     (case d of
        None \<Rightarrow> ([], None)
      | Some x \<Rightarrow> (case f x of (None, x') \<Rightarrow> ([], Some x') | (Some n, x') \<Rightarrow> ([n], Some x')))"

definition monitor_record_call ::
  "hashes \<Rightarrow> string \<Rightarrow> string \<Rightarrow> string \<Rightarrow> bool \<Rightarrow> RepeatMonitor
    \<Rightarrow> (SuccessfulRepeat \<times> string list) \<times> RepeatMonitor" where
  "monitor_record_call H tool arguments outcome read_only m =
     (let sig = call_signature tool arguments in
      case record_call_identity H sig outcome (mon_tracker m) of
        (v, t) \<Rightarrow>
          (case run_detector (ping_pong_record H sig outcome) (mon_ping_pong m) of
             (notes1, pp) \<Rightarrow>
               (case run_detector (churn_record H tool arguments outcome) (mon_churn m) of
                  (notes2, ch) \<Rightarrow>
                    (let repeating = recurrence_count H sig outcome t \<ge> REPEATING_AT;
                         note = ''`'' @ tool @ ''` with these arguments, returning this result, is what you ''
                           @ ''were repeating right before the context was compacted; you may be looping. ''
                           @ ''Use the result you have or take a different action.'' in
                     case run_detector
                            (\<lambda>g. case guard_record H sig outcome repeating g of
                                   (hit, g') \<Rightarrow> (if hit then Some note else None, g')) (mon_guard m) of
                       (notes3, gd) \<Rightarrow>
                         ((v, notes1 @ notes2 @ notes3),
                          \<lparr>mon_tracker = (if read_only then t else invalidate_predictions_except H sig t),
                           mon_ping_pong = pp, mon_churn = ch, mon_guard = gd\<rparr>)))))"

definition note_untracked_success :: "bool \<Rightarrow> RepeatMonitor \<Rightarrow> RepeatMonitor" where
  "note_untracked_success read_only m =
     (if read_only then m else m\<lparr>mon_tracker := invalidate_all_predictions (mon_tracker m)\<rparr>)"

definition on_context_evicted :: "RepeatMonitor \<Rightarrow> RepeatMonitor" where
  "on_context_evicted m =
     m\<lparr>mon_guard := map_option guard_arm (mon_guard m),
       mon_tracker := repeat_reset_ledger (mon_tracker m),
       mon_ping_pong := map_option ping_pong_reset (mon_ping_pong m),
       mon_churn := map_option churn_reset (mon_churn m)\<rparr>"

definition monitor_reset :: "RepeatMonitor \<Rightarrow> RepeatMonitor" where
  "monitor_reset m =
     m\<lparr>mon_tracker := repeat_reset (mon_tracker m),
       mon_ping_pong := map_option ping_pong_reset (mon_ping_pong m),
       mon_churn := map_option churn_reset (mon_churn m),
       mon_guard := map_option guard_reset (mon_guard m)\<rparr>"

section \<open>The ledger counts recurrences\<close>

lemma unat_of_nat_u32: "n < 2 ^ 32 \<Longrightarrow> unat (of_nat n :: u32) = n"
  by (simp add: unsigned_of_nat take_bit_nat_eq_self)

lemma sat_add_of_nat:
  "n + 1 < 2 ^ 32 \<Longrightarrow> sat_add (of_nat n :: u32) 1 = of_nat (n + 1)"
  unfolding sat_add_def using unat_of_nat_u32 [of n] by simp

fun record_calls ::
  "hashes \<Rightarrow> (string \<times> string) list \<Rightarrow> SuccessfulRepeatTracker \<Rightarrow> SuccessfulRepeatTracker" where
  "record_calls H [] t = t"
| "record_calls H ((c, o') # hs) t = record_calls H hs (snd (record_call_identity H c o' t))"

text \<open>\<open>ledger_of f ks m\<close>: the ledger \<open>m\<close> holds how often each key occurs in \<open>ks\<close>.\<close>

definition ledger_of :: "u64 list \<Rightarrow> (u64 \<times> u32) list \<Rightarrow> bool" where
  "ledger_of ks m \<longleftrightarrow>
     distinct (map fst m) \<and> set (map fst m) = set ks \<and>
     (\<forall>k \<in> set ks. map_of m k = Some (of_nat (count_list ks k)))"

lemma ledger_of_lookup:
  "ledger_of ks m \<Longrightarrow> lookup_u32 m k = of_nat (count_list ks k)"
proof (cases "k \<in> set ks")
  case False
  moreover assume "ledger_of ks m"
  ultimately have "map_of m k = None" by (auto simp: ledger_of_def map_of_eq_None_iff)
  then show ?thesis using False by (simp add: lookup_u32_def count_list_0_iff)
qed (simp add: ledger_of_def lookup_u32_def)

lemma ledger_of_length: "ledger_of ks m \<Longrightarrow> length m \<le> length ks"
proof -
  assume *: "ledger_of ks m"
  then have "length m = card (set (map fst m))"
    using distinct_card [of "map fst m"] by (simp add: ledger_of_def)
  also have "\<dots> = card (set ks)" using * by (simp add: ledger_of_def)
  finally show ?thesis using card_length [of ks] by simp
qed

lemma bump_recurrence_ledger:
  assumes "ledger_of ks m" "length ks < MAX_TRACKED_CALLS"
  shows "fst (bump_recurrence k m) = of_nat (count_list (ks @ [k]) k)"
    and "ledger_of (ks @ [k]) (snd (bump_recurrence k m))"
proof -
  have len: "length m < MAX_TRACKED_CALLS"
    using ledger_of_length [OF assms(1)] assms(2) by simp
  have small: "count_list ks k + 1 < 2 ^ 32"
    using count_le_length [of ks k] assms(2) by (simp add: MAX_TRACKED_CALLS_def)
  have b: "bump_recurrence k m =
      (of_nat (count_list ks k + 1), AList.update k (of_nat (count_list ks k + 1)) m)"
    using len sat_add_of_nat [OF small] by (simp add: bump_recurrence_def ledger_of_lookup [OF assms(1)] Let_def)
  show "fst (bump_recurrence k m) = of_nat (count_list (ks @ [k]) k)" by (simp add: b)
  show "ledger_of (ks @ [k]) (snd (bump_recurrence k m))"
    unfolding ledger_of_def
  proof (intro conjI ballI)
    show "distinct (map fst (snd (bump_recurrence k m)))"
      using assms(1) by (simp add: b ledger_of_def distinct_update)
    show "set (map fst (snd (bump_recurrence k m))) = set (ks @ [k])"
      using assms(1) by (auto simp: b ledger_of_def dom_update)
    show "map_of (snd (bump_recurrence k m)) x = Some (of_nat (count_list (ks @ [k]) x))"
      if "x \<in> set (ks @ [k])" for x
      using assms(1) that by (auto simp: b ledger_of_def update_conv')
  qed
qed

lemma remember_outcome_keeps:
  "recurrences (remember_outcome c k t) = recurrences t"
  "escalation (remember_outcome c k t) = escalation t"
  "call_threshold (remember_outcome c k t) = call_threshold t"
  by (simp_all add: remember_outcome_def Let_def split: option.splits)

lemma record_call_identity_keeps:
  "recurrences (snd (record_call_identity H c o' t)) = snd (bump_recurrence (hash_pair H c o') (recurrences t))"
  "escalation (snd (record_call_identity H c o' t)) = escalation t"
  "call_threshold (snd (record_call_identity H c o' t)) = call_threshold t"
  by (simp_all add: record_call_identity_def Let_def remember_outcome_keeps split: prod.splits)

lemma record_calls_keeps:
  "escalation (record_calls H hs t) = escalation t"
  "call_threshold (record_calls H hs t) = call_threshold t"
  by (induction H hs t rule: record_calls.induct) (simp_all add: record_call_identity_keeps)

lemma record_calls_ledger:
  assumes "ledger_of ks (recurrences t)" "length ks + length hs \<le> MAX_TRACKED_CALLS"
  shows "ledger_of (ks @ map (\<lambda>(c, o'). hash_pair H c o') hs) (recurrences (record_calls H hs t))"
  using assms
proof (induction hs arbitrary: ks t)
  case (Cons h hs)
  obtain c o' where h: "h = (c, o')" by (cases h)
  have "ledger_of (ks @ [hash_pair H c o']) (recurrences (snd (record_call_identity H c o' t)))"
    using bump_recurrence_ledger(2) [OF Cons.prems(1)] Cons.prems(2) by (simp add: record_call_identity_keeps)
  then show ?case using Cons.IH [of "ks @ [hash_pair H c o']"] Cons.prems(2) by (simp add: h)
qed simp

lemma count_list_map_inj_on:
  "inj_on f (insert x (set xs)) \<Longrightarrow> count_list (map f xs) (f x) = count_list xs x"
  by (induction xs) (auto simp: inj_on_def)

fun is_rhalt :: "SuccessfulRepeat \<Rightarrow> bool" where
  "is_rhalt (RHalt _) = True"
| "is_rhalt _ = False"

section \<open>Properties\<close>

text \<open>
  C31. Cycles are caught however the repeats are spread: without staged escalation, recording a
  successful call halts exactly when that call has now returned that same result \<open>call_threshold\<close> times
  in the run, adjacent or not, whatever other calls ran in between (within the 65536 pairs the ledger
  keeps, and as long as the run's signatures do not collide).
\<close>

theorem repeat_halts_exactly:
  assumes "length history < MAX_TRACKED_CALLS"
    and "inj_on (\<lambda>(c, o'). hash_pair H c o') (insert (call, result) (set history))"
  shows "is_rhalt (fst (record_call_identity H call result
           (record_calls H history (repeat_new output_t call_t)))) \<longleftrightarrow>
         unat (max call_t 1) \<le> count_list history (call, result) + 1"
proof -
  let ?t = "record_calls H history (repeat_new output_t call_t)"
  let ?f = "\<lambda>(c, o'). hash_pair H c o'"
  have l: "ledger_of (map ?f history) (recurrences ?t)"
  proof -
    have "ledger_of [] (recurrences (repeat_new output_t call_t))"
      by (simp add: repeat_new_def ledger_of_def)
    from record_calls_ledger [OF this, of history H] show ?thesis using assms(1) by simp
  qed
  have n: "fst (bump_recurrence (hash_pair H call result) (recurrences ?t)) =
      of_nat (count_list history (call, result) + 1)"
    using bump_recurrence_ledger(1) [OF l] assms(1) count_list_map_inj_on [OF assms(2)] by simp
  have small: "count_list history (call, result) + 1 < 2 ^ 32"
    using count_le_length [of history "(call, result)"] assms(1) by (simp add: MAX_TRACKED_CALLS_def)
  have "is_rhalt (fst (record_call_identity H call result ?t)) \<longleftrightarrow>
      call_threshold ?t \<le> fst (bump_recurrence (hash_pair H call result) (recurrences ?t))"
    using record_calls_keeps(1) [of H history "repeat_new output_t call_t"]
    by (simp add: record_call_identity_def Let_def repeat_new_def split: prod.splits)
  also have "\<dots> \<longleftrightarrow> unat (max call_t 1) \<le> count_list history (call, result) + 1"
    unfolding n record_calls_keeps(2) word_le_nat_alt unat_of_nat_u32 [OF small]
    by (simp add: repeat_new_def)
  finally show ?thesis .
qed

definition demo_hashes :: hashes where
  "demo_hashes =
     \<lparr>hash_of = (\<lambda>s. of_nat (length s)), hash_pair = (\<lambda>c o'. of_nat (10 * length c + length o'))\<rparr>"

theorem repeat_halts_exactly_witness:
  "is_rhalt (fst (record_call_identity demo_hashes ''a'' ''r''
      (record_calls demo_hashes [(''a'', ''r''), (''bb'', ''s''), (''a'', ''r''), (''bb'', ''s'')]
        (repeat_new 4 3))))"
proof -
  let ?h = "[(''a'', ''r''), (''bb'', ''s''), (''a'', ''r''), (''bb'', ''s'')]"
  have inj: "inj_on (\<lambda>(c, o'). hash_pair demo_hashes c o') (insert (''a'', ''r'') (set ?h))"
    by (auto simp: demo_hashes_def inj_on_def)
  have len: "length ?h < MAX_TRACKED_CALLS" by (simp add: MAX_TRACKED_CALLS_def)
  show ?thesis
    unfolding repeat_halts_exactly [OF len inj] by (simp add: max_def)
qed

section \<open>The stages of a blocked call\<close>

text \<open>
  One model that keeps issuing the same read-only call, which keeps returning the same result:
  each attempt asks \<open>pre_call\<close> first and is recorded when it ran.
\<close>

datatype attempt_outcome = Ran SuccessfulRepeat | Blocked | Stopped

definition attempt_once ::
  "hashes \<Rightarrow> string \<Rightarrow> string \<Rightarrow> SuccessfulRepeatTracker \<Rightarrow> attempt_outcome \<times> SuccessfulRepeatTracker" where
  "attempt_once H c o' t =
     (case pre_call H c t of
        (Allow, t1) \<Rightarrow> (case record_call_identity H c o' t1 of (v, t2) \<Rightarrow> (Ran v, t2))
      | (Block _, t1) \<Rightarrow> (Blocked, t1)
      | (GHalt _, t1) \<Rightarrow> (Stopped, t1))"

fun attempts_state :: "hashes \<Rightarrow> string \<Rightarrow> string \<Rightarrow> nat \<Rightarrow> SuccessfulRepeatTracker \<Rightarrow> SuccessfulRepeatTracker" where
  "attempts_state H c o' 0 t = t"
| "attempts_state H c o' (Suc n) t = snd (attempt_once H c o' (attempts_state H c o' n t))"

text \<open>The state after \<open>k\<close> executions and \<open>b\<close> blocks.\<close>

definition repeating_state ::
  "hashes \<Rightarrow> string \<Rightarrow> string \<Rightarrow> SuccessfulRepeatTracker \<Rightarrow> nat \<Rightarrow> nat \<Rightarrow> SuccessfulRepeatTracker" where
  "repeating_state H c o' t k b =
     t\<lparr>recurrences := (if k = 0 then [] else [(hash_pair H c o', of_nat k)]),
       last_outcome := (if k = 0 then [] else [(hash_of H c, hash_pair H c o')]),
       predictable := (if k = 0 then {} else {hash_of H c}),
       blocks := (if b = 0 then [] else [(hash_of H c, of_nat b)])\<rparr>"

definition staged :: "u32 \<Rightarrow> u32 \<Rightarrow> RepeatEscalation \<Rightarrow> SuccessfulRepeatTracker" where
  "staged output_t call_t e = with_escalation e (repeat_new output_t call_t)"

lemma staged_repeating: "staged ot ct e = repeating_state H c o' (staged ot ct e) 0 0"
  by (simp add: staged_def repeating_state_def with_escalation_def repeat_new_def)

lemma unat_max_1: "unat (max (w :: u32) 1) \<ge> 1"
proof -
  have "(1 :: u32) \<le> max w 1" by simp
  then show ?thesis by (simp add: word_le_nat_alt)
qed

lemma unat_sat_add_fits: "unat (a :: u32) + unat b < 2 ^ 32 \<Longrightarrow> unat (sat_add a b) = unat a + unat b"
  by (simp add: sat_add_def unat_word_ariths)

text \<open>
  \<open>clamped ct e T G B\<close>: warn at \<open>T\<close>, block from \<open>T + G\<close> on, stop at block \<open>B\<close>; the sums fit the counters.
\<close>

definition clamped :: "u32 \<Rightarrow> RepeatEscalation \<Rightarrow> nat \<Rightarrow> nat \<Rightarrow> nat \<Rightarrow> bool" where
  "clamped ct e T G B \<longleftrightarrow>
     T = unat (max ct 1) \<and> G = unat (gap e) \<and> B = unat (halt_block e) \<and> T + G + B < 2 ^ 32"

lemma clamped_pos:
  assumes "clamped ct e T G B"
  shows "T \<ge> 1" "G \<ge> 1" "B \<ge> 1"
  using assms unat_max_1 by (auto simp: clamped_def gap_def halt_block_def)

lemma repeating_thresholds:
  assumes "clamped ct e T G B"
  shows "unat (block_count (repeating_state H c o' (staged ot ct e) k b) e) = T + G"
    and "unat (call_threshold (repeating_state H c o' (staged ot ct e) k b)) = T"
    and "unat (sat_add (block_count (repeating_state H c o' (staged ot ct e) k b) e) (halt_block e - 1)) =
      T + G + B - 1"
    and "escalation (repeating_state H c o' (staged ot ct e) k b) = Some e"
proof -
  let ?t = "repeating_state H c o' (staged ot ct e) k b"
  have ct: "call_threshold ?t = max ct 1"
    by (simp add: repeating_state_def staged_def with_escalation_def repeat_new_def)
  then show "unat (call_threshold ?t) = T" using assms by (simp add: clamped_def)
  show bc: "unat (block_count ?t e) = T + G"
    using assms unat_sat_add_fits [of "max ct 1" "gap e"] by (simp add: block_count_def ct clamped_def)
  have "1 \<le> halt_block e" by (simp add: halt_block_def)
  then have hb: "unat (halt_block e - 1) = B - 1"
    using assms by (simp add: unat_sub clamped_def)
  have "T + G + (B - 1) < 2 ^ 32" using assms unfolding clamped_def by linarith
  then have "unat (sat_add (block_count ?t e) (halt_block e - 1)) = T + G + (B - 1)"
    using unat_sat_add_fits [of "block_count ?t e" "halt_block e - 1"] unfolding bc hb by simp
  then show "unat (sat_add (block_count ?t e) (halt_block e - 1)) = T + G + B - 1"
    using clamped_pos [OF assms] by simp
  show "escalation ?t = Some e"
    by (simp add: repeating_state_def staged_def with_escalation_def)
qed

lemma attempt_runs:
  assumes "clamped ct e T G B" "Suc k < T + G"
  shows "\<exists>m. attempt_once H c o' (repeating_state H c o' (staged ot ct e) k 0) =
    (Ran (if Suc k = T then RWarn m else RContinue), repeating_state H c o' (staged ot ct e) (Suc k) 0)"
proof -
  let ?t = "repeating_state H c o' (staged ot ct e) k 0"
  define n :: u32 where "n = of_nat (Suc k)"
  have fits: "k + 1 < 2 ^ 32" using assms by (simp add: clamped_def)
  have n: "unat n = Suc k" "sat_add (of_nat k) 1 = n"
    using unat_of_nat_u32 [OF fits] sat_add_of_nat [OF fits] by (simp_all add: n_def)
  have pre: "pre_call H c ?t = (Allow, ?t)"
  proof (cases "k = 0")
    case True
    then show ?thesis
      by (simp add: pre_call_def repeating_thresholds(4) [OF assms(1)] Let_def) (simp add: repeating_state_def)
  next
    case False
    have "n < block_count ?t e"
      using assms(2) n(1) repeating_thresholds(1) [OF assms(1)] by (simp only: word_less_nat_alt)
    then show ?thesis
      using False n(2)
      by (simp add: pre_call_def repeating_thresholds(4) [OF assms(1)] Let_def)
        (simp add: repeating_state_def lookup_u32_def block_count_def)
  qed
  have bump: "bump_recurrence (hash_pair H c o') (recurrences ?t) = (n, [(hash_pair H c o', n)])"
    using n(2) by (auto simp: bump_recurrence_def repeating_state_def lookup_u32_def MAX_TRACKED_CALLS_def Let_def)
  have rem: "remember_outcome (hash_of H c) (hash_pair H c o') (?t\<lparr>recurrences := [(hash_pair H c o', n)]\<rparr>) =
      repeating_state H c o' (staged ot ct e) (Suc k) 0"
    unfolding n_def
    by (auto simp: remember_outcome_def repeating_state_def staged_def with_escalation_def
        prediction_has_room_def MAX_TRACKED_CALLS_def Let_def)
  have low: "\<not> sat_add (block_count ?t e) (halt_block e - 1) \<le> n"
    using assms(2) n(1) repeating_thresholds(3) [OF assms(1)] clamped_pos [OF assms(1)]
    by (simp only: word_le_nat_alt)
  have at: "n = call_threshold ?t \<longleftrightarrow> Suc k = T"
    using n(1) repeating_thresholds(2) [OF assms(1)] by (metis word_eq_iff_unsigned)
  have "\<exists>m. record_call_identity H c o' ?t = (if n = call_threshold ?t then RWarn m else RContinue,
      repeating_state H c o' (staged ot ct e) (Suc k) 0)"
    using low by (simp add: record_call_identity_def bump rem repeating_thresholds(4) [OF assms(1)] Let_def
        split del: if_split) auto
  then show ?thesis unfolding at by (auto simp: attempt_once_def pre)
qed

lemma attempt_blocked:
  assumes "clamped ct e T G B" "k = T + G - 1" "Suc b < 2 ^ 32"
  shows "attempt_once H c o' (repeating_state H c o' (staged ot ct e) k b) =
    (if Suc b \<ge> B then Stopped else Blocked, repeating_state H c o' (staged ot ct e) k (Suc b))"
proof -
  let ?t = "repeating_state H c o' (staged ot ct e) k b"
  define n :: u32 where "n = of_nat (Suc b)"
  have k: "k + 1 = T + G" "k \<noteq> 0" "k + 1 < 2 ^ 32"
    using assms(1,2) clamped_pos [OF assms(1)] by (auto simp: clamped_def)
  have "unat (sat_add (of_nat k :: u32) 1) = T + G"
    using unat_of_nat_u32 [OF k(3)] sat_add_of_nat [OF k(3)] k(1) by simp
  then have ge: "\<not> sat_add (of_nat k) 1 < block_count ?t e"
    using repeating_thresholds(1) [OF assms(1)] by (simp only: word_less_nat_alt)
  have n: "unat n = Suc b" "sat_add (of_nat b) 1 = n"
    using unat_of_nat_u32 [of "b + 1"] sat_add_of_nat [of b] assms(3) by (simp_all add: n_def)
  have hb: "halt_block e \<le> n \<longleftrightarrow> Suc b \<ge> B"
    using n(1) assms(1) by (simp only: word_le_nat_alt clamped_def)
  have look: "lookup_u32 (recurrences ?t) (hash_pair H c o') = of_nat k"
    "map_of (last_outcome ?t) (hash_of H c) = Some (hash_pair H c o')" "hash_of H c \<in> predictable ?t"
    using k(2) by (simp_all add: repeating_state_def lookup_u32_def)
  have blk: "lookup_u32 (blocks ?t) (hash_of H c) = of_nat b" "length (blocks ?t) < MAX_TRACKED_CALLS"
    by (auto simp: repeating_state_def lookup_u32_def MAX_TRACKED_CALLS_def)
  have upd: "?t\<lparr>blocks := AList.update (hash_of H c) n (blocks ?t)\<rparr> =
      repeating_state H c o' (staged ot ct e) k (Suc b)"
    using k(2) unfolding n_def by (auto simp: repeating_state_def)
  show ?thesis
    using blk(2)
    by (simp add: attempt_once_def pre_call_def repeating_thresholds(4) [OF assms(1)] look ge blk(1) n(2) hb
        upd Let_def)
qed

lemma attempts_state_eq:
  assumes "clamped ct e T G B" "i < 2 ^ 32"
  shows "attempts_state H c o' i (staged ot ct e) =
    repeating_state H c o' (staged ot ct e) (min i (T + G - 1)) (i - (T + G - 1))"
  using assms(2)
proof (induction i)
  case 0
  show ?case using staged_repeating [of ot ct e H c o'] by simp
next
  case (Suc i)
  show ?case
  proof (cases "i + 1 < T + G")
    case True
    then show ?thesis
      using Suc attempt_runs [OF assms(1), of i H c o' ot] by (auto simp: min_def)
  next
    case False
    then have "min i (T + G - 1) = T + G - 1" "Suc (i - (T + G - 1)) = Suc i - (T + G - 1)"
      using clamped_pos [OF assms(1)] by auto
    then show ?thesis
      using Suc False attempt_blocked [OF assms(1) refl, of "i - (T + G - 1)" H c o' ot] by simp
  qed
qed

text \<open>
  C29. Staged escalation is exactly warn, block, stop: a model that keeps issuing one call which keeps
  returning one result has it executed \<open>T + G - 1\<close> times, is warned on execution \<open>T\<close> and on no other, has
  the following attempts answered without execution, and is stopped at the \<open>B\<close>-th of those (\<open>T\<close>, \<open>G\<close>,
  \<open>B\<close> the clamped settings).
\<close>

theorem staged_escalation_exact:
  assumes "clamped ct e T G B" "i < 2 ^ 32 - 1"
    and "out = fst (attempt_once H c o' (attempts_state H c o' i (staged ot ct e)))"
  shows "(i + 1 < T + G \<longrightarrow> (\<exists>m. out = Ran (if i + 1 = T then RWarn m else RContinue))) \<and>
    (T + G \<le> i + 1 \<and> i + 1 < T + G + B - 1 \<longrightarrow> out = Blocked) \<and>
    (T + G + B - 1 \<le> i + 1 \<longrightarrow> out = Stopped)"
proof -
  have st: "attempts_state H c o' i (staged ot ct e) =
      repeating_state H c o' (staged ot ct e) (min i (T + G - 1)) (i - (T + G - 1))"
    using attempts_state_eq [OF assms(1)] assms(2) by simp
  note pos = clamped_pos [OF assms(1)]
  show ?thesis
  proof (cases "i + 1 < T + G")
    case True
    then have "min i (T + G - 1) = i" "i - (T + G - 1) = 0" by auto
    then show ?thesis
      using attempt_runs [OF assms(1), of i H c o' ot] True pos unfolding assms(3) st by auto
  next
    case False
    then have "min i (T + G - 1) = T + G - 1" using pos by auto
    moreover have "Suc (i - (T + G - 1)) \<ge> B \<longleftrightarrow> T + G + B - 1 \<le> i + 1" using False pos by auto
    moreover have "Suc (i - (T + G - 1)) < 2 ^ 32" using assms(2) pos by simp
    ultimately have "out = (if T + G + B - 1 \<le> i + 1 then Stopped else Blocked)"
      using attempt_blocked [OF assms(1) refl] unfolding assms(3) st by simp
    then show ?thesis using False by auto
  qed
qed

theorem staged_escalation_exact_witness:
  "clamped 3 default_escalation 3 2 2 \<and>
   fst (attempt_once demo_hashes ''a'' ''r'' (attempts_state demo_hashes ''a'' ''r'' 4
     (staged 4 3 default_escalation))) = Blocked \<and>
   fst (attempt_once demo_hashes ''a'' ''r'' (attempts_state demo_hashes ''a'' ''r'' 5
     (staged 4 3 default_escalation))) = Stopped"
proof -
  have c: "clamped 3 default_escalation 3 2 2"
    by (simp add: clamped_def default_escalation_def gap_def halt_block_def max_def
        DEFAULT_BLOCK_AFTER_WARN_def DEFAULT_BLOCKS_BEFORE_HALT_def word_le_nat_alt)
  show ?thesis
    using c staged_escalation_exact [OF c, of 4 _ demo_hashes "''a''" "''r''" 4]
      staged_escalation_exact [OF c, of 5 _ demo_hashes "''a''" "''r''" 4] by simp
qed

section \<open>Signatures\<close>

lemma digits_value_append: "digits_value acc (xs @ [c]) = digits_value acc xs * 10 + ((of_char c :: nat) - 48)"
  by (induction acc xs rule: digits_value.induct) simp_all

lemma of_digit_char: "d < 10 \<Longrightarrow> (of_char (digit_char d) :: nat) = 48 + d"
  by (simp add: digit_char_def)

lemma show_nat_digits: "show_nat n \<noteq> [] \<and> list_all is_digit (show_nat n) \<and> digits_value 0 (show_nat n) = n"
proof (induction n rule: show_nat.induct)
  case (1 n)
  show ?case
  proof (cases "n < 10")
    case True
    then show ?thesis by (simp add: show_nat.simps [of n] is_digit_def of_digit_char)
  next
    case False
    then show ?thesis
      using 1 by (simp add: show_nat.simps [of n] is_digit_def of_digit_char digits_value_append)
  qed
qed

lemma parse_show_nat: "n < 2 ^ 64 \<Longrightarrow> parse_usize (show_nat n) = Some n"
proof -
  assume n: "n < 2 ^ 64"
  obtain c cs where s: "show_nat n = c # cs" using show_nat_digits [of n] by (cases "show_nat n") auto
  have "is_digit c" using show_nat_digits [of n] s by simp
  then have "c \<noteq> CHR ''+''" by (auto simp: is_digit_def)
  then show ?thesis using n show_nat_digits [of n] s by (simp add: parse_usize_def Let_def)
qed

text \<open>The length prefix makes the name recoverable whatever bytes it holds.\<close>

lemma tool_name_call_signature:
  assumes "length tool < 2 ^ 64"
  shows "tool_name (call_signature tool arguments) = tool"
proof -
  have d: "CHR '':'' \<notin> set (show_nat (length tool))"
    using show_nat_digits [of "length tool"] by (auto simp: list_all_iff is_digit_def)
  then have "takeWhile (\<lambda>c. c \<noteq> CHR '':'') (call_signature tool arguments) = show_nat (length tool)"
    "tl (dropWhile (\<lambda>c. c \<noteq> CHR '':'') (call_signature tool arguments)) = tool @ [CHR 0x01] @ arguments"
    unfolding call_signature_def by (subst takeWhile_append2, auto) (subst dropWhile_append2, auto)
  then show ?thesis
    using parse_show_nat [OF assms]
    by (simp add: tool_name_def get_prefix_def is_continuation_def call_signature_def nth_append)
qed

text \<open>Distinct calls have distinct signatures.\<close>

lemma call_signature_inj:
  assumes "call_signature t1 a1 = call_signature t2 a2" "length t1 < 2 ^ 64" "length t2 < 2 ^ 64"
  shows "t1 = t2 \<and> a1 = a2"
proof -
  have "t1 = t2"
    using tool_name_call_signature [OF assms(2), of a1] tool_name_call_signature [OF assms(3), of a2]
      assms(1) by simp
  then show ?thesis using assms(1) by (simp add: call_signature_def)
qed

end
