(* ===== verification/CancelTokens.thy ===== *)
theory CancelTokens
  imports Prelude
begin

text \<open>
  Cancellation tokens: \<open>tinyagents-harness/src/cancel/mod.rs\<close> and \<open>types.rs\<close>.

  A token is a shared pointer to a \<open>CancelState\<close>.  The fields fixed at creation (the parent and, through
  the root of the lineage, the registration lock) are in the datatype \<open>CancelState\<close>, whose index names
  the heap cell with the two fields that change: the flag and the weak links to the children.
  \<open>strong\<close> is the set of states that still have a strong reference; upgrading a weak link succeeds
  exactly for those.  A parent outlives its children, because a child holds a strong reference to it.

  After the sequential operations comes the interleaving of any number of threads that create tokens,
  link children, cancel, drop and wait.  The atomic actions are the critical sections of the
  registration lock, which the whole lineage shares, except that latching a flag and notifying the
  waiters are separate actions: a waiter reads the flag without the lock.
\<close>

section \<open>Tokens\<close>

datatype CancelState = CancelState (cs_id: nat) (cs_parent: "CancelState option")

fun ancestors :: "CancelState \<Rightarrow> CancelState list" where
  "ancestors (CancelState i None) = []"
| "ancestors (CancelState i (Some p)) = p # ancestors p"

fun lineage_root :: "CancelState \<Rightarrow> nat" where
  "lineage_root (CancelState i None) = i"
| "lineage_root (CancelState i (Some p)) = lineage_root p"

record cancel_cell =
  cc_cancelled :: bool
  cc_children :: "CancelState list"

record cancel_heap =
  cells :: "cancel_cell list"
  strong :: "nat set"

definition fresh_cell :: cancel_cell where
  "fresh_cell = \<lparr>cc_cancelled = False, cc_children = []\<rparr>"

definition cell_of :: "cancel_heap \<Rightarrow> CancelState \<Rightarrow> cancel_cell" where
  "cell_of h t = (if cs_id t < length (cells h) then cells h ! cs_id t else fresh_cell)"

definition upd_cell :: "CancelState \<Rightarrow> (cancel_cell \<Rightarrow> cancel_cell) \<Rightarrow> cancel_heap \<Rightarrow> cancel_heap" where
  "upd_cell t f h = h\<lparr>cells := (cells h)[cs_id t := f (cell_of h t)]\<rparr>"

definition is_cancelled :: "CancelState \<Rightarrow> cancel_heap \<Rightarrow> bool" where
  "is_cancelled t h \<longleftrightarrow> cc_cancelled (cell_of h t)"

definition upgrades :: "cancel_heap \<Rightarrow> CancelState \<Rightarrow> bool" where
  "upgrades h t \<longleftrightarrow> cs_id t \<in> strong h"

definition alloc_state :: "CancelState option \<Rightarrow> cancel_heap \<Rightarrow> CancelState \<times> cancel_heap" where
  "alloc_state parent h =
     (let i = length (cells h) in
      (CancelState i parent, h\<lparr>cells := cells h @ [fresh_cell], strong := insert i (strong h)\<rparr>))"

definition token_new :: "cancel_heap \<Rightarrow> CancelState \<times> cancel_heap" where
  "token_new h = alloc_state None h"

section \<open>Cancelling\<close>

definition latch :: "CancelState \<Rightarrow> cancel_heap \<Rightarrow> cancel_heap" where
  "latch t h = upd_cell t (\<lambda>c. c\<lparr>cc_cancelled := True\<rparr>) h"

definition drain_children :: "CancelState \<Rightarrow> cancel_heap \<Rightarrow> CancelState list \<times> cancel_heap" where
  "drain_children t h =
     (filter (upgrades h) (cc_children (cell_of h t)), upd_cell t (\<lambda>c. c\<lparr>cc_children := []\<rparr>) h)"

definition link_count :: "cancel_heap \<Rightarrow> nat" where
  "link_count h = (\<Sum>c\<leftarrow>cells h. length (cc_children c))"

lemma link_count_latch [simp]: "link_count (latch t h) = link_count h"
proof (cases "cs_id t < length (cells h)")
  case True
  then have "map (\<lambda>c. length (cc_children c)) (cells (latch t h)) = map (\<lambda>c. length (cc_children c)) (cells h)"
    by (intro nth_equalityI) (auto simp: latch_def upd_cell_def cell_of_def nth_list_update)
  then show ?thesis by (simp add: link_count_def)
qed (simp add: link_count_def latch_def upd_cell_def list_update_beyond)

lemma link_count_drain: "link_count (snd (drain_children t h)) + length (cc_children (cell_of h t)) = link_count h"
proof (cases "cs_id t < length (cells h)")
  case True
  then show ?thesis
    by (simp add: link_count_def drain_children_def upd_cell_def cell_of_def map_update sum_list_update
        elem_le_sum_list [of "cs_id t" "map (\<lambda>c. length (cc_children c)) (cells h)", simplified])
qed (simp add: link_count_def drain_children_def upd_cell_def cell_of_def fresh_cell_def list_update_beyond)

function cancel_pending :: "CancelState list \<Rightarrow> cancel_heap \<Rightarrow> cancel_heap" where
  "cancel_pending pending h =
     (if pending = [] then h
      else
        (let current = last pending;
             (children, h') = drain_children current (latch current h) in
         cancel_pending (butlast pending @ children) h'))"
  by pat_completeness auto
termination
proof (relation "measure (\<lambda>(pending, h). 2 * link_count h + length pending)", simp, clarify)
  fix pending :: "CancelState list" and h current children h'
  assume "pending \<noteq> []" and d: "(children, h') = drain_children (last pending) (latch (last pending) h)"
  have "length children \<le> length (cc_children (cell_of (latch (last pending) h) (last pending)))"
    using d by (simp add: drain_children_def)
  moreover have "link_count h' + length (cc_children (cell_of (latch (last pending) h) (last pending))) = link_count h"
    using link_count_drain [of "last pending" "latch (last pending) h"] arg_cong [OF d, of snd] by simp
  ultimately show "((butlast pending @ children, h'), pending, h)
      \<in> measure (\<lambda>(pending, h). 2 * link_count h + length pending)"
    using \<open>pending \<noteq> []\<close> by (cases pending rule: rev_cases) auto
qed

declare cancel_pending.simps [simp del]

definition cancel_state :: "CancelState \<Rightarrow> cancel_heap \<Rightarrow> cancel_heap" where
  "cancel_state t h = cancel_pending [t] h"

definition cancel :: "CancelState \<Rightarrow> cancel_heap \<Rightarrow> cancel_heap" where
  "cancel t h = cancel_state t h"

section \<open>Child tokens\<close>

text \<open>The critical section of \<open>child_token\<close>: the new state, whether an ancestor is cancelled, the heap.\<close>

definition register_child :: "CancelState \<Rightarrow> cancel_heap \<Rightarrow> CancelState \<times> bool \<times> cancel_heap" where
  "register_child t h =
     (let (child, h1) = alloc_state (Some t) h;
          h2 = upd_cell t (\<lambda>c. c\<lparr>cc_children := filter (upgrades h1) (cc_children c) @ [child]\<rparr>) h1 in
      (child, list_ex (\<lambda>a. is_cancelled a h2) (ancestors child), h2))"

definition child_token :: "CancelState \<Rightarrow> cancel_heap \<Rightarrow> CancelState \<times> cancel_heap" where
  "child_token t h =
     (let (child, ancestor_cancelled, h') = register_child t h in
      (child, if ancestor_cancelled then cancel child h' else h'))"
section \<open>Waiting\<close>

text \<open>
  The states of a \<open>cancelled\<close> future.  The flag of \<open>Enabled\<close> and \<open>Parked\<close> is whether the registered
  \<open>Notified\<close> future has been notified since it was enabled.
\<close>

datatype wait_phase = Looping | Enabled bool | Parked bool | Finished

definition wait_start :: "CancelState \<Rightarrow> cancel_heap \<Rightarrow> wait_phase" where
  "wait_start t h = (if is_cancelled t h then Finished else Looping)"

definition wait_next :: "CancelState \<Rightarrow> cancel_heap \<Rightarrow> wait_phase \<Rightarrow> wait_phase option" where
  "wait_next t h ph =
     (case ph of
        Looping \<Rightarrow> Some (Enabled False)
      | Enabled notified \<Rightarrow> Some (if is_cancelled t h then Finished else Parked notified)
      | Parked True \<Rightarrow> Some (if is_cancelled t h then Finished else Looping)
      | _ \<Rightarrow> None)"

fun notified :: "wait_phase \<Rightarrow> wait_phase" where
  "notified (Enabled _) = Enabled True"
| "notified (Parked _) = Parked True"
| "notified ph = ph"

section \<open>Interleaving\<close>

text \<open>
  A thread inside \<open>cancel_state\<close> has its stack of pending states and, between the latch and the end of
  the critical section, the state it holds the registration lock for.  \<open>requested\<close> records the tokens
  \<open>cancel\<close> was called on, \<open>tokens\<close> the states created.
\<close>

record cancel_thread =
  ct_pending :: "CancelState list"
  ct_holding :: "CancelState option"

record cancel_sys =
  s_heap :: cancel_heap
  s_threads :: "nat \<Rightarrow> cancel_thread option"
  s_waiters :: "nat \<Rightarrow> (CancelState \<times> wait_phase) option"
  s_tokens :: "CancelState set"
  s_requested :: "CancelState set"

definition holds :: "cancel_sys \<Rightarrow> CancelState \<Rightarrow> bool" where
  "holds s t \<longleftrightarrow> (\<exists>i th. s_threads s i = Some th \<and> ct_holding th = Some t)"

definition pends :: "cancel_sys \<Rightarrow> CancelState \<Rightarrow> bool" where
  "pends s t \<longleftrightarrow> (\<exists>i th. s_threads s i = Some th \<and> t \<in> set (ct_pending th))"

definition lock_free :: "cancel_sys \<Rightarrow> CancelState \<Rightarrow> bool" where
  "lock_free s t \<longleftrightarrow> (\<forall>u. holds s u \<longrightarrow> lineage_root u \<noteq> lineage_root t)"

definition usable :: "cancel_sys \<Rightarrow> CancelState \<Rightarrow> bool" where
  "usable s t \<longleftrightarrow> t \<in> s_tokens s \<and> upgrades (s_heap s) t"

definition notify_waiters :: "CancelState \<Rightarrow> (nat \<Rightarrow> (CancelState \<times> wait_phase) option)
    \<Rightarrow> nat \<Rightarrow> (CancelState \<times> wait_phase) option" where
  "notify_waiters t ws = (\<lambda>w. map_option (\<lambda>(u, ph). (u, if u = t then notified ph else ph)) (ws w))"

inductive cancel_step :: "cancel_sys \<Rightarrow> cancel_sys \<Rightarrow> bool" where
  new: "token_new (s_heap s) = (t, h) \<Longrightarrow>
    cancel_step s (s\<lparr>s_heap := h, s_tokens := insert t (s_tokens s)\<rparr>)"
| child: "usable s t \<Longrightarrow> lock_free s t \<Longrightarrow> s_threads s i = None \<Longrightarrow>
    register_child t (s_heap s) = (c, ancestor_cancelled, h) \<Longrightarrow>
    cancel_step s (s\<lparr>s_heap := h, s_tokens := insert c (s_tokens s),
      s_threads := (s_threads s)(i := if ancestor_cancelled then Some \<lparr>ct_pending = [c], ct_holding = None\<rparr> else None)\<rparr>)"
| cancel: "usable s t \<Longrightarrow> s_threads s i = None \<Longrightarrow>
    cancel_step s (s\<lparr>s_threads := (s_threads s)(i \<mapsto> \<lparr>ct_pending = [t], ct_holding = None\<rparr>),
      s_requested := insert t (s_requested s)\<rparr>)"
| latch: "s_threads s i = Some \<lparr>ct_pending = pending, ct_holding = None\<rparr> \<Longrightarrow> pending \<noteq> [] \<Longrightarrow>
    lock_free s (last pending) \<Longrightarrow>
    cancel_step s (s\<lparr>s_heap := latch (last pending) (s_heap s),
      s_threads := (s_threads s)(i \<mapsto> \<lparr>ct_pending = butlast pending, ct_holding = Some (last pending)\<rparr>)\<rparr>)"
| drain: "s_threads s i = Some \<lparr>ct_pending = pending, ct_holding = Some t\<rparr> \<Longrightarrow>
    drain_children t (s_heap s) = (children, h) \<Longrightarrow>
    cancel_step s (s\<lparr>s_heap := h, s_waiters := notify_waiters t (s_waiters s),
      s_threads := (s_threads s)(i \<mapsto> \<lparr>ct_pending = pending @ children, ct_holding = None\<rparr>)\<rparr>)"
| finish: "s_threads s i = Some \<lparr>ct_pending = [], ct_holding = None\<rparr> \<Longrightarrow>
    cancel_step s (s\<lparr>s_threads := (s_threads s)(i := None)\<rparr>)"
| drop: "usable s t \<Longrightarrow> \<not> pends s t \<Longrightarrow> \<not> holds s t \<Longrightarrow>
    \<forall>u. usable s u \<longrightarrow> cs_parent u \<noteq> Some t \<Longrightarrow> \<forall>w ph. s_waiters s w \<noteq> Some (t, ph) \<Longrightarrow>
    cancel_step s (s\<lparr>s_heap := (s_heap s)\<lparr>strong := strong (s_heap s) - {cs_id t}\<rparr>\<rparr>)"
| wait: "usable s t \<Longrightarrow> s_waiters s w = None \<Longrightarrow>
    cancel_step s (s\<lparr>s_waiters := (s_waiters s)(w \<mapsto> (t, wait_start t (s_heap s)))\<rparr>)"
| poll: "s_waiters s w = Some (t, ph) \<Longrightarrow> wait_next t (s_heap s) ph = Some ph' \<Longrightarrow>
    cancel_step s (s\<lparr>s_waiters := (s_waiters s)(w \<mapsto> (t, ph'))\<rparr>)"
| forget: "s_waiters s w = Some (t, ph) \<Longrightarrow>
    cancel_step s (s\<lparr>s_waiters := (s_waiters s)(w := None)\<rparr>)"

definition cancel_init :: cancel_sys where
  "cancel_init = \<lparr>s_heap = \<lparr>cells = [], strong = {}\<rparr>, s_threads = Map.empty, s_waiters = Map.empty,
     s_tokens = {}, s_requested = {}\<rparr>"

section \<open>The invariant\<close>

definition covers :: "CancelState set \<Rightarrow> CancelState \<Rightarrow> bool" where
  "covers R t \<longleftrightarrow> (\<exists>a \<in> insert t (set (ancestors t)). a \<in> R)"

definition heap_inv :: "cancel_sys \<Rightarrow> bool" where
  "heap_inv s \<longleftrightarrow>
     (\<forall>t \<in> s_tokens s. cs_id t < length (cells (s_heap s))) \<and>
     inj_on cs_id (s_tokens s) \<and>
     (\<forall>t \<in> s_tokens s. \<forall>p. cs_parent t = Some p \<longrightarrow> p \<in> s_tokens s) \<and>
     (\<forall>t p. usable s t \<longrightarrow> cs_parent t = Some p \<longrightarrow> usable s p) \<and>
     (\<forall>p \<in> s_tokens s. \<forall>t \<in> set (cc_children (cell_of (s_heap s) p)). t \<in> s_tokens s \<and> cs_parent t = Some p)"

definition thread_inv :: "cancel_sys \<Rightarrow> bool" where
  "thread_inv s \<longleftrightarrow>
     s_requested s \<subseteq> s_tokens s \<and>
     (\<forall>t. pends s t \<or> holds s t \<longrightarrow> usable s t) \<and>
     (\<forall>t. holds s t \<longrightarrow> is_cancelled t (s_heap s))"

definition reach_inv :: "cancel_sys \<Rightarrow> bool" where
  "reach_inv s \<longleftrightarrow>
     (\<forall>t p. usable s t \<longrightarrow> cs_parent t = Some p \<longrightarrow> \<not> is_cancelled p (s_heap s) \<or> holds s p \<longrightarrow>
        t \<in> set (cc_children (cell_of (s_heap s) p)) \<or> is_cancelled t (s_heap s) \<or> pends s t) \<and>
     (\<forall>t p. usable s t \<longrightarrow> cs_parent t = Some p \<longrightarrow> is_cancelled p (s_heap s) \<longrightarrow> \<not> holds s p \<longrightarrow>
        is_cancelled t (s_heap s) \<or> pends s t) \<and>
     (\<forall>t \<in> s_requested s. is_cancelled t (s_heap s) \<or> pends s t)"

definition cause_inv :: "cancel_sys \<Rightarrow> bool" where
  "cause_inv s \<longleftrightarrow>
     (\<forall>t \<in> s_tokens s. is_cancelled t (s_heap s) \<or> pends s t \<longrightarrow> covers (s_requested s) t)"

definition wait_inv :: "cancel_sys \<Rightarrow> bool" where
  "wait_inv s \<longleftrightarrow>
     (\<forall>w t ph. s_waiters s w = Some (t, ph) \<longrightarrow> usable s t) \<and>
     (\<forall>w t. s_waiters s w = Some (t, Parked False) \<longrightarrow> is_cancelled t (s_heap s) \<longrightarrow> holds s t) \<and>
     (\<forall>w t. s_waiters s w = Some (t, Finished) \<longrightarrow> is_cancelled t (s_heap s))"

lemmas sys_inv_defs = heap_inv_def thread_inv_def reach_inv_def cause_inv_def wait_inv_def
section \<open>Heap operations\<close>

lemma is_cancelled_upd [simp]:
  "is_cancelled u (latch t h) \<longleftrightarrow> is_cancelled u h \<or> cs_id u = cs_id t \<and> cs_id t < length (cells h)"
  "is_cancelled u (snd (drain_children t h)) \<longleftrightarrow> is_cancelled u h"
  "is_cancelled u (snd (alloc_state p h)) \<longleftrightarrow> is_cancelled u h"
  "is_cancelled u (snd (snd (register_child t h))) \<longleftrightarrow> is_cancelled u h"
  by (auto simp: is_cancelled_def latch_def drain_children_def alloc_state_def register_child_def upd_cell_def
      cell_of_def fresh_cell_def nth_list_update nth_append Let_def not_less less_Suc_eq)

lemma children_upd [simp]:
  "cc_children (cell_of (latch t h) u) = cc_children (cell_of h u)"
  "cc_children (cell_of (snd (drain_children t h)) u) = (if cs_id u = cs_id t then [] else cc_children (cell_of h u))"
  "cc_children (cell_of (snd (alloc_state p h)) u) = cc_children (cell_of h u)"
  by (auto simp: latch_def drain_children_def alloc_state_def upd_cell_def cell_of_def fresh_cell_def
      nth_list_update nth_append Let_def not_less less_Suc_eq)

lemma length_cells_upd [simp]:
  "length (cells (latch t h)) = length (cells h)"
  "length (cells (snd (drain_children t h))) = length (cells h)"
  "length (cells (snd (alloc_state p h))) = Suc (length (cells h))"
  "length (cells (snd (snd (register_child t h)))) = Suc (length (cells h))"
  by (simp_all add: latch_def drain_children_def alloc_state_def register_child_def upd_cell_def Let_def)

lemma upgrades_upd [simp]:
  "upgrades (latch t h) u \<longleftrightarrow> upgrades h u"
  "upgrades (snd (drain_children t h)) u \<longleftrightarrow> upgrades h u"
  "upgrades (snd (alloc_state p h)) u \<longleftrightarrow> upgrades h u \<or> cs_id u = length (cells h)"
  "upgrades (snd (snd (register_child t h))) u \<longleftrightarrow> upgrades h u \<or> cs_id u = length (cells h)"
  "upgrades (h\<lparr>strong := S\<rparr>) u \<longleftrightarrow> cs_id u \<in> S"
  by (auto simp: upgrades_def latch_def drain_children_def alloc_state_def register_child_def upd_cell_def Let_def)

lemma strong_upd [simp]:
  "is_cancelled u (h\<lparr>strong := S\<rparr>) = is_cancelled u h" "cell_of (h\<lparr>strong := S\<rparr>) u = cell_of h u"
  by (simp_all add: is_cancelled_def cell_of_def)

lemma children_register:
  assumes "cs_id t < length (cells h)"
  shows "cc_children (cell_of (snd (snd (register_child t h))) u) =
    (if cs_id u = cs_id t
     then filter (\<lambda>c. upgrades h c \<or> cs_id c = length (cells h)) (cc_children (cell_of h t)) @ [fst (register_child t h)]
     else cc_children (cell_of h u))"
  using assms
  by (auto simp: register_child_def alloc_state_def upd_cell_def cell_of_def fresh_cell_def upgrades_def
      nth_list_update nth_append Let_def not_less less_Suc_eq intro!: filter_cong)

lemma register_child_fst: "fst (register_child t h) = CancelState (length (cells h)) (Some t)"
  by (simp add: register_child_def alloc_state_def Let_def)

lemma register_child_cancelled:
  "fst (snd (register_child t h)) \<longleftrightarrow> (\<exists>a \<in> insert t (set (ancestors t)). is_cancelled a h)"
proof -
  have "is_cancelled a (upd_cell t (\<lambda>c. c\<lparr>cc_children := F c\<rparr>) (snd (alloc_state (Some t) h))) = is_cancelled a h" for a F
    by (auto simp: is_cancelled_def alloc_state_def upd_cell_def cell_of_def fresh_cell_def nth_list_update
        nth_append Let_def not_less less_Suc_eq)
  then show ?thesis
    by (auto simp: register_child_def alloc_state_def Let_def list_ex_iff)
qed

lemmas register_facts = register_child_fst register_child_cancelled children_register

lemma ancestors_unfold: "ancestors t = (case cs_parent t of None \<Rightarrow> [] | Some p \<Rightarrow> p # ancestors p)"
  by (cases t rule: ancestors.cases) auto

lemma covers_parent: "cs_parent t = Some p \<Longrightarrow> covers R p \<Longrightarrow> covers R t"
  by (auto simp: covers_def ancestors_unfold [of t])

lemma covers_mono: "covers R t \<Longrightarrow> R \<subseteq> R' \<Longrightarrow> covers R' t"
  by (auto simp: covers_def)

section \<open>Threads\<close>

lemma pends_upd:
  "s_threads s' = (s_threads s)(i := th) \<Longrightarrow> pends s' t \<longleftrightarrow>
     (\<exists>x. th = Some x \<and> t \<in> set (ct_pending x)) \<or> (\<exists>j x. j \<noteq> i \<and> s_threads s j = Some x \<and> t \<in> set (ct_pending x))"
  by (auto simp: pends_def)

lemma holds_upd:
  "s_threads s' = (s_threads s)(i := th) \<Longrightarrow> holds s' t \<longleftrightarrow>
     (\<exists>x. th = Some x \<and> ct_holding x = Some t) \<or> (\<exists>j x. j \<noteq> i \<and> s_threads s j = Some x \<and> ct_holding x = Some t)"
  by (auto simp: holds_def)

lemma pends_split:
  "s_threads s i = th \<Longrightarrow> pends s t \<longleftrightarrow>
     (\<exists>x. th = Some x \<and> t \<in> set (ct_pending x)) \<or> (\<exists>j x. j \<noteq> i \<and> s_threads s j = Some x \<and> t \<in> set (ct_pending x))"
  by (auto simp: pends_def)

lemma holds_split:
  "s_threads s i = th \<Longrightarrow> holds s t \<longleftrightarrow>
     (\<exists>x. th = Some x \<and> ct_holding x = Some t) \<or> (\<exists>j x. j \<noteq> i \<and> s_threads s j = Some x \<and> ct_holding x = Some t)"
  by (auto simp: holds_def)

text \<open>What a thread pends and holds after one of its own steps.\<close>

lemma thread_upd:
  assumes "s_threads s i = th" "s_threads s' = (s_threads s)(i := th')"
  shows "pends s' t \<or> (\<exists>x. th = Some x \<and> t \<in> set (ct_pending x)) \<longleftrightarrow>
      pends s t \<or> (\<exists>x. th' = Some x \<and> t \<in> set (ct_pending x))"
    and "holds s' t \<or> (\<exists>x. th = Some x \<and> ct_holding x = Some t) \<longleftrightarrow>
      holds s t \<or> (\<exists>x. th' = Some x \<and> ct_holding x = Some t)"
  unfolding pends_upd [OF assms(2)] holds_upd [OF assms(2)] pends_split [OF assms(1)] holds_split [OF assms(1)]
  by auto

lemma same_threads:
  "s_threads s' = s_threads s \<Longrightarrow> pends s' t = pends s t" "s_threads s' = s_threads s \<Longrightarrow> holds s' t = holds s t"
  by (simp_all add: pends_def holds_def)
definition sys_inv :: "cancel_sys \<Rightarrow> bool" where
  "sys_inv s \<longleftrightarrow> heap_inv s \<and> thread_inv s \<and> reach_inv s \<and> cause_inv s \<and> wait_inv s"

lemma sys_invD:
  assumes "sys_inv s"
  shows "heap_inv s" "thread_inv s" "reach_inv s" "cause_inv s" "wait_inv s"
  using assms by (simp_all add: sys_inv_def)

lemma heap_invD:
  assumes "heap_inv s"
  shows "t \<in> s_tokens s \<Longrightarrow> cs_id t < length (cells (s_heap s))"
    and "t \<in> s_tokens s \<Longrightarrow> u \<in> s_tokens s \<Longrightarrow> cs_id t = cs_id u \<longleftrightarrow> t = u"
    and "t \<in> s_tokens s \<Longrightarrow> cs_parent t = Some p \<Longrightarrow> p \<in> s_tokens s"
    and "usable s t \<Longrightarrow> cs_parent t = Some p \<Longrightarrow> usable s p"
    and "p \<in> s_tokens s \<Longrightarrow> t \<in> set (cc_children (cell_of (s_heap s) p)) \<Longrightarrow> t \<in> s_tokens s \<and> cs_parent t = Some p"
  using assms unfolding heap_inv_def inj_on_def by blast+

lemma heap_invI:
  assumes "\<forall>t \<in> s_tokens s. cs_id t < length (cells (s_heap s))" "inj_on cs_id (s_tokens s)"
    and "\<And>t p. t \<in> s_tokens s \<Longrightarrow> cs_parent t = Some p \<Longrightarrow> p \<in> s_tokens s"
    and "\<And>t p. usable s t \<Longrightarrow> cs_parent t = Some p \<Longrightarrow> usable s p"
    and "\<And>p t. p \<in> s_tokens s \<Longrightarrow> t \<in> set (cc_children (cell_of (s_heap s) p)) \<Longrightarrow> t \<in> s_tokens s \<and> cs_parent t = Some p"
  shows "heap_inv s"
  unfolding heap_inv_def using assms by blast

lemma reach_invD:
  assumes "reach_inv s" "usable s t" "cs_parent t = Some p"
  shows "\<not> is_cancelled p (s_heap s) \<or> holds s p \<Longrightarrow>
      t \<in> set (cc_children (cell_of (s_heap s) p)) \<or> is_cancelled t (s_heap s) \<or> pends s t"
    and "is_cancelled p (s_heap s) \<Longrightarrow> \<not> holds s p \<Longrightarrow> is_cancelled t (s_heap s) \<or> pends s t"
  using assms unfolding reach_inv_def by blast+

lemma reach_requested: "reach_inv s \<Longrightarrow> t \<in> s_requested s \<Longrightarrow> is_cancelled t (s_heap s) \<or> pends s t"
  unfolding reach_inv_def by blast

lemma reach_invI:
  assumes "\<And>t p. usable s t \<Longrightarrow> cs_parent t = Some p \<Longrightarrow> \<not> is_cancelled p (s_heap s) \<or> holds s p \<Longrightarrow>
      t \<in> set (cc_children (cell_of (s_heap s) p)) \<or> is_cancelled t (s_heap s) \<or> pends s t"
    and "\<And>t p. usable s t \<Longrightarrow> cs_parent t = Some p \<Longrightarrow> is_cancelled p (s_heap s) \<Longrightarrow> \<not> holds s p \<Longrightarrow>
      is_cancelled t (s_heap s) \<or> pends s t"
    and "\<And>t. t \<in> s_requested s \<Longrightarrow> is_cancelled t (s_heap s) \<or> pends s t"
  shows "reach_inv s"
  unfolding reach_inv_def using assms by blast

lemma usable_token: "usable s t \<Longrightarrow> t \<in> s_tokens s"
  by (simp add: usable_def)

lemma fresh_not_cancelled: "length (cells h) \<le> cs_id t \<Longrightarrow> \<not> is_cancelled t h"
  by (simp add: is_cancelled_def cell_of_def fresh_cell_def)

lemma fresh_children: "length (cells h) \<le> cs_id t \<Longrightarrow> cc_children (cell_of h t) = []"
  by (simp add: cell_of_def fresh_cell_def)

text \<open>A step that only adds a state without a parent.\<close>

lemma inv_new:
  assumes inv: "sys_inv s" and new: "token_new (s_heap s) = (t, h)"
  shows "sys_inv (s\<lparr>s_heap := h, s_tokens := insert t (s_tokens s)\<rparr>)"
proof -
  define s' where "s' = s\<lparr>s_heap := h, s_tokens := insert t (s_tokens s)\<rparr>"
  note H = heap_invD [OF sys_invD(1) [OF inv]]
  have h: "h = snd (alloc_state None (s_heap s))" and t: "cs_id t = length (cells (s_heap s))" "cs_parent t = None"
    using new by (auto simp: token_new_def alloc_state_def Let_def)
  have ids: "u \<in> s_tokens s \<Longrightarrow> cs_id u \<noteq> length (cells (s_heap s))" for u using H(1) [of u] by simp
  then have tok: "t \<notin> s_tokens s" using t(1) by blast
  have eff: "pends s' u = pends s u" "holds s' u = holds s u" "usable s' u \<longleftrightarrow> usable s u \<or> u = t"
    "is_cancelled u (s_heap s') = is_cancelled u (s_heap s)"
    "cc_children (cell_of (s_heap s') u) = cc_children (cell_of (s_heap s) u)"
    "s_tokens s' = insert t (s_tokens s)" "s_requested s' = s_requested s" "s_waiters s' = s_waiters s" for u
    using ids [of u] t by (simp_all add: s'_def usable_def h pends_def holds_def) blast
  have no: "\<not> pends s t" "\<not> holds s t" "\<not> is_cancelled t (s_heap s)" "cc_children (cell_of (s_heap s) t) = []"
    using sys_invD(2) [OF inv] tok t(1) by (auto simp: thread_inv_def usable_def fresh_not_cancelled fresh_children)
  have len: "length (cells (s_heap s')) = Suc (length (cells (s_heap s)))" by (simp add: s'_def h)
  have "\<forall>u \<in> s_tokens s'. cs_id u < length (cells (s_heap s'))"
    using H(1) t(1) by (auto simp: eff len less_Suc_eq)
  moreover have "inj_on cs_id (s_tokens s')"
    using H(1,2) t(1) by (fastforce simp: inj_on_def eff)
  ultimately have "heap_inv s'"
  proof (rule heap_invI)
    show "u \<in> s_tokens s' \<Longrightarrow> cs_parent u = Some p \<Longrightarrow> p \<in> s_tokens s'" for u p
      using H(3) [of u p] t(2) by (auto simp: eff)
    show "usable s' u \<Longrightarrow> cs_parent u = Some p \<Longrightarrow> usable s' p" for u p
      using H(4) [of u p] t(2) by (auto simp: eff)
    show "p \<in> s_tokens s' \<Longrightarrow> u \<in> set (cc_children (cell_of (s_heap s') p)) \<Longrightarrow> u \<in> s_tokens s' \<and> cs_parent u = Some p" for u p
      using H(5) [of p u] no(4) by (auto simp: eff)
  qed
  moreover have "thread_inv s'"
    unfolding thread_inv_def eff using sys_invD(2) [OF inv, unfolded thread_inv_def] by blast
  moreover have "reach_inv s'"
  proof (rule reach_invI)
    fix u p assume u: "usable s' u" "cs_parent u = Some p"
    then have "usable s u" using t(2) unfolding eff by auto
    note R = reach_invD [OF sys_invD(3) [OF inv] this u(2)]
    show "\<not> is_cancelled p (s_heap s') \<or> holds s' p \<Longrightarrow>
        u \<in> set (cc_children (cell_of (s_heap s') p)) \<or> is_cancelled u (s_heap s') \<or> pends s' u"
      unfolding eff by (rule R(1))
    show "is_cancelled p (s_heap s') \<Longrightarrow> \<not> holds s' p \<Longrightarrow> is_cancelled u (s_heap s') \<or> pends s' u"
      unfolding eff by (rule R(2))
  qed (unfold eff, rule reach_requested [OF sys_invD(3) [OF inv]])
  moreover have "cause_inv s'"
    unfolding cause_inv_def eff using sys_invD(4) [OF inv, unfolded cause_inv_def] no by blast
  moreover have "wait_inv s'"
    unfolding wait_inv_def eff using sys_invD(5) [OF inv, unfolded wait_inv_def] by blast
  ultimately show ?thesis by (simp add: sys_inv_def s'_def)
qed

lemma inv_cancel:
  assumes inv: "sys_inv s" and use: "usable s t" and idle: "s_threads s i = None"
  shows "sys_inv (s\<lparr>s_threads := (s_threads s)(i \<mapsto> \<lparr>ct_pending = [t], ct_holding = None\<rparr>),
      s_requested := insert t (s_requested s)\<rparr>)"
proof -
  define s' where "s' = s\<lparr>s_threads := (s_threads s)(i \<mapsto> \<lparr>ct_pending = [t], ct_holding = None\<rparr>),
      s_requested := insert t (s_requested s)\<rparr>"
  have eff: "pends s' u \<longleftrightarrow> pends s u \<or> u = t" "holds s' u \<longleftrightarrow> holds s u" "usable s' u = usable s u"
    "s_heap s' = s_heap s" "s_tokens s' = s_tokens s" "s_waiters s' = s_waiters s" "s_requested s' = insert t (s_requested s)" for u
    using thread_upd [OF idle, of s'] by (auto simp: usable_def s'_def)
  have c: "covers (insert t (s_requested s)) t" "covers (s_requested s) u \<Longrightarrow> covers (insert t (s_requested s)) u" for u
    by (auto simp: covers_def)
  have "heap_inv s'" using sys_invD(1) [OF inv] unfolding heap_inv_def eff .
  moreover have "thread_inv s'"
    unfolding thread_inv_def eff
    using sys_invD(2) [OF inv, unfolded thread_inv_def] use usable_token [OF use] by blast
  moreover have "reach_inv s'"
    unfolding reach_inv_def eff using sys_invD(3) [OF inv, unfolded reach_inv_def] by blast
  moreover have "cause_inv s'"
    unfolding cause_inv_def eff using sys_invD(4) [OF inv, unfolded cause_inv_def] c by blast
  moreover have "wait_inv s'"
    unfolding wait_inv_def eff using sys_invD(5) [OF inv, unfolded wait_inv_def] .
  ultimately show ?thesis by (simp add: sys_inv_def s'_def)
qed

text \<open>Steps that change neither the heap nor what is pending: only the waiters are left to check.\<close>

lemma inv_frame:
  assumes inv: "sys_inv s" and same: "s_heap s' = s_heap s" "s_tokens s' = s_tokens s" "s_requested s' = s_requested s"
    "\<And>u. pends s' u = pends s u" "\<And>u. holds s' u = holds s u" and w: "wait_inv s'"
  shows "sys_inv s'"
proof -
  have u: "usable s' u = usable s u" for u by (simp add: usable_def same)
  have "heap_inv s' = heap_inv s" "thread_inv s' = thread_inv s" "reach_inv s' = reach_inv s" "cause_inv s' = cause_inv s"
    by (simp_all add: heap_inv_def thread_inv_def reach_inv_def cause_inv_def same u)
  then show ?thesis using inv w by (simp add: sys_inv_def)
qed

lemma inv_finish:
  assumes inv: "sys_inv s" and idle: "s_threads s i = Some \<lparr>ct_pending = [], ct_holding = None\<rparr>"
  shows "sys_inv (s\<lparr>s_threads := (s_threads s)(i := None)\<rparr>)" (is "sys_inv ?s'")
proof -
  have p: "pends ?s' u \<longleftrightarrow> pends s u" "holds ?s' u \<longleftrightarrow> holds s u" "usable ?s' u = usable s u" for u
    using thread_upd [OF idle, of ?s'] by (auto simp: usable_def)
  show ?thesis
    by (rule inv_frame [OF inv]) (use sys_invD(5) [OF inv] in \<open>simp_all add: p wait_inv_def\<close>)
qed

lemma inv_waiters:
  assumes inv: "sys_inv s"
    and new: "\<And>t ph. o' = Some (t, ph) \<Longrightarrow> usable s t \<and> (ph = Finished \<longrightarrow> is_cancelled t (s_heap s)) \<and>
      (ph = Parked False \<longrightarrow> \<not> is_cancelled t (s_heap s))"
  shows "sys_inv (s\<lparr>s_waiters := (s_waiters s)(w := o')\<rparr>)" (is "sys_inv ?s'")
proof -
  have p: "pends ?s' u \<longleftrightarrow> pends s u" "holds ?s' u \<longleftrightarrow> holds s u" "usable ?s' u = usable s u" for u
    by (simp_all add: pends_def holds_def usable_def)
  have old: "s_waiters ?s' v = Some (t, ph) \<Longrightarrow> s_waiters s v = Some (t, ph) \<or> o' = Some (t, ph)" for v t ph
    by (simp split: if_splits)
  show ?thesis
  proof (rule inv_frame [OF inv])
    show "wait_inv ?s'"
      unfolding wait_inv_def p using sys_invD(5) [OF inv, unfolded wait_inv_def] new old by simp blast
  qed (simp_all add: p)
qed

lemma inv_drop:
  assumes inv: "sys_inv s" and use: "usable s t" and idle: "\<not> pends s t" "\<not> holds s t"
    and leaf: "\<forall>u. usable s u \<longrightarrow> cs_parent u \<noteq> Some t" and unread: "\<forall>w ph. s_waiters s w \<noteq> Some (t, ph)"
  shows "sys_inv (s\<lparr>s_heap := (s_heap s)\<lparr>strong := strong (s_heap s) - {cs_id t}\<rparr>\<rparr>)"
proof -
  define s' where "s' = s\<lparr>s_heap := (s_heap s)\<lparr>strong := strong (s_heap s) - {cs_id t}\<rparr>\<rparr>"
  note H = heap_invD [OF sys_invD(1) [OF inv]]
  have eff: "pends s' u \<longleftrightarrow> pends s u" "holds s' u \<longleftrightarrow> holds s u" "usable s' u \<longleftrightarrow> usable s u \<and> u \<noteq> t"
    "is_cancelled u (s_heap s') = is_cancelled u (s_heap s)" "cell_of (s_heap s') u = cell_of (s_heap s) u"
    "length (cells (s_heap s')) = length (cells (s_heap s))"
    "s_tokens s' = s_tokens s" "s_waiters s' = s_waiters s" "s_requested s' = s_requested s" for u
    using H(2) [of u t] usable_token [OF use] by (simp_all add: usable_def upgrades_def s'_def pends_def holds_def) blast
  have "heap_inv s'"
    unfolding heap_inv_def eff using sys_invD(1) [OF inv, unfolded heap_inv_def] leaf by blast
  moreover have "thread_inv s'"
    unfolding thread_inv_def eff using sys_invD(2) [OF inv, unfolded thread_inv_def] idle by blast
  moreover have "reach_inv s'"
    unfolding reach_inv_def eff using sys_invD(3) [OF inv, unfolded reach_inv_def] by blast
  moreover have "cause_inv s'"
    unfolding cause_inv_def eff using sys_invD(4) [OF inv, unfolded cause_inv_def] by blast
  moreover have "wait_inv s'"
    unfolding wait_inv_def eff using sys_invD(5) [OF inv, unfolded wait_inv_def] unread by blast
  ultimately show ?thesis by (simp add: sys_inv_def s'_def)
qed

lemma ancestors_trans: "b \<in> set (ancestors a) \<Longrightarrow> a \<in> set (ancestors t) \<Longrightarrow> b \<in> set (ancestors t)"
  by (induction t rule: ancestors.induct) auto

lemma covers_ancestor: "a \<in> set (ancestors t) \<Longrightarrow> covers R a \<Longrightarrow> covers R t"
  by (auto simp: covers_def intro: ancestors_trans)

lemma ancestors_tokens:
  assumes "heap_inv s" "t \<in> s_tokens s" "a \<in> set (ancestors t)"
  shows "a \<in> s_tokens s"
  using assms(2,3) heap_invD(3) [OF assms(1)] by (induction t rule: ancestors.induct) auto

lemma inv_child:
  assumes inv: "sys_inv s" and use: "usable s t" and idle: "s_threads s i = None"
    and reg: "register_child t (s_heap s) = (c, ancestor_cancelled, h)"
  shows "sys_inv (s\<lparr>s_heap := h, s_tokens := insert c (s_tokens s),
      s_threads := (s_threads s)(i := if ancestor_cancelled then Some \<lparr>ct_pending = [c], ct_holding = None\<rparr> else None)\<rparr>)"
proof -
  define s' where "s' = s\<lparr>s_heap := h, s_tokens := insert c (s_tokens s),
      s_threads := (s_threads s)(i := if ancestor_cancelled then Some \<lparr>ct_pending = [c], ct_holding = None\<rparr> else None)\<rparr>"
  note H = heap_invD [OF sys_invD(1) [OF inv]]
  have t: "t \<in> s_tokens s" using use by (rule usable_token)
  have h: "h = snd (snd (register_child t (s_heap s)))" using reg by simp
  have c: "cs_id c = length (cells (s_heap s))" "cs_parent c = Some t" "ancestors c = t # ancestors t"
    using reg register_child_fst [of t "s_heap s"] by auto
  have flag: "ancestor_cancelled \<longleftrightarrow> (\<exists>a \<in> insert t (set (ancestors t)). is_cancelled a (s_heap s))"
    using reg register_child_cancelled [of t "s_heap s"] by simp
  have ids: "u \<in> s_tokens s \<Longrightarrow> cs_id u \<noteq> length (cells (s_heap s))" for u using H(1) [of u] by simp
  then have tok: "c \<notin> s_tokens s" using c(1) by blast
  have eff: "pends s' u \<longleftrightarrow> pends s u \<or> ancestor_cancelled \<and> u = c" "holds s' u = holds s u"
    "usable s' u \<longleftrightarrow> usable s u \<or> u = c" "is_cancelled u (s_heap s') = is_cancelled u (s_heap s)"
    "s_tokens s' = insert c (s_tokens s)" "s_requested s' = s_requested s" "s_waiters s' = s_waiters s" for u
    using thread_upd [OF idle, of s'] ids [of u] c(1) by (auto simp: s'_def usable_def h)
  have kids: "cc_children (cell_of (s_heap s') u) =
      (if cs_id u = cs_id t then filter (\<lambda>x. upgrades (s_heap s) x \<or> cs_id x = length (cells (s_heap s)))
          (cc_children (cell_of (s_heap s) t)) @ [c] else cc_children (cell_of (s_heap s) u))" for u
    using children_register [OF H(1) [OF t], of u] reg by (simp add: s'_def)
  have no: "\<not> pends s c" "\<not> holds s c" "\<not> is_cancelled c (s_heap s)" "cc_children (cell_of (s_heap s) c) = []"
    using sys_invD(2) [OF inv] tok c(1) by (auto simp: thread_inv_def usable_def fresh_not_cancelled fresh_children)
  have len: "length (cells (s_heap s')) = Suc (length (cells (s_heap s)))" by (simp add: s'_def h)
  have "\<forall>u \<in> s_tokens s'. cs_id u < length (cells (s_heap s'))"
    using H(1) c(1) by (auto simp: eff len less_Suc_eq)
  moreover have "inj_on cs_id (s_tokens s')"
    using H(1,2) c(1) by (fastforce simp: inj_on_def eff)
  ultimately have "heap_inv s'"
  proof (rule heap_invI)
    show "u \<in> s_tokens s' \<Longrightarrow> cs_parent u = Some p \<Longrightarrow> p \<in> s_tokens s'" for u p
      using H(3) [of u p] c(2) t by (auto simp: eff)
    show "usable s' u \<Longrightarrow> cs_parent u = Some p \<Longrightarrow> usable s' p" for u p
      using H(4) [of u p] c(2) use by (auto simp: eff)
    show "p \<in> s_tokens s' \<Longrightarrow> u \<in> set (cc_children (cell_of (s_heap s') p)) \<Longrightarrow> u \<in> s_tokens s' \<and> cs_parent u = Some p" for u p
      using H(5) [of p u] H(2) [OF _ t, of p] no(4) ids [OF t] c t
      by (auto simp: eff kids split: if_splits)
  qed
  moreover have "thread_inv s'"
    using sys_invD(2) [OF inv] unfolding thread_inv_def eff by blast
  moreover have "reach_inv s'"
  proof (rule reach_invI)
    fix u p assume u: "usable s' u" "cs_parent u = Some p"
    have old: "usable s u" if "u \<noteq> c" using that u(1) eff(3) by simp
    have p: "p \<in> s_tokens s" if "u \<noteq> c" using usable_token [OF H(4) [OF old [OF that] u(2)]] .
    note R = reach_invD [OF sys_invD(3) [OF inv] old u(2)]
    show "\<not> is_cancelled p (s_heap s') \<or> holds s' p \<Longrightarrow>
        u \<in> set (cc_children (cell_of (s_heap s') p)) \<or> is_cancelled u (s_heap s') \<or> pends s' u"
    proof (cases "u = c")
      case True
      then show ?thesis using u(2) c(2) by (simp add: kids)
    next
      case False
      assume "\<not> is_cancelled p (s_heap s') \<or> holds s' p"
      with R(1) [OF False] have "u \<in> set (cc_children (cell_of (s_heap s) p)) \<or> is_cancelled u (s_heap s) \<or> pends s u"
        unfolding eff .
      then show ?thesis
        using H(2) [OF p [OF False] t] old [OF False] by (auto simp: eff kids usable_def)
    qed
    show "is_cancelled p (s_heap s') \<Longrightarrow> \<not> holds s' p \<Longrightarrow> is_cancelled u (s_heap s') \<or> pends s' u"
      using R(2) u(2) c(2) flag unfolding eff by (cases "u = c") auto
  qed (use reach_requested [OF sys_invD(3) [OF inv]] in \<open>auto simp: eff\<close>)
  moreover have "cause_inv s'"
  proof -
    have "covers (s_requested s) c" if ancestor_cancelled
    proof -
      from that flag obtain a where a: "a \<in> insert t (set (ancestors t))" "is_cancelled a (s_heap s)" by blast
      have "a \<in> s_tokens s" using a(1) t ancestors_tokens [OF sys_invD(1) [OF inv] t] by blast
      with a(2) sys_invD(4) [OF inv] have "covers (s_requested s) a" unfolding cause_inv_def by blast
      with a(1) show ?thesis by (intro covers_ancestor [of a c]) (simp_all add: c(3))
    qed
    then show ?thesis
      using sys_invD(4) [OF inv] no unfolding cause_inv_def eff by blast
  qed
  moreover have "wait_inv s'"
    using sys_invD(5) [OF inv] unfolding wait_inv_def eff by blast
  ultimately show ?thesis by (simp add: sys_inv_def s'_def)
qed

lemma inv_latch:
  assumes inv: "sys_inv s" and th: "s_threads s i = Some \<lparr>ct_pending = pending, ct_holding = None\<rparr>"
    and ne: "pending \<noteq> []"
  shows "sys_inv (s\<lparr>s_heap := latch (last pending) (s_heap s),
      s_threads := (s_threads s)(i \<mapsto> \<lparr>ct_pending = butlast pending, ct_holding = Some (last pending)\<rparr>)\<rparr>)"
proof -
  define t where "t = last pending"
  define s' where "s' = s\<lparr>s_heap := latch t (s_heap s),
      s_threads := (s_threads s)(i \<mapsto> \<lparr>ct_pending = butlast pending, ct_holding = Some t\<rparr>)\<rparr>"
  note H = heap_invD [OF sys_invD(1) [OF inv]]
  have pt: "pends s t" using ne by (simp add: pends_split [OF th] t_def)
  then have use: "usable s t" using sys_invD(2) [OF inv] unfolding thread_inv_def by blast
  have t: "t \<in> s_tokens s" using use by (rule usable_token)
  have set: "set pending = insert t (set (butlast pending))"
    using ne by (cases pending rule: rev_cases) (auto simp: t_def)
  have thr: "s_threads s' = (s_threads s)(i \<mapsto> \<lparr>ct_pending = butlast pending, ct_holding = Some t\<rparr>)"
    by (simp add: s'_def)
  have eff: "holds s' u \<longleftrightarrow> holds s u \<or> u = t" "pends s' u \<Longrightarrow> pends s u" "pends s u \<Longrightarrow> pends s' u \<or> u = t"
    "usable s' u = usable s u" "cc_children (cell_of (s_heap s') u) = cc_children (cell_of (s_heap s) u)"
    "s_tokens s' = s_tokens s" "s_requested s' = s_requested s" "s_waiters s' = s_waiters s" for u
    unfolding pends_upd [OF thr] holds_upd [OF thr] pends_split [OF th] holds_split [OF th]
    by (auto simp: s'_def usable_def set)
  have canc: "u \<in> s_tokens s \<Longrightarrow> is_cancelled u (s_heap s') \<longleftrightarrow> is_cancelled u (s_heap s) \<or> u = t" for u
    using H(1) [OF t] H(2) [OF _ t, of u] by (auto simp: s'_def)
  have len: "length (cells (s_heap s')) = length (cells (s_heap s))" by (simp add: s'_def)
  have "heap_inv s'" using sys_invD(1) [OF inv] unfolding heap_inv_def eff len .
  moreover have "thread_inv s'"
  proof -
    have "is_cancelled u (s_heap s')" if "holds s' u" for u
      using that sys_invD(2) [OF inv] t canc [of u] usable_token [of s u]
      unfolding thread_inv_def eff by blast
    then show ?thesis
      using sys_invD(2) [OF inv] use eff(1,2) unfolding thread_inv_def eff(4,6,7) by blast
  qed
  moreover have "reach_inv s'"
  proof (rule reach_invI)
    fix u p assume u': "usable s' u" "cs_parent u = Some p"
    then have u: "usable s u" by (simp add: eff)
    note R = reach_invD [OF sys_invD(3) [OF inv] u u'(2)]
    have tok: "u \<in> s_tokens s" "p \<in> s_tokens s" using usable_token [OF u] usable_token [OF H(4) [OF u u'(2)]] .
    have up: "is_cancelled u (s_heap s) \<or> pends s u \<Longrightarrow> is_cancelled u (s_heap s') \<or> pends s' u"
      using canc [OF tok(1)] eff(3) [of u] by blast
    show "\<not> is_cancelled p (s_heap s') \<or> holds s' p \<Longrightarrow>
        u \<in> set (cc_children (cell_of (s_heap s') p)) \<or> is_cancelled u (s_heap s') \<or> pends s' u"
      using R up canc [OF tok(2)] unfolding eff(1,5) by blast
    show "is_cancelled p (s_heap s') \<Longrightarrow> \<not> holds s' p \<Longrightarrow> is_cancelled u (s_heap s') \<or> pends s' u"
      using R(2) up canc [OF tok(2)] unfolding eff(1) by blast
  next
    fix u assume u: "u \<in> s_requested s'"
    then have "u \<in> s_tokens s" using sys_invD(2) [OF inv] by (auto simp: thread_inv_def eff)
    then show "is_cancelled u (s_heap s') \<or> pends s' u"
      using u reach_requested [OF sys_invD(3) [OF inv], of u] canc [of u] eff(3) [of u] unfolding eff(7) by blast
  qed
  moreover have "cause_inv s'"
    using sys_invD(4) [OF inv] canc eff(2) pt unfolding cause_inv_def eff(6,7) by blast
  moreover have "wait_inv s'"
    using sys_invD(5) [OF inv] canc usable_token unfolding wait_inv_def eff(1,4,6,8) by blast
  ultimately show ?thesis by (simp add: sys_inv_def s'_def t_def)
qed

lemma inv_drain:
  assumes inv: "sys_inv s" and th: "s_threads s i = Some \<lparr>ct_pending = pending, ct_holding = Some t\<rparr>"
    and dr: "drain_children t (s_heap s) = (children, h)"
  shows "sys_inv (s\<lparr>s_heap := h, s_waiters := notify_waiters t (s_waiters s),
      s_threads := (s_threads s)(i \<mapsto> \<lparr>ct_pending = pending @ children, ct_holding = None\<rparr>)\<rparr>)"
proof -
  define s' where "s' = s\<lparr>s_heap := h, s_waiters := notify_waiters t (s_waiters s),
      s_threads := (s_threads s)(i \<mapsto> \<lparr>ct_pending = pending @ children, ct_holding = None\<rparr>)\<rparr>"
  note H = heap_invD [OF sys_invD(1) [OF inv]]
  have ht: "holds s t" by (simp add: holds_split [OF th])
  then have use: "usable s t" and ct: "is_cancelled t (s_heap s)"
    using sys_invD(2) [OF inv] unfolding thread_inv_def by blast+
  have t: "t \<in> s_tokens s" using use by (rule usable_token)
  have h: "h = snd (drain_children t (s_heap s))"
    and ch: "children = filter (upgrades (s_heap s)) (cc_children (cell_of (s_heap s) t))"
    using dr by (auto simp: drain_children_def)
  have thr: "s_threads s' = (s_threads s)(i \<mapsto> \<lparr>ct_pending = pending @ children, ct_holding = None\<rparr>)"
    by (simp add: s'_def)
  have eff: "pends s' u \<longleftrightarrow> pends s u \<or> u \<in> set children" "holds s' u \<Longrightarrow> holds s u" "holds s u \<Longrightarrow> holds s' u \<or> u = t"
    "usable s' u = usable s u" "is_cancelled u (s_heap s') = is_cancelled u (s_heap s)"
    "s_tokens s' = s_tokens s" "s_requested s' = s_requested s" "s_waiters s' = notify_waiters t (s_waiters s)" for u
    unfolding pends_upd [OF thr] holds_upd [OF thr] pends_split [OF th] holds_split [OF th]
    by (auto simp: s'_def usable_def h)
  have kids: "u \<in> s_tokens s \<Longrightarrow> cc_children (cell_of (s_heap s') u) =
      (if u = t then [] else cc_children (cell_of (s_heap s) u))" for u
    using H(2) [OF _ t, of u] by (simp add: s'_def h)
  have chu: "u \<in> set children \<Longrightarrow> usable s u \<and> cs_parent u = Some t" for u
    using H(5) [OF t, of u] by (simp add: ch usable_def)
  have len: "length (cells (s_heap s')) = length (cells (s_heap s))" by (simp add: s'_def h)
  have "heap_inv s'"
  proof (rule heap_invI)
    show "\<forall>u\<in>s_tokens s'. cs_id u < length (cells (s_heap s'))" "inj_on cs_id (s_tokens s')"
      using sys_invD(1) [OF inv] unfolding heap_inv_def eff len by blast+
    show "u \<in> s_tokens s' \<Longrightarrow> cs_parent u = Some p \<Longrightarrow> p \<in> s_tokens s'" for u p
      unfolding eff by (rule H(3))
    show "usable s' u \<Longrightarrow> cs_parent u = Some p \<Longrightarrow> usable s' p" for u p
      unfolding eff by (rule H(4))
    show "p \<in> s_tokens s' \<Longrightarrow> u \<in> set (cc_children (cell_of (s_heap s') p)) \<Longrightarrow> u \<in> s_tokens s' \<and> cs_parent u = Some p" for u p
      using H(5) [of p u] unfolding eff by (simp add: kids split: if_splits)
  qed
  moreover have "thread_inv s'"
    using sys_invD(2) [OF inv] eff(2) chu unfolding thread_inv_def eff(1,4,5,6,7) by blast
  moreover have "reach_inv s'"
  proof (rule reach_invI)
    fix u p assume u': "usable s' u" "cs_parent u = Some p"
    then have u: "usable s u" by (simp add: eff)
    note R = reach_invD [OF sys_invD(3) [OF inv] u u'(2)]
    have tok: "p \<in> s_tokens s" using usable_token [OF H(4) [OF u u'(2)]] .
    have at_t: "is_cancelled u (s_heap s) \<or> pends s u \<or> u \<in> set children" if "p = t"
      using R(1) ht u that by (auto simp: ch usable_def)
    show "\<not> is_cancelled p (s_heap s') \<or> holds s' p \<Longrightarrow>
        u \<in> set (cc_children (cell_of (s_heap s') p)) \<or> is_cancelled u (s_heap s') \<or> pends s' u"
      using R(1) at_t eff(2) [of p] unfolding eff(1,5) kids [OF tok] by (cases "p = t") (simp_all, blast)
    show "is_cancelled p (s_heap s') \<Longrightarrow> \<not> holds s' p \<Longrightarrow> is_cancelled u (s_heap s') \<or> pends s' u"
      using R(2) at_t eff(3) [of p] unfolding eff(1,5) by blast
  next
    show "u \<in> s_requested s' \<Longrightarrow> is_cancelled u (s_heap s') \<or> pends s' u" for u
      using reach_requested [OF sys_invD(3) [OF inv], of u] unfolding eff by blast
  qed
  moreover have "cause_inv s'"
  proof -
    have "covers (s_requested s) t" using sys_invD(4) [OF inv] t ct unfolding cause_inv_def by blast
    then have "u \<in> set children \<Longrightarrow> covers (s_requested s) u" for u using chu [of u] covers_parent by blast
    then show ?thesis using sys_invD(4) [OF inv] unfolding cause_inv_def eff by blast
  qed
  moreover have "wait_inv s'"
  proof -
    have w: "\<exists>ph'. s_waiters s w = Some (u, ph') \<and> (ph = Finished \<longrightarrow> ph' = Finished) \<and>
        (ph = Parked False \<longrightarrow> ph' = Parked False \<and> u \<noteq> t)" if "s_waiters s' w = Some (u, ph)" for w u ph
      using that by (cases "s_waiters s w"; cases "snd (the (s_waiters s w))")
        (auto simp: eff(8) notify_waiters_def split: if_splits)
    show ?thesis
      unfolding wait_inv_def eff(4,5) using sys_invD(5) [OF inv, unfolded wait_inv_def] w eff(3) by blast
  qed
  ultimately show ?thesis by (simp add: sys_inv_def s'_def)
qed

lemma inv_init: "sys_inv cancel_init"
  by (auto simp: sys_inv_def heap_inv_def thread_inv_def reach_inv_def cause_inv_def wait_inv_def cancel_init_def
      pends_def holds_def usable_def)

lemma wait_next_sound:
  assumes "wait_next t h ph = Some ph'"
  shows "(ph' = Finished \<longrightarrow> is_cancelled t h) \<and> (ph' = Parked False \<longrightarrow> \<not> is_cancelled t h)"
  using assms by (auto simp: wait_next_def split: wait_phase.splits bool.splits if_splits)

lemma inv_step: "cancel_step s s' \<Longrightarrow> sys_inv s \<Longrightarrow> sys_inv s'"
proof (induction rule: cancel_step.induct)
  case (poll s w t ph ph')
  have "usable s t" using sys_invD(5) [OF poll.prems] poll.hyps(1) unfolding wait_inv_def by blast
  then show ?case using inv_waiters [OF poll.prems, of "Some (t, ph')" w] wait_next_sound [OF poll.hyps(2)] by simp
next
  case (wait s t w)
  then show ?case using inv_waiters [OF wait.prems, of "Some (t, wait_start t (s_heap s))" w]
    by (simp add: wait_start_def)
next
  case (forget s w t ph)
  then show ?case by (intro inv_waiters) simp_all
qed (blast intro: inv_new inv_child inv_cancel inv_latch inv_drain inv_finish inv_drop)+

lemma inv_reachable: "cancel_step\<^sup>*\<^sup>* cancel_init s \<Longrightarrow> sys_inv s"
  by (induction rule: rtranclp_induct) (simp_all add: inv_init inv_step)

section \<open>The sequential traversal as a run\<close>

lemma upgrades_cancel_pending [simp]: "upgrades (cancel_pending ps h) u = upgrades h u"
proof (induction ps h rule: cancel_pending.induct)
  case (1 ps h)
  then show ?case
    by (subst cancel_pending.simps) (auto simp: Let_def drain_children_def upgrades_def latch_def upd_cell_def)
qed

definition quiescent :: "cancel_sys \<Rightarrow> bool" where
  "quiescent s \<longleftrightarrow> (\<forall>i. s_threads s i = None)"

definition same_waiters :: "cancel_sys \<Rightarrow> cancel_sys \<Rightarrow> bool" where
  "same_waiters s s' \<longleftrightarrow> (\<forall>w. map_option fst (s_waiters s' w) = map_option fst (s_waiters s w))"

lemma cancel_pending_run:
  assumes "s_threads s i = Some \<lparr>ct_pending = pending, ct_holding = None\<rparr>" "\<forall>j. j \<noteq> i \<longrightarrow> s_threads s j = None"
  shows "\<exists>s'. cancel_step\<^sup>*\<^sup>* s s' \<and> s_heap s' = cancel_pending pending (s_heap s) \<and> quiescent s' \<and>
    s_tokens s' = s_tokens s \<and> s_requested s' = s_requested s \<and> same_waiters s s'"
  using assms
proof (induction pending "s_heap s" arbitrary: s rule: cancel_pending.induct)
  case (1 pending)
  show ?case
  proof (cases "pending = []")
    case True
    let ?s = "s\<lparr>s_threads := (s_threads s)(i := None)\<rparr>"
    have "cancel_step s ?s" using 1(2) True by (intro cancel_step.finish) simp
    then have "cancel_step\<^sup>*\<^sup>* s ?s" by (rule r_into_rtranclp)
    moreover have "quiescent ?s" using 1(3) by (auto simp: quiescent_def)
    ultimately show ?thesis using True by (intro exI [of _ ?s]) (simp add: cancel_pending.simps same_waiters_def)
  next
    case False
    define t where "t = last pending"
    obtain children h where dr: "drain_children t (latch t (s_heap s)) = (children, h)" by fastforce
    define s1 where "s1 = s\<lparr>s_heap := latch t (s_heap s),
      s_threads := (s_threads s)(i \<mapsto> \<lparr>ct_pending = butlast pending, ct_holding = Some t\<rparr>)\<rparr>"
    define s2 where "s2 = s1\<lparr>s_heap := h, s_waiters := notify_waiters t (s_waiters s1),
      s_threads := (s_threads s1)(i \<mapsto> \<lparr>ct_pending = butlast pending @ children, ct_holding = None\<rparr>)\<rparr>"
    have "\<not> holds s u" for u
      using 1(2,3) by (auto simp: holds_split [OF 1(2)])
    then have "cancel_step s s1"
      unfolding s1_def t_def using 1(2) False by (intro cancel_step.latch) (simp_all add: lock_free_def)
    moreover have "cancel_step s1 s2"
      unfolding s2_def by (rule cancel_step.drain) (simp_all add: s1_def dr)
    ultimately have run: "cancel_step\<^sup>*\<^sup>* s s2" by (rule converse_rtranclp_into_rtranclp [OF _ r_into_rtranclp])
    have th2: "s_threads s2 i = Some \<lparr>ct_pending = butlast pending @ children, ct_holding = None\<rparr>"
      "\<forall>j. j \<noteq> i \<longrightarrow> s_threads s2 j = None" using 1(3) by (simp_all add: s2_def s1_def)
    have heap: "s_heap s2 = h" by (simp add: s2_def)
    have dr': "(children, s_heap s2) = drain_children t (latch t (s_heap s))" using dr heap by simp
    obtain s' where s': "cancel_step\<^sup>*\<^sup>* s2 s'" "s_heap s' = cancel_pending (butlast pending @ children) h" "quiescent s'"
      "s_tokens s' = s_tokens s2" "s_requested s' = s_requested s2" "same_waiters s2 s'"
      using 1(1) [OF False t_def refl dr' th2] unfolding heap by blast
    have "cancel_pending pending (s_heap s) = cancel_pending (butlast pending @ children) h"
      using False dr by (subst cancel_pending.simps) (simp add: t_def Let_def)
    moreover have "same_waiters s s'"
      using s'(6) by (auto simp: same_waiters_def s2_def s1_def notify_waiters_def option.map_comp comp_def split_beta)
    ultimately show ?thesis
      using run s' by (intro exI [of _ s']) (auto simp: s2_def s1_def)
  qed
qed

lemma cancel_run:
  assumes "quiescent s" "usable s t"
  shows "\<exists>s'. cancel_step\<^sup>*\<^sup>* s s' \<and> s_heap s' = cancel_state t (s_heap s) \<and> quiescent s' \<and>
    s_tokens s' = s_tokens s \<and> s_requested s' = insert t (s_requested s) \<and> same_waiters s s'"
proof -
  let ?s = "s\<lparr>s_threads := (s_threads s)(0 \<mapsto> \<lparr>ct_pending = [t], ct_holding = None\<rparr>), s_requested := insert t (s_requested s)\<rparr>"
  have "cancel_step s ?s" using assms by (intro cancel_step.cancel) (simp_all add: quiescent_def)
  moreover obtain s' where "cancel_step\<^sup>*\<^sup>* ?s s'" "s_heap s' = cancel_state t (s_heap s)" "quiescent s'"
    "s_tokens s' = s_tokens s" "s_requested s' = insert t (s_requested s)" "same_waiters s s'"
    using cancel_pending_run [of ?s 0 "[t]"] assms(1) by (auto simp: quiescent_def cancel_state_def same_waiters_def)
  ultimately show ?thesis by (intro exI [of _ s']) (simp add: converse_rtranclp_into_rtranclp)
qed

lemma quiescent_idle: "quiescent s \<Longrightarrow> \<not> pends s t" "quiescent s \<Longrightarrow> \<not> holds s t"
  by (simp_all add: quiescent_def pends_def holds_def)

lemma quiescent_exact:
  assumes inv: "sys_inv s" and q: "quiescent s" and use: "usable s t"
  shows "is_cancelled t (s_heap s) \<longleftrightarrow> covers (s_requested s) t"
proof
  show "is_cancelled t (s_heap s) \<Longrightarrow> covers (s_requested s) t"
    using sys_invD(4) [OF inv] usable_token [OF use] unfolding cause_inv_def by blast
  assume "covers (s_requested s) t"
  then show "is_cancelled t (s_heap s)" using use
  proof (induction t rule: ancestors.induct)
    case (1 j)
    then show ?case
      using reach_requested [OF sys_invD(3) [OF inv]] quiescent_idle [OF q] by (auto simp: covers_def)
  next
    case (2 j p)
    have p: "usable s p" using heap_invD(4) [OF sys_invD(1) [OF inv] 2(3)] by simp
    consider "CancelState j (Some p) \<in> s_requested s" | "covers (s_requested s) p"
      using 2(2) by (auto simp: covers_def)
    then show ?case
    proof cases
      case 1
      then show ?thesis using reach_requested [OF sys_invD(3) [OF inv]] quiescent_idle [OF q] by blast
    next
      case 2
      then show ?thesis
        using reach_invD(2) [OF sys_invD(3) [OF inv] \<open>usable s (CancelState j (Some p))\<close>] "2.IH" p
          quiescent_idle [OF q] by auto
    qed
  qed
qed

lemma cancel_cascade:
  assumes "cancel_step\<^sup>*\<^sup>* cancel_init s" "quiescent s" "usable s t" "usable s u"
  shows "is_cancelled u (cancel t (s_heap s)) \<longleftrightarrow> is_cancelled u (s_heap s) \<or> u = t \<or> t \<in> set (ancestors u)"
proof -
  obtain s' where s': "cancel_step\<^sup>*\<^sup>* s s'" "s_heap s' = cancel_state t (s_heap s)" "quiescent s'"
    "s_tokens s' = s_tokens s" "s_requested s' = insert t (s_requested s)"
    using cancel_run [OF assms(2,3)] by blast
  have r: "cancel_step\<^sup>*\<^sup>* cancel_init s'" using assms(1) s'(1) by simp
  have u: "usable s' u" using assms(4) s'(2,4) by (simp add: usable_def cancel_state_def)
  show ?thesis
    using quiescent_exact [OF inv_reachable [OF r] s'(3) u] quiescent_exact [OF inv_reachable [OF assms(1)] assms(2,4)]
    by (auto simp: cancel_def s'(2,5) covers_def)
qed

text \<open>A small lineage for the concrete instances: a root with one child, and a waiter parked on the child.\<close>

definition demo_root :: CancelState where "demo_root = CancelState 0 None"
definition demo_child :: CancelState where "demo_child = CancelState 1 (Some demo_root)"

definition demo_lineage :: cancel_sys where
  "demo_lineage = cancel_init\<lparr>
     s_heap := \<lparr>cells = [\<lparr>cc_cancelled = False, cc_children = [demo_child]\<rparr>, fresh_cell], strong = {0, 1}\<rparr>,
     s_tokens := {demo_root, demo_child},
     s_waiters := [0 \<mapsto> (demo_child, Parked False)]\<rparr>"

lemma demo_usable: "usable demo_lineage demo_root" "usable demo_lineage demo_child" "quiescent demo_lineage"
  by (simp_all add: usable_def upgrades_def quiescent_def demo_lineage_def demo_root_def demo_child_def cancel_init_def)

lemma demo_reachable: "cancel_step\<^sup>*\<^sup>* cancel_init demo_lineage"
proof -
  define s1 where "s1 = cancel_init\<lparr>s_heap := \<lparr>cells = [fresh_cell], strong = {0}\<rparr>, s_tokens := {demo_root}\<rparr>"
  define s2 where "s2 = demo_lineage\<lparr>s_waiters := Map.empty\<rparr>"
  have "cancel_step cancel_init s1"
    using cancel_step.new [of cancel_init demo_root "\<lparr>cells = [fresh_cell], strong = {0}\<rparr>"]
    by (simp add: s1_def token_new_def alloc_state_def cancel_init_def demo_root_def Let_def)
  moreover have "cancel_step s1 s2"
    using cancel_step.child [of s1 demo_root 0 demo_child False "s_heap demo_lineage"]
    by (simp add: s1_def s2_def demo_lineage_def cancel_init_def usable_def upgrades_def lock_free_def holds_def
        register_child_def alloc_state_def upd_cell_def cell_of_def fresh_cell_def is_cancelled_def demo_root_def
        demo_child_def Let_def insert_commute fun_upd_idem)
  moreover have "cancel_step s2 (s2\<lparr>s_waiters := [0 \<mapsto> (demo_child, Looping)]\<rparr>)"
    using cancel_step.wait [of s2 demo_child 0]
    by (simp add: s2_def demo_lineage_def cancel_init_def usable_def upgrades_def wait_start_def is_cancelled_def
        cell_of_def fresh_cell_def demo_root_def demo_child_def)
  moreover have "cancel_step (s2\<lparr>s_waiters := [0 \<mapsto> (demo_child, Looping)]\<rparr>) (s2\<lparr>s_waiters := [0 \<mapsto> (demo_child, Enabled False)]\<rparr>)"
    using cancel_step.poll [of "s2\<lparr>s_waiters := [0 \<mapsto> (demo_child, Looping)]\<rparr>" 0 demo_child Looping "Enabled False"]
    by (simp add: wait_next_def)
  moreover have "cancel_step (s2\<lparr>s_waiters := [0 \<mapsto> (demo_child, Enabled False)]\<rparr>) demo_lineage"
    using cancel_step.poll [of "s2\<lparr>s_waiters := [0 \<mapsto> (demo_child, Enabled False)]\<rparr>" 0 demo_child "Enabled False" "Parked False"]
    by (simp add: wait_next_def s2_def demo_lineage_def is_cancelled_def cell_of_def fresh_cell_def demo_child_def)
  ultimately show ?thesis by (meson converse_rtranclp_into_rtranclp rtranclp.rtrancl_refl)
qed

section \<open>Properties\<close>

text \<open>
  C21. Cancellation reaches the whole lineage and nothing else, whatever the interleaving.  In every
  reachable state of the threads that create, link, cancel and drop tokens, once no traversal is in
  progress a live token is cancelled exactly if cancellation was requested on it or on one of its
  ancestors; a child linked while a traversal was between two nodes is no exception.
\<close>

theorem cancellation_exact:
  assumes "cancel_step\<^sup>*\<^sup>* cancel_init s" "quiescent s" "usable s t"
  shows "is_cancelled t (s_heap s) \<longleftrightarrow> (\<exists>a \<in> insert t (set (ancestors t)). a \<in> s_requested s)"
  using quiescent_exact [OF inv_reachable [OF assms(1)] assms(2,3)] by (simp add: covers_def)

theorem cancellation_exact_witness:
  "\<exists>s. cancel_step\<^sup>*\<^sup>* cancel_init s \<and> s_requested s = {demo_root} \<and>
     is_cancelled demo_root (s_heap s) \<and> is_cancelled demo_child (s_heap s)"
proof -
  obtain s' where s': "cancel_step\<^sup>*\<^sup>* demo_lineage s'" "quiescent s'" "s_heap s' = cancel_state demo_root (s_heap demo_lineage)"
    "s_tokens s' = s_tokens demo_lineage" "s_requested s' = {demo_root}"
    using cancel_run [OF demo_usable(3,1)] by (auto simp: demo_lineage_def cancel_init_def)
  have r: "cancel_step\<^sup>*\<^sup>* cancel_init s'" using demo_reachable s'(1) by simp
  have u: "usable s' demo_root" "usable s' demo_child"
    using demo_usable(1,2) s'(3,4) by (simp_all add: usable_def cancel_state_def)
  show ?thesis
    using r s'(5) cancellation_exact [OF r s'(2) u(1)] cancellation_exact [OF r s'(2) u(2)]
    by (intro exI [of _ s']) (simp add: demo_child_def)
qed

text \<open>
  C24. No lost wake-up: a task waiting for a token that has been cancelled is never left asleep.  Once no
  traversal is in progress its future is finished, or finishes on its next poll, or re-arms and finishes
  on the poll after that; parked without a notification it cannot be.
\<close>

theorem cancelled_wakes_waiters:
  assumes "cancel_step\<^sup>*\<^sup>* cancel_init s" "quiescent s" "s_waiters s w = Some (t, ph)" "is_cancelled t (s_heap s)"
  shows "ph = Finished \<or> wait_next t (s_heap s) ph = Some Finished \<or>
    wait_next t (s_heap s) ph = Some (Enabled False) \<and> wait_next t (s_heap s) (Enabled False) = Some Finished"
proof -
  have "ph \<noteq> Parked False"
    using sys_invD(5) [OF inv_reachable [OF assms(1)]] assms(3,4) quiescent_idle(2) [OF assms(2)]
    unfolding wait_inv_def by blast
  then show ?thesis using assms(4) by (auto simp: wait_next_def split: wait_phase.splits bool.splits)
qed

theorem cancelled_wakes_waiters_witness:
  "\<exists>s ph. cancel_step\<^sup>*\<^sup>* demo_lineage s \<and> s_waiters s 0 = Some (demo_child, ph) \<and> ph \<noteq> Parked False"
proof -
  obtain s' where s': "cancel_step\<^sup>*\<^sup>* demo_lineage s'" "quiescent s'" "s_heap s' = cancel_state demo_root (s_heap demo_lineage)"
    "s_tokens s' = s_tokens demo_lineage" "s_requested s' = {demo_root}" "same_waiters demo_lineage s'"
    using cancel_run [OF demo_usable(3,1)] by (auto simp: demo_lineage_def cancel_init_def)
  have r: "cancel_step\<^sup>*\<^sup>* cancel_init s'" using demo_reachable s'(1) by simp
  have "usable s' demo_child" using demo_usable(2) s'(3,4) by (simp add: usable_def cancel_state_def)
  then have c: "is_cancelled demo_child (s_heap s')"
    using quiescent_exact [OF inv_reachable [OF r] s'(2)] s'(5) by (simp add: covers_def demo_child_def)
  obtain ph where ph: "s_waiters s' 0 = Some (demo_child, ph)"
    using s'(6) by (force simp: same_waiters_def demo_lineage_def dest!: spec [of _ 0])
  show ?thesis
    using s'(1) ph cancelled_wakes_waiters [OF r s'(2) ph c]
    by (intro exI [of _ s'] exI [of _ ph]) (auto simp: wait_next_def)
qed

text \<open>
  What one call of \<open>cancel\<close> does: the traversal ends, and it cancels the token and all its live
  descendants and leaves every other live token, parents and siblings included, as it was.
\<close>

theorem cancel_cascades_exactly:
  assumes "cancel_step\<^sup>*\<^sup>* cancel_init s" "quiescent s" "usable s t" "usable s u"
  shows "is_cancelled u (cancel t (s_heap s)) \<longleftrightarrow> is_cancelled u (s_heap s) \<or> u = t \<or> t \<in> set (ancestors u)"
  using assms by (rule cancel_cascade)

theorem cancel_cascades_exactly_witness:
  "is_cancelled demo_child (cancel demo_root (s_heap demo_lineage)) \<and>
   \<not> is_cancelled demo_root (cancel demo_child (s_heap demo_lineage))"
  using cancel_cascades_exactly [OF demo_reachable demo_usable(3,1,2)]
    cancel_cascades_exactly [OF demo_reachable demo_usable(3,2,1)]
  by (simp add: demo_child_def demo_root_def demo_lineage_def is_cancelled_def cell_of_def)

end
