(* ===== verification/DetachedRegistry.thy ===== *)
theory DetachedRegistry
  imports Errors Steering CancelTokens "HOL-Library.AList" "HOL-Library.Char_ord" "HOL-Library.List_Lexorder"
begin

text \<open>
  Process-local handles of detached tasks: \<open>tinyagents-tasks/src/runtime.rs\<close>,
  \<open>tinyagents-tasks/src/steering_registry.rs\<close> and the result types of \<open>tinyagents-tasks/src/types.rs\<close>.

  The shared state is one record: the entries behind the registry lock (an association list, in the
  iteration order of the hash map), the steering registry, the cancellation heap of theory
  \<open>CancelTokens\<close>, the status channels, the abort handles used so far and the abort events delivered to
  the observer.  A watch channel has its latest value and whether its sender is alive; a receiver is the
  index of its channel.  A poisoned lock is a flag: every operation that takes the lock then fails.

  \<open>wait\<close> runs beside other tasks.  Its schedule lists the wake-ups of the waiting future: what the
  other tasks did in the meantime, and whether the channel changed, its sender went away, or the
  deadline passed.  A schedule that ends before the future is ready leaves the wait pending (\<open>None\<close>).
\<close>

section \<open>Types\<close>

datatype DetachedTaskRegistryError =
  LockPoisoned | Unknown | NotOwned | AlreadyDone | NoSteeringHandle | RequestIdTooLong | StatusChannelClosed

fun registry_error_display :: "DetachedTaskRegistryError \<Rightarrow> string" where
  "registry_error_display LockPoisoned = ''detached task runtime registry lock poisoned''"
| "registry_error_display Unknown = ''detached task is not registered''"
| "registry_error_display NotOwned = ''detached task is owned by another parent''"
| "registry_error_display AlreadyDone = ''detached task already reached a terminal status''"
| "registry_error_display NoSteeringHandle = ''detached task has no registered steering handle''"
| "registry_error_display RequestIdTooLong = ''detached task steering request id is too long''"
| "registry_error_display StatusChannelClosed = ''detached task status channel closed before a terminal update''"

record ('m, 'st) DetachedTaskSnapshot =
  sn_task_id :: string
  sn_owner_id :: string
  sn_metadata :: 'm
  sn_status :: 'st

datatype 'st DetachedTaskWaitOutcome = Terminal 'st | WaitTimedOut 'st

record ('m, 'st) DetachedTaskBatchWaitItem =
  bw_task_id :: string
  bw_metadata :: 'm
  bw_outcome :: "'st DetachedTaskWaitOutcome"

record DetachedTaskBatchWaitError =
  be_task_id :: string
  be_error :: DetachedTaskRegistryError

record 'm DetachedTaskEntry =
  de_owner_id :: string
  de_metadata :: 'm
  de_status :: nat
  de_cancellation :: "CancelState option"
  de_abort :: "nat option"
  de_steer_requests :: RecentRequestIds

datatype RegistrationKind = Spawned nat | Cooperative | ManagedCooperative

record 'st channel =
  ch_value :: 'st
  ch_sender :: bool

record 'h SteeringRegistry =
  sr_poisoned :: bool
  sr_handles :: "(string \<times> 'h) list"

record ('m, 'st, 'h) detached_state =
  dr_poisoned :: bool
  dr_entries :: "(string \<times> 'm DetachedTaskEntry) list"
  dr_steering :: "'h SteeringRegistry"
  dr_heap :: cancel_heap
  dr_channels :: "nat \<Rightarrow> 'st channel"
  dr_aborted :: "nat list"
  dr_events :: "('m, 'st) DetachedTaskSnapshot list"

text \<open>The configuration of a registry; \<open>DetachedTaskRegistry::new\<close> clamps the cap.\<close>

record 'st DetachedTaskRegistry =
  rg_is_terminal :: "'st \<Rightarrow> bool"
  rg_soft_cap :: nat

definition registry_new :: "nat \<Rightarrow> ('st \<Rightarrow> bool) \<Rightarrow> 'st DetachedTaskRegistry" where
  "registry_new soft_cap is_terminal = \<lparr>rg_is_terminal = is_terminal, rg_soft_cap = max soft_cap 1\<rparr>"

section \<open>The steering registry\<close>

definition steering_register :: "string \<Rightarrow> 'h \<Rightarrow> 'h SteeringRegistry \<Rightarrow> 'h SteeringRegistry" where
  "steering_register tid handle r =
     (if sr_poisoned r then r else r\<lparr>sr_handles := AList.update tid handle (sr_handles r)\<rparr>)"

definition steering_deregister :: "string \<Rightarrow> 'h SteeringRegistry \<Rightarrow> 'h option \<times> 'h SteeringRegistry" where
  "steering_deregister tid r =
     (if sr_poisoned r then (None, r)
      else (map_of (sr_handles r) tid, r\<lparr>sr_handles := AList.delete tid (sr_handles r)\<rparr>))"

definition steering_get :: "string \<Rightarrow> 'h SteeringRegistry \<Rightarrow> 'h option" where
  "steering_get tid r = (if sr_poisoned r then None else map_of (sr_handles r) tid)"

section \<open>Entries\<close>

type_synonym ('m, 'st, 'h) registry_op = "('m, 'st, 'h) detached_state \<Rightarrow> ('m, 'st, 'h) detached_state"

text \<open>Taking the lock and finding an entry, the first lines of most operations.\<close>

definition with_entry ::
  "string \<Rightarrow> ('m DetachedTaskEntry \<Rightarrow> (DetachedTaskRegistryError, 'a) result) \<Rightarrow> ('m, 'st, 'h) detached_state
    \<Rightarrow> (DetachedTaskRegistryError, 'a) result" where
  "with_entry tid f s =
     (if dr_poisoned s then Inl LockPoisoned
      else case map_of (dr_entries s) tid of None \<Rightarrow> Inl Unknown | Some entry \<Rightarrow> f entry)"

definition latest :: "('m, 'st, 'h) detached_state \<Rightarrow> 'm DetachedTaskEntry \<Rightarrow> 'st" where
  "latest s entry = ch_value (dr_channels s (de_status entry))"

definition is_settled :: "'st DetachedTaskRegistry \<Rightarrow> ('m, 'st, 'h) detached_state \<Rightarrow> 'm DetachedTaskEntry \<Rightarrow> bool" where
  "is_settled R s entry \<longleftrightarrow>
     \<not> ch_sender (dr_channels s (de_status entry)) \<or> rg_is_terminal R (latest s entry)"

definition snapshot_entry ::
  "('m, 'st, 'h) detached_state \<Rightarrow> string \<Rightarrow> 'm DetachedTaskEntry \<Rightarrow> ('m, 'st) DetachedTaskSnapshot" where
  "snapshot_entry s tid entry =
     \<lparr>sn_task_id = tid, sn_owner_id = de_owner_id entry, sn_metadata = de_metadata entry, sn_status = latest s entry\<rparr>"

definition drop_entry :: "string \<Rightarrow> ('m, 'st, 'h) registry_op" where
  "drop_entry tid s = s\<lparr>dr_entries := AList.delete tid (dr_entries s)\<rparr>"

definition drop_steering :: "string \<Rightarrow> ('m, 'st, 'h) registry_op" where
  "drop_steering tid s = s\<lparr>dr_steering := snd (steering_deregister tid (dr_steering s))\<rparr>"

definition remove ::
  "string \<Rightarrow> ('m, 'st, 'h) detached_state
    \<Rightarrow> (DetachedTaskRegistryError, unit) result \<times> ('m, 'st, 'h) detached_state" where
  "remove tid s = (if dr_poisoned s then (Inl LockPoisoned, s) else (Inr (), drop_steering tid (drop_entry tid s)))"

section \<open>Registration\<close>

definition sweep_terminal ::
  "'st DetachedTaskRegistry \<Rightarrow> ('m, 'st, 'h) detached_state
    \<Rightarrow> (DetachedTaskRegistryError, nat) result \<times> ('m, 'st, 'h) detached_state" where
  "sweep_terminal R s =
     (if dr_poisoned s then (Inl LockPoisoned, s)
      else
        (let removed = map fst (filter (\<lambda>(_, entry). is_settled R s entry) (dr_entries s));
             s1 = fold drop_entry removed s in
         (Inr (length removed), fold drop_steering removed s1)))"

definition tinyagents_error :: "DetachedTaskRegistryError \<Rightarrow> TinyAgentsError" where
  "tinyagents_error e = Graph (registry_error_display e)"

definition register_entry ::
  "'st DetachedTaskRegistry \<Rightarrow> string \<Rightarrow> string \<Rightarrow> 'm \<Rightarrow> nat \<Rightarrow> CancelState \<Rightarrow> RegistrationKind
    \<Rightarrow> ('m, 'st, 'h) detached_state \<Rightarrow> (TinyAgentsError, unit) result \<times> ('m, 'st, 'h) detached_state" where
  "register_entry R tid owner metadata stat token registration s =
     (let (abort, sweep_at_cap) =
            (case registration of
               Spawned abort \<Rightarrow> (Some abort, True)
             | Cooperative \<Rightarrow> (None, True)
             | ManagedCooperative \<Rightarrow> (None, False)) in
      if dr_poisoned s then (Inl (tinyagents_error LockPoisoned), s)
      else
        (let s1 = (if sweep_at_cap \<and> length (dr_entries s) \<ge> rg_soft_cap R then snd (sweep_terminal R s) else s) in
         if map_of (dr_entries s1) tid \<noteq> None
         then (Inl (DuplicateComponent (''detached task runtime '' @ quoted tid)), s1)
         else (Inr (),
               s1\<lparr>dr_entries := AList.update tid
                    \<lparr>de_owner_id = owner, de_metadata = metadata, de_status = stat, de_cancellation = Some token,
                     de_abort = abort, de_steer_requests = ids_default\<rparr> (dr_entries s1)\<rparr>)))"

definition register ::
  "'st DetachedTaskRegistry \<Rightarrow> string \<Rightarrow> string \<Rightarrow> 'm \<Rightarrow> nat \<Rightarrow> CancelState \<Rightarrow> nat
    \<Rightarrow> ('m, 'st, 'h) detached_state \<Rightarrow> (TinyAgentsError, unit) result \<times> ('m, 'st, 'h) detached_state" where
  "register R tid owner metadata stat token abort s =
     register_entry R tid owner metadata stat token (Spawned abort) s"

definition register_cooperative ::
  "'st DetachedTaskRegistry \<Rightarrow> string \<Rightarrow> string \<Rightarrow> 'm \<Rightarrow> nat \<Rightarrow> CancelState
    \<Rightarrow> ('m, 'st, 'h) detached_state \<Rightarrow> (TinyAgentsError, unit) result \<times> ('m, 'st, 'h) detached_state" where
  "register_cooperative R tid owner metadata stat token s =
     register_entry R tid owner metadata stat token Cooperative s"

definition register_cooperative_managed ::
  "'st DetachedTaskRegistry \<Rightarrow> string \<Rightarrow> string \<Rightarrow> 'm \<Rightarrow> nat \<Rightarrow> CancelState
    \<Rightarrow> ('m, 'st, 'h) detached_state \<Rightarrow> (TinyAgentsError, unit) result \<times> ('m, 'st, 'h) detached_state" where
  "register_cooperative_managed R tid owner metadata stat token s =
     register_entry R tid owner metadata stat token ManagedCooperative s"
section \<open>Queries\<close>

definition owned :: "string \<Rightarrow> ('m DetachedTaskEntry \<Rightarrow> (DetachedTaskRegistryError, 'a) result)
    \<Rightarrow> 'm DetachedTaskEntry \<Rightarrow> (DetachedTaskRegistryError, 'a) result" where
  "owned owner f entry = (if de_owner_id entry \<noteq> owner then Inl NotOwned else f entry)"

definition registry_len :: "('m, 'st, 'h) detached_state \<Rightarrow> (DetachedTaskRegistryError, nat) result" where
  "registry_len s = (if dr_poisoned s then Inl LockPoisoned else Inr (length (dr_entries s)))"

definition registry_is_empty :: "('m, 'st, 'h) detached_state \<Rightarrow> (DetachedTaskRegistryError, bool) result" where
  "registry_is_empty s = result_bind (registry_len s) (\<lambda>n. Inr (n = 0))"

definition holds_cancellation :: "string \<Rightarrow> ('m, 'st, 'h) detached_state \<Rightarrow> (DetachedTaskRegistryError, bool) result" where
  "holds_cancellation tid s =
     (if dr_poisoned s then Inl LockPoisoned
      else Inr (case map_of (dr_entries s) tid of None \<Rightarrow> False | Some entry \<Rightarrow> de_cancellation entry \<noteq> None))"

definition snapshots ::
  "string option \<Rightarrow> ('m, 'st, 'h) detached_state \<Rightarrow> (DetachedTaskRegistryError, ('m, 'st) DetachedTaskSnapshot list) result" where
  "snapshots owner s =
     (if dr_poisoned s then Inl LockPoisoned
      else Inr (sort_key sn_task_id
        (map (\<lambda>(tid, entry). snapshot_entry s tid entry)
          (filter (\<lambda>(_, entry). case owner of None \<Rightarrow> True | Some x \<Rightarrow> de_owner_id entry = x) (dr_entries s)))))"

definition snapshot ::
  "string \<Rightarrow> string \<Rightarrow> ('m, 'st, 'h) detached_state \<Rightarrow> (DetachedTaskRegistryError, ('m, 'st) DetachedTaskSnapshot) result" where
  "snapshot tid owner s = with_entry tid (owned owner (\<lambda>entry. Inr (snapshot_entry s tid entry))) s"

definition snapshot_trusted ::
  "string \<Rightarrow> ('m, 'st, 'h) detached_state \<Rightarrow> (DetachedTaskRegistryError, ('m, 'st) DetachedTaskSnapshot) result" where
  "snapshot_trusted tid s = with_entry tid (\<lambda>entry. Inr (snapshot_entry s tid entry)) s"

definition metadata_for :: "string \<Rightarrow> string \<Rightarrow> ('m, 'st, 'h) detached_state \<Rightarrow> (DetachedTaskRegistryError, 'm) result" where
  "metadata_for tid owner s = with_entry tid (owned owner (\<lambda>entry. Inr (de_metadata entry))) s"

definition live_entry ::
  "'st DetachedTaskRegistry \<Rightarrow> ('m, 'st, 'h) detached_state \<Rightarrow> 'm DetachedTaskEntry \<Rightarrow> (DetachedTaskRegistryError, unit) result" where
  "live_entry R s entry = (if is_settled R s entry then Inl AlreadyDone else Inr ())"

definition ensure_live_owned ::
  "'st DetachedTaskRegistry \<Rightarrow> string \<Rightarrow> string \<Rightarrow> ('m, 'st, 'h) detached_state \<Rightarrow> (DetachedTaskRegistryError, unit) result" where
  "ensure_live_owned R tid owner s = with_entry tid (owned owner (live_entry R s)) s"

definition ensure_live ::
  "'st DetachedTaskRegistry \<Rightarrow> string \<Rightarrow> ('m, 'st, 'h) detached_state \<Rightarrow> (DetachedTaskRegistryError, unit) result" where
  "ensure_live R tid s = with_entry tid (live_entry R s) s"

definition find_handle :: "string \<Rightarrow> ('m, 'st, 'h) detached_state \<Rightarrow> (DetachedTaskRegistryError, 'h) result" where
  "find_handle tid s = (case steering_get tid (dr_steering s) of None \<Rightarrow> Inl NoSteeringHandle | Some h \<Rightarrow> Inr h)"

definition steering_handle ::
  "'st DetachedTaskRegistry \<Rightarrow> string \<Rightarrow> string \<Rightarrow> ('m, 'st, 'h) detached_state \<Rightarrow> (DetachedTaskRegistryError, 'h) result" where
  "steering_handle R tid owner s = result_bind (ensure_live_owned R tid owner s) (\<lambda>_. find_handle tid s)"

definition steering_handle_trusted ::
  "'st DetachedTaskRegistry \<Rightarrow> string \<Rightarrow> ('m, 'st, 'h) detached_state \<Rightarrow> (DetachedTaskRegistryError, 'h) result" where
  "steering_handle_trusted R tid s = result_bind (ensure_live R tid s) (\<lambda>_. find_handle tid s)"

section \<open>Updates of one entry\<close>

definition store_entry :: "string \<Rightarrow> 'm DetachedTaskEntry \<Rightarrow> ('m, 'st, 'h) registry_op" where
  "store_entry tid entry s = s\<lparr>dr_entries := AList.update tid entry (dr_entries s)\<rparr>"

definition trip :: "CancelState option \<Rightarrow> ('m, 'st, 'h) registry_op" where
  "trip token s = (case token of None \<Rightarrow> s | Some t \<Rightarrow> s\<lparr>dr_heap := cancel t (dr_heap s)\<rparr>)"

definition cancel_cooperative ::
  "'st DetachedTaskRegistry \<Rightarrow> string \<Rightarrow> string \<Rightarrow> ('m, 'st, 'h) detached_state
    \<Rightarrow> (DetachedTaskRegistryError, ('m, 'st) DetachedTaskSnapshot) result \<times> ('m, 'st, 'h) detached_state" where
  "cancel_cooperative R tid owner s =
     (case with_entry tid (owned owner (\<lambda>entry. if is_settled R s entry then Inl AlreadyDone else Inr entry)) s of
        Inl e \<Rightarrow> (Inl e, s)
      | Inr entry \<Rightarrow>
          (Inr (snapshot_entry s tid entry),
           trip (de_cancellation entry) (store_entry tid (entry\<lparr>de_cancellation := None\<rparr>) s)))"

definition release_cancellation_trusted ::
  "string \<Rightarrow> ('m, 'st, 'h) detached_state
    \<Rightarrow> (DetachedTaskRegistryError, unit) result \<times> ('m, 'st, 'h) detached_state" where
  "release_cancellation_trusted tid s =
     (case with_entry tid Inr s of
        Inl e \<Rightarrow> (Inl e, s)
      | Inr entry \<Rightarrow> (Inr (), store_entry tid (entry\<lparr>de_cancellation := None\<rparr>) s))"

definition claim_steer_request ::
  "string \<Rightarrow> string \<Rightarrow> ('m, 'st, 'h) detached_state
    \<Rightarrow> (DetachedTaskRegistryError, bool) result \<times> ('m, 'st, 'h) detached_state" where
  "claim_steer_request tid request_id s =
     (case with_entry tid Inr s of
        Inl e \<Rightarrow> (Inl e, s)
      | Inr entry \<Rightarrow>
          (case claim request_id (de_steer_requests entry) of
             (Inl _, ids) \<Rightarrow> (Inl RequestIdTooLong, store_entry tid (entry\<lparr>de_steer_requests := ids\<rparr>) s)
           | (Inr is_new, ids) \<Rightarrow> (Inr is_new, store_entry tid (entry\<lparr>de_steer_requests := ids\<rparr>) s)))"

section \<open>Removals\<close>

definition take_and_cancel ::
  "'st DetachedTaskRegistry \<Rightarrow> string \<Rightarrow> string option \<Rightarrow> ('m, 'st, 'h) detached_state
    \<Rightarrow> (DetachedTaskRegistryError, ('m, 'st) DetachedTaskSnapshot) result \<times> ('m, 'st, 'h) detached_state" where
  "take_and_cancel R tid owner s =
     (case with_entry tid (case owner of None \<Rightarrow> Inr | Some x \<Rightarrow> owned x Inr) s of
        Inl e \<Rightarrow> (Inl e, s)
      | Inr entry \<Rightarrow>
          (let s1 = trip (de_cancellation entry) (drop_steering tid (drop_entry tid s));
               s2 = (case de_abort entry of
                       None \<Rightarrow> s1
                     | Some abort \<Rightarrow>
                         s1\<lparr>dr_events := dr_events s1 @ (if is_settled R s1 entry then [] else [snapshot_entry s1 tid entry]),
                            dr_aborted := dr_aborted s1 @ [abort]\<rparr>) in
           (Inr (snapshot_entry s2 tid entry), s2)))"

definition cancel_task ::
  "'st DetachedTaskRegistry \<Rightarrow> string \<Rightarrow> string \<Rightarrow> ('m, 'st, 'h) detached_state
    \<Rightarrow> (DetachedTaskRegistryError, ('m, 'st) DetachedTaskSnapshot) result \<times> ('m, 'st, 'h) detached_state" where
  "cancel_task R tid owner s = take_and_cancel R tid (Some owner) s"

definition cancel_trusted ::
  "'st DetachedTaskRegistry \<Rightarrow> string \<Rightarrow> ('m, 'st, 'h) detached_state
    \<Rightarrow> (DetachedTaskRegistryError, ('m, 'st) DetachedTaskSnapshot) result \<times> ('m, 'st, 'h) detached_state" where
  "cancel_trusted R tid s = take_and_cancel R tid None s"

fun cancel_each ::
  "'st DetachedTaskRegistry \<Rightarrow> string list \<Rightarrow> ('m, 'st, 'h) detached_state
    \<Rightarrow> ('m, 'st) DetachedTaskSnapshot list \<times> ('m, 'st, 'h) detached_state" where
  "cancel_each R [] s = ([], s)"
| "cancel_each R (tid # tids) s =
     (case cancel_trusted R tid s of
        (r, s1) \<Rightarrow>
          (case cancel_each R tids s1 of
             (cs, s2) \<Rightarrow> (case r of Inl _ \<Rightarrow> (cs, s2) | Inr c \<Rightarrow> (c # cs, s2))))"

definition cancel_where ::
  "'st DetachedTaskRegistry \<Rightarrow> ('m \<Rightarrow> bool) \<Rightarrow> ('m, 'st, 'h) detached_state
    \<Rightarrow> (DetachedTaskRegistryError, ('m, 'st) DetachedTaskSnapshot list) result \<times> ('m, 'st, 'h) detached_state" where
  "cancel_where R pred s =
     (if dr_poisoned s then (Inl LockPoisoned, s)
      else
        (case cancel_each R (map fst (filter (\<lambda>(_, entry). pred (de_metadata entry)) (dr_entries s))) s of
           (cs, s') \<Rightarrow> (Inr cs, s')))"

definition cancel_all ::
  "'st DetachedTaskRegistry \<Rightarrow> ('m, 'st, 'h) detached_state
    \<Rightarrow> (DetachedTaskRegistryError, ('m, 'st) DetachedTaskSnapshot list) result \<times> ('m, 'st, 'h) detached_state" where
  "cancel_all R s = cancel_where R (\<lambda>_. True) s"

definition prune_terminal_trusted ::
  "'st DetachedTaskRegistry \<Rightarrow> string \<Rightarrow> ('m, 'st, 'h) detached_state
    \<Rightarrow> (DetachedTaskRegistryError, 'st option) result \<times> ('m, 'st, 'h) detached_state" where
  "prune_terminal_trusted R tid s =
     (if dr_poisoned s then (Inl LockPoisoned, s)
      else case map_of (dr_entries s) tid of
        None \<Rightarrow> (Inr None, s)
      | Some entry \<Rightarrow>
          if \<not> is_settled R s entry then (Inr None, s)
          else (Inr (Some (latest s entry)), drop_steering tid (drop_entry tid s)))"
section \<open>Waiting\<close>

datatype wake = StatusChanged | SenderGone | DeadlineElapsed

type_synonym ('m, 'st, 'h) wait_schedule = "(('m, 'st, 'h) registry_op \<times> wake) list"

datatype 'st waited = Ready 'st | Closed | Elapsed

text \<open>The loop on \<open>changed\<close> under the deadline: what it ended with, the state then, and the schedule left.\<close>

fun wait_changed ::
  "('st \<Rightarrow> bool) \<Rightarrow> nat \<Rightarrow> ('m, 'st, 'h) wait_schedule \<Rightarrow> ('m, 'st, 'h) detached_state
    \<Rightarrow> ('st waited \<times> ('m, 'st, 'h) wait_schedule \<times> ('m, 'st, 'h) detached_state) option" where
  "wait_changed is_terminal chan [] s = None"
| "wait_changed is_terminal chan ((others, wake) # sched) s =
     (let s' = others s in
      case wake of
        StatusChanged \<Rightarrow>
          (let current = ch_value (dr_channels s' chan) in
           if is_terminal current then Some (Ready current, sched, s') else wait_changed is_terminal chan sched s')
      | SenderGone \<Rightarrow> Some (Closed, sched, s')
      | DeadlineElapsed \<Rightarrow> Some (Elapsed, sched, s'))"

definition wait_until ::
  "'st DetachedTaskRegistry \<Rightarrow> string \<Rightarrow> string \<Rightarrow> ('m, 'st, 'h) wait_schedule \<Rightarrow> ('m, 'st, 'h) detached_state
    \<Rightarrow> ((DetachedTaskRegistryError, 'st DetachedTaskWaitOutcome) result
        \<times> ('m, 'st, 'h) wait_schedule \<times> ('m, 'st, 'h) detached_state) option" where
  "wait_until R tid owner sched s =
     (case with_entry tid (owned owner (\<lambda>entry. Inr (de_status entry))) s of
        Inl e \<Rightarrow> Some (Inl e, sched, s)
      | Inr chan \<Rightarrow>
          (let current = ch_value (dr_channels s chan) in
           if rg_is_terminal R current
           then (case remove tid s of
                   (Inl e, s') \<Rightarrow> Some (Inl e, sched, s')
                 | (Inr _, s') \<Rightarrow> Some (Inr (Terminal current), sched, s'))
           else
             (case wait_changed (rg_is_terminal R) chan sched s of
                None \<Rightarrow> None
              | Some (Ready terminal, sched', s') \<Rightarrow>
                  (case remove tid s' of
                     (Inl e, s'') \<Rightarrow> Some (Inl e, sched', s'')
                   | (Inr _, s'') \<Rightarrow> Some (Inr (Terminal terminal), sched', s''))
              | Some (Closed, sched', s') \<Rightarrow>
                  (case remove tid s' of
                     (Inl e, s'') \<Rightarrow> Some (Inl e, sched', s'')
                   | (Inr _, s'') \<Rightarrow> Some (Inl StatusChannelClosed, sched', s''))
              | Some (Elapsed, sched', s') \<Rightarrow>
                  Some (Inr (WaitTimedOut (ch_value (dr_channels s' chan))), sched', s'))))"

fun all_metadata ::
  "string list \<Rightarrow> string \<Rightarrow> ('m, 'st, 'h) detached_state \<Rightarrow> (DetachedTaskBatchWaitError, 'm list) result" where
  "all_metadata [] owner s = Inr []"
| "all_metadata (tid # tids) owner s =
     (case metadata_for tid owner s of
        Inl e \<Rightarrow> Inl \<lparr>be_task_id = tid, be_error = e\<rparr>
      | Inr m \<Rightarrow> result_bind (all_metadata tids owner s) (\<lambda>ms. Inr (m # ms)))"

fun is_terminal_outcome :: "'st DetachedTaskWaitOutcome \<Rightarrow> bool" where
  "is_terminal_outcome (Terminal _) = True"
| "is_terminal_outcome (WaitTimedOut _) = False"

fun wait_each ::
  "'st DetachedTaskRegistry \<Rightarrow> string \<Rightarrow> (string \<times> 'm) list \<Rightarrow> ('m, 'st) DetachedTaskBatchWaitItem list
    \<Rightarrow> ('m, 'st, 'h) wait_schedule \<Rightarrow> ('m, 'st, 'h) detached_state
    \<Rightarrow> ((DetachedTaskBatchWaitError, ('m, 'st) DetachedTaskBatchWaitItem list) result
        \<times> ('m, 'st, 'h) wait_schedule \<times> ('m, 'st, 'h) detached_state) option" where
  "wait_each R owner [] results sched s = Some (Inr results, sched, s)"
| "wait_each R owner ((tid, m) # rest) results sched s =
     (case List.find (\<lambda>item. bw_task_id item = tid \<and> is_terminal_outcome (bw_outcome item)) results of
        Some earlier \<Rightarrow> wait_each R owner rest (results @ [earlier]) sched s
      | None \<Rightarrow>
          (case wait_until R tid owner sched s of
             None \<Rightarrow> None
           | Some (Inr outcome, sched', s') \<Rightarrow>
               wait_each R owner rest
                 (results @ [\<lparr>bw_task_id = tid, bw_metadata = m, bw_outcome = outcome\<rparr>]) sched' s'
           | Some (Inl e, sched', s') \<Rightarrow> Some (Inl \<lparr>be_task_id = tid, be_error = e\<rparr>, sched', s')))"

definition wait_many ::
  "'st DetachedTaskRegistry \<Rightarrow> string list \<Rightarrow> string \<Rightarrow> ('m, 'st, 'h) wait_schedule \<Rightarrow> ('m, 'st, 'h) detached_state
    \<Rightarrow> ((DetachedTaskBatchWaitError, ('m, 'st) DetachedTaskBatchWaitItem list) result
        \<times> ('m, 'st, 'h) wait_schedule \<times> ('m, 'st, 'h) detached_state) option" where
  "wait_many R tids owner sched s =
     (case all_metadata tids owner s of
        Inl e \<Rightarrow> Some (Inl e, sched, s)
      | Inr metadata \<Rightarrow> wait_each R owner (zip tids metadata) [] sched s)"
section \<open>The entries after an operation\<close>

lemma drop_entry_fields [simp]:
  "map_of (dr_entries (drop_entry tid s)) k = (if k = tid then None else map_of (dr_entries s) k)"
  "dr_poisoned (drop_entry tid s) = dr_poisoned s" "dr_steering (drop_entry tid s) = dr_steering s"
  "dr_heap (drop_entry tid s) = dr_heap s" "dr_channels (drop_entry tid s) = dr_channels s"
  "dr_events (drop_entry tid s) = dr_events s" "dr_aborted (drop_entry tid s) = dr_aborted s"
  by (simp_all add: drop_entry_def delete_conv')

lemma drop_steering_fields [simp]:
  "dr_entries (drop_steering tid s) = dr_entries s" "dr_poisoned (drop_steering tid s) = dr_poisoned s"
  "dr_heap (drop_steering tid s) = dr_heap s" "dr_channels (drop_steering tid s) = dr_channels s"
  "dr_events (drop_steering tid s) = dr_events s" "dr_aborted (drop_steering tid s) = dr_aborted s"
  by (simp_all add: drop_steering_def)

lemma steering_get_drop [simp]:
  "steering_get k (dr_steering (drop_steering tid s)) = (if k = tid then None else steering_get k (dr_steering s))"
  by (simp add: steering_get_def steering_deregister_def drop_steering_def delete_conv')

lemma trip_fields [simp]:
  "dr_entries (trip c s) = dr_entries s" "dr_poisoned (trip c s) = dr_poisoned s" "dr_steering (trip c s) = dr_steering s"
  "dr_channels (trip c s) = dr_channels s" "dr_events (trip c s) = dr_events s" "dr_aborted (trip c s) = dr_aborted s"
  by (simp_all add: trip_def split: option.splits)

lemma fold_drop_entry [simp]:
  "map_of (dr_entries (fold drop_entry ks s)) k = (if k \<in> set ks then None else map_of (dr_entries s) k)"
  "dr_poisoned (fold drop_entry ks s) = dr_poisoned s" "dr_steering (fold drop_entry ks s) = dr_steering s"
  by (induction ks arbitrary: s) auto

lemma fold_drop_steering [simp]:
  "dr_entries (fold drop_steering ks s) = dr_entries s" "dr_poisoned (fold drop_steering ks s) = dr_poisoned s"
  "steering_get k (dr_steering (fold drop_steering ks s)) = (if k \<in> set ks then None else steering_get k (dr_steering s))"
  by (induction ks arbitrary: s) auto

lemma store_entry_fields [simp]:
  "map_of (dr_entries (store_entry tid e s)) k = (if k = tid then Some e else map_of (dr_entries s) k)"
  "dr_steering (store_entry tid e s) = dr_steering s" "dr_poisoned (store_entry tid e s) = dr_poisoned s"
  by (simp_all add: store_entry_def update_conv')

lemma latest_cong:
  "dr_channels s' = dr_channels s \<Longrightarrow> latest s' e = latest s e"
  "dr_channels s' = dr_channels s \<Longrightarrow> is_settled R s' e = is_settled R s e"
  "dr_channels s' = dr_channels s \<Longrightarrow> snapshot_entry s' tid e = snapshot_entry s tid e"
  by (simp_all add: latest_def is_settled_def snapshot_entry_def)

lemma with_entry_Inr:
  "with_entry tid f s = Inr x \<longleftrightarrow> \<not> dr_poisoned s \<and> (\<exists>e. map_of (dr_entries s) tid = Some e \<and> f e = Inr x)"
  by (auto simp: with_entry_def split: option.splits)

section \<open>Removal discipline\<close>

text \<open>The synchronous operations that change the registry, as commands.\<close>

datatype 'm registry_cmd =
    CmdRegister string string 'm nat CancelState RegistrationKind
  | CmdCancelCooperative string string
  | CmdRelease string
  | CmdClaim string string
  | CmdCancel string "string option"
  | CmdCancelWhere "'m \<Rightarrow> bool"
  | CmdSweep
  | CmdPrune string
  | CmdRemove string

fun run_cmd :: "'st DetachedTaskRegistry \<Rightarrow> 'm registry_cmd \<Rightarrow> ('m, 'st, 'h) detached_state \<Rightarrow> ('m, 'st, 'h) detached_state" where
  "run_cmd R (CmdRegister tid owner m chan token kind) s = snd (register_entry R tid owner m chan token kind s)"
| "run_cmd R (CmdCancelCooperative tid owner) s = snd (cancel_cooperative R tid owner s)"
| "run_cmd R (CmdRelease tid) s = snd (release_cancellation_trusted tid s)"
| "run_cmd R (CmdClaim tid rid) s = snd (claim_steer_request tid rid s)"
| "run_cmd R (CmdCancel tid owner) s = snd (take_and_cancel R tid owner s)"
| "run_cmd R (CmdCancelWhere pred) s = snd (cancel_where R pred s)"
| "run_cmd R CmdSweep s = snd (sweep_terminal R s)"
| "run_cmd R (CmdPrune tid) s = snd (prune_terminal_trusted R tid s)"
| "run_cmd R (CmdRemove tid) s = snd (remove tid s)"

definition same_task :: "'m DetachedTaskEntry \<Rightarrow> 'm DetachedTaskEntry \<Rightarrow> bool" where
  "same_task e e' \<longleftrightarrow> de_owner_id e' = de_owner_id e \<and> de_metadata e' = de_metadata e \<and> de_status e' = de_status e \<and>
     de_abort e' = de_abort e"

text \<open>An entry is kept as the same task, or it is gone together with its steering handle.\<close>

definition kept_or_released :: "('m, 'st, 'h) detached_state \<Rightarrow> ('m, 'st, 'h) detached_state \<Rightarrow> string \<Rightarrow> bool" where
  "kept_or_released s s' tid \<longleftrightarrow>
     (\<forall>e. map_of (dr_entries s) tid = Some e \<longrightarrow>
        (case map_of (dr_entries s') tid of
           Some e' \<Rightarrow> same_task e e'
         | None \<Rightarrow> steering_get tid (dr_steering s') = None))"

lemma same_task_refl [simp]: "same_task e e" by (simp add: same_task_def)

lemma kept_refl [simp]: "kept_or_released s s tid"
  by (simp add: kept_or_released_def)

lemma sweep_effect:
  "map_of (dr_entries (snd (sweep_terminal R s))) k = map_of (dr_entries s) k \<or>
   map_of (dr_entries (snd (sweep_terminal R s))) k = None \<and> steering_get k (dr_steering (snd (sweep_terminal R s))) = None"
  by (auto simp: sweep_terminal_def Let_def)

lemma take_and_cancel_effect:
  "map_of (dr_entries (snd (take_and_cancel R tid owner s))) k = map_of (dr_entries s) k \<or>
   map_of (dr_entries (snd (take_and_cancel R tid owner s))) k = None \<and>
     steering_get k (dr_steering (snd (take_and_cancel R tid owner s))) = None"
  by (auto simp: take_and_cancel_def Let_def split: sum.splits option.splits)

lemma take_and_cancel_released:
  "steering_get k (dr_steering s) = None \<Longrightarrow> steering_get k (dr_steering (snd (take_and_cancel R tid owner s))) = None"
  by (auto simp: take_and_cancel_def Let_def split: sum.splits option.splits)

lemma cancel_each_Cons: "snd (cancel_each R (tid # tids) s) = snd (cancel_each R tids (snd (take_and_cancel R tid None s)))"
  by (auto simp: cancel_trusted_def split: prod.splits sum.splits)

lemma cancel_each_released:
  "map_of (dr_entries s) k = None \<Longrightarrow> steering_get k (dr_steering s) = None \<Longrightarrow>
     map_of (dr_entries (snd (cancel_each R tids s))) k = None \<and> steering_get k (dr_steering (snd (cancel_each R tids s))) = None"
proof (induction tids arbitrary: s)
  case (Cons tid tids)
  have "map_of (dr_entries (snd (take_and_cancel R tid None s))) k = None"
    using take_and_cancel_effect [of R tid None s k] Cons.prems(1) by metis
  then show ?case
    using Cons.IH take_and_cancel_released [OF Cons.prems(2)] unfolding cancel_each_Cons by blast
qed simp

lemma cancel_each_effect:
  "map_of (dr_entries (snd (cancel_each R tids s))) k = map_of (dr_entries s) k \<or>
   map_of (dr_entries (snd (cancel_each R tids s))) k = None \<and> steering_get k (dr_steering (snd (cancel_each R tids s))) = None"
proof (induction tids arbitrary: s)
  case (Cons tid tids)
  show ?case
    using take_and_cancel_effect [of R tid None s k] Cons.IH [of "snd (take_and_cancel R tid None s)"]
      cancel_each_released [of "snd (take_and_cancel R tid None s)" k R tids]
    unfolding cancel_each_Cons by metis
qed simp

lemma kept_by_effect:
  assumes "map_of (dr_entries s') tid = map_of (dr_entries s) tid \<or>
    map_of (dr_entries s') tid = None \<and> steering_get tid (dr_steering s') = None"
  shows "kept_or_released s s' tid"
  using assms by (auto simp: kept_or_released_def split: option.splits)

lemma kept_by_store:
  assumes "map_of (dr_entries s) k = Some e" "same_task e e'"
  shows "kept_or_released s (store_entry k e' s) tid"
  using assms by (auto simp: kept_or_released_def split: option.splits)

lemma kept_trip [simp]: "kept_or_released s (trip c s') tid = kept_or_released s s' tid"
  by (cases "map_of (dr_entries s') tid") (simp_all add: kept_or_released_def)

lemma register_effect:
  assumes "register_entry R tid owner m chan token kind s = (r, s')"
  shows "map_of (dr_entries s') k = map_of (dr_entries s) k \<or>
    map_of (dr_entries s') k = None \<and> steering_get k (dr_steering s') = None \<or> k = tid \<and> map_of (dr_entries s') k \<noteq> None"
  using assms sweep_effect [of R s k]
  by (auto simp: register_entry_def Let_def update_conv' split: RegistrationKind.splits if_splits)

lemma register_live:
  assumes "map_of (dr_entries s) k = Some e" "\<not> is_settled R s e" "distinct (map fst (dr_entries s))"
    and "register_entry R tid owner m chan token kind s = (r, s')"
  shows "map_of (dr_entries s') k = Some e"
proof -
  have "k \<notin> fst ` set (filter (\<lambda>(_, x). is_settled R s x) (dr_entries s))"
  proof
    assume "k \<in> fst ` set (filter (\<lambda>(_, x). is_settled R s x) (dr_entries s))"
    then obtain b where "(k, b) \<in> set (dr_entries s)" "is_settled R s b" by auto
    then show False using map_of_is_SomeI [OF assms(3)] assms(1,2) by fastforce
  qed
  then have "map_of (dr_entries (snd (sweep_terminal R s))) k = Some e"
    using assms(1) by (simp add: sweep_terminal_def Let_def)
  then show ?thesis
    using assms(1,4)
    by (auto simp: register_entry_def Let_def update_conv' split: RegistrationKind.splits if_splits)
qed

section \<open>Properties\<close>


text \<open>
  C25. Ownership isolates tasks: a caller that is not the owner of a registered task can neither see it,
  steer it, wait for it nor cancel it.  Each of these calls answers \<open>NotOwned\<close>, a batch wait that names
  the task fails, and the registry is exactly as before.
\<close>

theorem foreign_owner_rejected:
  assumes "\<not> dr_poisoned s" "map_of (dr_entries s) tid = Some e" "de_owner_id e \<noteq> owner" "tid \<in> set tids"
  shows "snapshot tid owner s = Inl NotOwned \<and> steering_handle R tid owner s = Inl NotOwned \<and>
    cancel_cooperative R tid owner s = (Inl NotOwned, s) \<and> cancel_task R tid owner s = (Inl NotOwned, s) \<and>
    wait_until R tid owner sched s = Some (Inl NotOwned, sched, s) \<and>
    (\<exists>x. wait_many R tids owner sched s = Some (Inl x, sched, s))"
proof -
  have "\<exists>x. all_metadata tids owner s = Inl x"
    using assms(4)
  proof (induction tids)
    case (Cons t tids)
    then show ?case
      using assms(1-3) by (cases "metadata_for t owner s") (auto simp: metadata_for_def with_entry_def owned_def)
  qed simp
  then have "\<exists>x. wait_many R tids owner sched s = Some (Inl x, sched, s)" by (auto simp: wait_many_def)
  then show ?thesis
    using assms(1-3) by (simp add: snapshot_def steering_handle_def ensure_live_owned_def cancel_cooperative_def
      cancel_task_def take_and_cancel_def wait_until_def with_entry_def owned_def)
qed

text \<open>
  C23. Cancelling a task stops everything below it.  When an owner cancels a registered task whose token
  belongs to a lineage at rest, the entry and its steering handle are gone, the answer carries the owner
  and metadata of the task, and a live token of the lineage is cancelled afterwards exactly if it was
  before, or it is the task's token or one of its descendants.  The abort handle of a spawned task is
  used, and the abort observer hears of it exactly if the task was not settled.
\<close>

theorem cancel_task_cascades:
  assumes "\<not> dr_poisoned s" "map_of (dr_entries s) tid = Some e" "de_cancellation e = Some t"
    and lineage: "cancel_step\<^sup>*\<^sup>* cancel_init sys" "quiescent sys" "usable sys t" "usable sys u" "s_heap sys = dr_heap s"
    and "cancel_task R tid (de_owner_id e) s = (r, s')"
  shows "r = Inr (snapshot_entry s tid e) \<and> map_of (dr_entries s') tid = None \<and> steering_get tid (dr_steering s') = None \<and>
    (is_cancelled u (dr_heap s') \<longleftrightarrow> is_cancelled u (dr_heap s) \<or> u = t \<or> t \<in> set (ancestors u)) \<and>
    dr_aborted s' = dr_aborted s @ (case de_abort e of None \<Rightarrow> [] | Some a \<Rightarrow> [a]) \<and>
    dr_events s' = dr_events s @
      (if de_abort e = None \<or> is_settled R s e then [] else [snapshot_entry s tid e])"
proof -
  let ?s1 = "trip (Some t) (drop_steering tid (drop_entry tid s))"
  have c: "is_settled R ?s1 e = is_settled R s e" "snapshot_entry ?s1 tid e = snapshot_entry s tid e"
    by (rule latest_cong; simp)+
  have snap: "snapshot_entry (x\<lparr>dr_events := ev, dr_aborted := ab\<rparr>) tid e = snapshot_entry x tid e" for x ev ab
    by (rule latest_cong) simp
  have "r = Inr (snapshot_entry s tid e) \<and> map_of (dr_entries s') tid = None \<and> steering_get tid (dr_steering s') = None \<and>
    dr_aborted s' = dr_aborted s @ (case de_abort e of None \<Rightarrow> [] | Some a \<Rightarrow> [a]) \<and>
    dr_events s' = dr_events s @
       (if de_abort e = None \<or> is_settled R s e then [] else [snapshot_entry s tid e])"
    using assms(1-3,9)
    by (auto simp: cancel_task_def take_and_cancel_def with_entry_def owned_def Let_def c snap split: option.splits)
  moreover have "dr_heap s' = cancel t (dr_heap s)"
    using assms(1-3,9)
    by (auto simp: cancel_task_def take_and_cancel_def with_entry_def owned_def Let_def trip_def split: option.splits)
  ultimately show ?thesis using cancel_cascade [OF lineage(1-4)] lineage(5) by simp
qed

lemma wait_until_Terminal:
  assumes "wait_until R tid owner sched s = Some (Inr (Terminal v), sched', s')"
  shows "rg_is_terminal R v"
proof -
  have "wait_changed f chan sc x = Some (Ready v, sc', x') \<Longrightarrow> f v" for f chan sc x sc' x'
    by (induction f chan sc x rule: wait_changed.induct) (auto simp: Let_def split: wake.splits if_splits)
  then show ?thesis
    using assms by (auto simp: wait_until_def remove_def Let_def split: sum.splits if_splits option.splits waited.splits prod.splits)
qed

lemma wait_each_items:
  assumes "wait_each R owner ps results sched s = Some (Inr items, sched', s')"
    and "\<forall>x \<in> set results. bw_metadata x = G (bw_task_id x)" "\<forall>x \<in> set ps. snd x = G (fst x)"
    and "\<forall>x \<in> set results. \<forall>v. bw_outcome x = Terminal v \<longrightarrow> rg_is_terminal R v"
  shows "map bw_task_id items = map bw_task_id results @ map fst ps \<and>
    (\<forall>x \<in> set items. bw_metadata x = G (bw_task_id x) \<and> (\<forall>v. bw_outcome x = Terminal v \<longrightarrow> rg_is_terminal R v))"
  using assms
proof (induction R owner ps results sched s rule: wait_each.induct)
  case (2 R owner tid m rest results sched s)
  show ?case
  proof (cases "List.find (\<lambda>item. bw_task_id item = tid \<and> is_terminal_outcome (bw_outcome item)) results")
    case (Some earlier)
    then have e: "earlier \<in> set results" "bw_task_id earlier = tid" by (auto simp: find_Some_iff)
    then show ?thesis using 2(2) [OF Some] 2(3-6) Some by simp
  next
    case None
    from 2(3) None obtain outcome sc x where w: "wait_until R tid owner sched s = Some (Inr outcome, sc, x)"
      by (auto split: option.splits prod.splits sum.splits)
    have "outcome = Terminal v \<Longrightarrow> rg_is_terminal R v" for v using wait_until_Terminal w by metis
    then show ?thesis
      using 2(1) [OF None w refl refl refl] 2(3-6) None w by simp
  qed
qed simp

lemma all_metadata_Inr:
  "all_metadata tids owner s = Inr ms \<Longrightarrow> list_all2 (\<lambda>tid m. metadata_for tid owner s = Inr m) tids ms"
  by (induction tids arbitrary: ms) (auto simp: result_bind_Inr_iff split: sum.splits)

text \<open>
  C26. A batch wait answers for every task it was asked about, in the order of the request and with the
  metadata each task had when the batch started, repeated ids included, and a task reported terminal has a
  terminal status.
\<close>

theorem wait_many_in_order:
  assumes "wait_many R tids owner sched s = Some (Inr items, sched', s')"
  shows "map bw_task_id items = tids \<and>
    list_all2 (\<lambda>tid item. metadata_for tid owner s = Inr (bw_metadata item)) tids items \<and>
    (\<forall>item \<in> set items. \<forall>v. bw_outcome item = Terminal v \<longrightarrow> rg_is_terminal R v)"
proof -
  obtain ms where ms: "all_metadata tids owner s = Inr ms" and w: "wait_each R owner (zip tids ms) [] sched s = Some (Inr items, sched', s')"
    using assms by (auto simp: wait_many_def split: sum.splits)
  note M = all_metadata_Inr [OF ms]
  define G where "G tid = (case metadata_for tid owner s of Inr m \<Rightarrow> m | Inl _ \<Rightarrow> undefined)" for tid
  have known: "\<forall>x \<in> set (zip tids ms). metadata_for (fst x) owner s = Inr (snd x)"
    using M by (auto simp: list_all2_iff)
  then have "\<forall>x \<in> set (zip tids ms). snd x = G (fst x)" by (simp add: G_def)
  from wait_each_items [OF w _ this] have it: "map bw_task_id items = map fst (zip tids ms)"
    and T: "\<forall>x \<in> set items. bw_metadata x = G (bw_task_id x) \<and> (\<forall>v. bw_outcome x = Terminal v \<longrightarrow> rg_is_terminal R v)"
    by auto
  have len: "length tids = length ms" using M by (rule list_all2_lengthD)
  then have a: "map bw_task_id items = tids" using it by simp
  have "metadata_for tid owner s = Inr (G tid)" if t: "tid \<in> set tids" for tid
  proof -
    obtain m where "(tid, m) \<in> set (zip tids ms)" using t len by (metis in_set_impl_in_set_zip1)
    then show ?thesis using known by (force simp: G_def)
  qed
  then have "list_all2 (\<lambda>tid item. metadata_for tid owner s = Inr (bw_metadata item)) tids items"
    using T by (auto simp: a [symmetric] list_all2_map1 intro!: list.rel_refl_strong)
  with a T show ?thesis by blast
qed

text \<open>A registry with one spawned task of the owner \<open>''p''\<close>, whose token is the root of a lineage of two.\<close>

definition demo_registry :: "bool DetachedTaskRegistry" where
  "demo_registry = registry_new 0 (\<lambda>finished. finished)"

definition demo_entry :: "unit DetachedTaskEntry" where
  "demo_entry = \<lparr>de_owner_id = ''p'', de_metadata = (), de_status = 0, de_cancellation = Some demo_root,
     de_abort = Some 7, de_steer_requests = ids_default\<rparr>"

definition demo_tasks :: "bool \<Rightarrow> (unit, bool, unit) detached_state" where
  "demo_tasks finished = \<lparr>dr_poisoned = False, dr_entries = [(''t'', demo_entry)],
     dr_steering = \<lparr>sr_poisoned = False, sr_handles = [(''t'', ())]\<rparr>, dr_heap = s_heap demo_lineage,
     dr_channels = (\<lambda>_. \<lparr>ch_value = finished, ch_sender = True\<rparr>), dr_aborted = [], dr_events = []\<rparr>"

lemmas demo_task_simps = demo_tasks_def demo_entry_def demo_registry_def registry_new_def with_entry_def owned_def
  take_and_cancel_def cancel_trusted_def cancel_task_def is_settled_def latest_def snapshot_entry_def drop_entry_def
  drop_steering_def steering_deregister_def steering_get_def trip_def Let_def


theorem foreign_owner_rejected_witness:
  "cancel_task demo_registry ''t'' ''q'' (demo_tasks False) = (Inl NotOwned, demo_tasks False) \<and>
   wait_until demo_registry ''t'' ''q'' [] (demo_tasks False) = Some (Inl NotOwned, [], demo_tasks False)"
proof -
  have "\<not> dr_poisoned (demo_tasks False)" "map_of (dr_entries (demo_tasks False)) ''t'' = Some demo_entry"
    "de_owner_id demo_entry \<noteq> ''q''" "''t'' \<in> set [''t'']" by (simp_all add: demo_tasks_def demo_entry_def)
  from foreign_owner_rejected [OF this] show ?thesis by simp
qed

theorem cancel_task_cascades_witness:
  "is_cancelled demo_child (dr_heap (snd (cancel_task demo_registry ''t'' ''p'' (demo_tasks False)))) \<and>
   dr_aborted (snd (cancel_task demo_registry ''t'' ''p'' (demo_tasks False))) = [7] \<and>
   length (dr_events (snd (cancel_task demo_registry ''t'' ''p'' (demo_tasks False)))) = 1"
proof -
  let ?r = "cancel_task demo_registry ''t'' (de_owner_id demo_entry) (demo_tasks False)"
  have "\<not> dr_poisoned (demo_tasks False)" "map_of (dr_entries (demo_tasks False)) ''t'' = Some demo_entry"
    "de_cancellation demo_entry = Some demo_root" "s_heap demo_lineage = dr_heap (demo_tasks False)"
    "?r = (fst ?r, snd ?r)" by (simp_all add: demo_tasks_def demo_entry_def)
  note T = cancel_task_cascades [OF this(1-3) demo_reachable demo_usable(3,1,2) this(4,5)]
  have "demo_root \<in> set (ancestors demo_child)" "de_owner_id demo_entry = ''p''" "de_abort demo_entry = Some 7"
    "\<not> is_settled demo_registry (demo_tasks False) demo_entry"
    by (simp_all add: demo_child_def demo_task_simps)
  then show ?thesis using T by (simp add: demo_tasks_def)
qed

theorem wait_many_in_order_witness:
  "\<exists>items s. wait_many demo_registry [''t'', ''t''] ''p'' [(id, DeadlineElapsed), (id, DeadlineElapsed)] (demo_tasks False)
      = Some (Inr items, [], s) \<and> map bw_task_id items = [''t'', ''t'']"
proof -
  have "\<exists>items s. wait_many demo_registry [''t'', ''t''] ''p'' [(id, DeadlineElapsed), (id, DeadlineElapsed)] (demo_tasks False)
      = Some (Inr items, [], s)"
    by (simp add: wait_many_def metadata_for_def wait_until_def demo_task_simps)
  then show ?thesis using wait_many_in_order by blast
qed

end
