(* ===== verification/EffectMonad.thy ===== *)
theory EffectMonad
  imports Prelude
begin

text \<open>
  Fallible operations on a shared world.

  An \<open>effect\<close> takes the world, and gives a result and the world afterwards; after an error the rest of
  a sequence does not run, but what was done before stays done, as with the \<open>?\<close> of the sources.

  \<open>follows R m\<close> says that \<open>m\<close> changes the world along the relation \<open>R\<close>, whatever its result.  The
  locale \<open>world_relation\<close> is the contract that makes this compositional: for a reflexive and transitive
  relation, a sequence, a branch or a loop follows it if its parts do.
\<close>

type_synonym ('w, 'e, 'a) effect = "'w \<Rightarrow> ('e, 'a) result \<times> 'w"

definition eff_return :: "'a \<Rightarrow> ('w, 'e, 'a) effect" where
  "eff_return a w = (Inr a, w)"

definition eff_throw :: "'e \<Rightarrow> ('w, 'e, 'a) effect" where
  "eff_throw e w = (Inl e, w)"

definition eff_bind :: "('w, 'e, 'a) effect \<Rightarrow> ('a \<Rightarrow> ('w, 'e, 'b) effect) \<Rightarrow> ('w, 'e, 'b) effect" where
  "eff_bind m f w = (case m w of (Inl e, w') \<Rightarrow> (Inl e, w') | (Inr a, w') \<Rightarrow> f a w')"

definition eff_then :: "('w, 'e, 'a) effect \<Rightarrow> ('w, 'e, 'b) effect \<Rightarrow> ('w, 'e, 'b) effect" where
  "eff_then m n = eff_bind m (\<lambda>_. n)"

definition eff_read :: "('w \<Rightarrow> 'a) \<Rightarrow> ('w, 'e, 'a) effect" where
  "eff_read f w = (Inr (f w), w)"

definition eff_modify :: "('w \<Rightarrow> 'w) \<Rightarrow> ('w, 'e, unit) effect" where
  "eff_modify f w = (Inr (), f w)"

text \<open>A loop over a list that stops at the first error.\<close>

fun eff_each :: "('x \<Rightarrow> ('w, 'e, unit) effect) \<Rightarrow> 'x list \<Rightarrow> ('w, 'e, unit) effect" where
  "eff_each f [] = eff_return ()"
| "eff_each f (x # xs) = eff_then (f x) (eff_each f xs)"

text \<open>A loop over a list that counts the iterations that answer true.\<close>

fun eff_count :: "('x \<Rightarrow> ('w, 'e, bool) effect) \<Rightarrow> 'x list \<Rightarrow> ('w, 'e, nat) effect" where
  "eff_count f [] = eff_return 0"
| "eff_count f (x # xs) = eff_bind (f x) (\<lambda>b. eff_bind (eff_count f xs) (\<lambda>n. eff_return (if b then Suc n else n)))"

text \<open>An operation whose error is dropped.\<close>

definition eff_ignore :: "('w, 'e, 'a) effect \<Rightarrow> ('w, 'e, unit) effect" where
  "eff_ignore m w = (Inr (), snd (m w))"

text \<open>Running a cleanup whatever the outcome, as the drop of a guard does.\<close>

definition eff_finally :: "('w, 'e, 'a) effect \<Rightarrow> ('w \<Rightarrow> 'w) \<Rightarrow> ('w, 'e, 'a) effect" where
  "eff_finally m cleanup w = (case m w of (r, w') \<Rightarrow> (r, cleanup w'))"

lemma eff_simps [simp]:
  "eff_return a w = (Inr a, w)" "eff_throw e w = (Inl e, w)" "eff_read f w = (Inr (f w), w)"
  "eff_modify g w = (Inr (), g w)"
  by (simp_all add: eff_return_def eff_throw_def eff_read_def eff_modify_def)

lemma eff_bind_Inr:
  "eff_bind m f w = (Inr b, w'') \<longleftrightarrow> (\<exists>a w'. m w = (Inr a, w') \<and> f a w' = (Inr b, w''))"
  by (auto simp: eff_bind_def split: prod.splits sum.splits)

lemma eff_bind_step [simp]:
  "m w = (Inr a, w') \<Longrightarrow> eff_bind m f w = f a w'" "m w = (Inl e, w') \<Longrightarrow> eff_bind m f w = (Inl e, w')"
  by (simp_all add: eff_bind_def)

lemma eff_then_step [simp]:
  "m w = (Inr a, w') \<Longrightarrow> eff_then m n w = n w'" "m w = (Inl e, w') \<Longrightarrow> eff_then m n w = (Inl e, w')"
  by (simp_all add: eff_then_def)

lemma eff_then_Inr:
  "eff_then m n w = (Inr b, w'') \<longleftrightarrow> (\<exists>a w'. m w = (Inr a, w') \<and> n w' = (Inr b, w''))"
  by (auto simp: eff_then_def eff_bind_Inr)

section \<open>Relations every step follows\<close>

definition follows :: "('w \<Rightarrow> 'w \<Rightarrow> bool) \<Rightarrow> ('w, 'e, 'a) effect \<Rightarrow> bool" where
  "follows R m \<longleftrightarrow> (\<forall>w. R w (snd (m w)))"

lemma followsI [intro?]: "(\<And>w r w'. m w = (r, w') \<Longrightarrow> R w w') \<Longrightarrow> follows R m"
  by (metis prod.collapse follows_def)

lemma followsD: "follows R m \<Longrightarrow> m w = (r, w') \<Longrightarrow> R w w'"
  by (metis follows_def snd_conv)

locale world_relation =
  fixes R :: "'w \<Rightarrow> 'w \<Rightarrow> bool"
  assumes R_refl: "R w w"
    and R_trans: "R u v \<Longrightarrow> R v w \<Longrightarrow> R u w"
begin

lemma res_basic: "follows R (eff_return a)" "follows R (eff_throw e)" "follows R (eff_read f)"
  by (simp_all add: follows_def R_refl)

lemma res_modify: "(\<And>w. R w (f w)) \<Longrightarrow> follows R (eff_modify f)"
  by (simp add: follows_def)

lemma res_bind: "follows R m \<Longrightarrow> (\<And>a. follows R (f a)) \<Longrightarrow> follows R (eff_bind m f)"
  unfolding follows_def eff_bind_def by (auto split: prod.splits sum.splits) (metis R_trans snd_conv)+

lemma res_then: "follows R m \<Longrightarrow> follows R n \<Longrightarrow> follows R (eff_then m n)"
  unfolding eff_then_def by (rule res_bind)

lemma res_each: "(\<And>x. x \<in> set xs \<Longrightarrow> follows R (f x)) \<Longrightarrow> follows R (eff_each f xs)"
  by (induction xs) (simp_all add: res_basic res_then)

lemma res_count: "(\<And>x. x \<in> set xs \<Longrightarrow> follows R (f x)) \<Longrightarrow> follows R (eff_count f xs)"
  by (induction xs) (simp_all add: res_basic res_bind)

lemma res_ignore: "follows R m \<Longrightarrow> follows R (eff_ignore m)"
  by (simp add: follows_def eff_ignore_def)

lemma res_finally: "follows R m \<Longrightarrow> (\<And>w. R w (f w)) \<Longrightarrow> follows R (eff_finally m f)"
  unfolding follows_def eff_finally_def by (auto split: prod.splits) (metis R_trans snd_conv)

lemma res_if: "(b \<Longrightarrow> follows R m) \<Longrightarrow> (\<not> b \<Longrightarrow> follows R n) \<Longrightarrow> follows R (if b then m else n)"
  by simp

lemma res_option:
  "(x = None \<Longrightarrow> follows R m) \<Longrightarrow> (\<And>a. x = Some a \<Longrightarrow> follows R (f a)) \<Longrightarrow> follows R (case x of None \<Rightarrow> m | Some a \<Rightarrow> f a)"
  by (cases x) simp_all

text \<open>The same for one start, where a later step may depend on what an earlier one found.\<close>

lemma at_bind:
  "R w (snd (m w)) \<Longrightarrow> (\<And>a v. m w = (Inr a, v) \<Longrightarrow> R v (snd (f a v))) \<Longrightarrow> R w (snd (eff_bind m f w))"
  by (cases "m w"; cases "fst (m w)") (auto intro: R_trans)

lemma at_then:
  "R w (snd (m w)) \<Longrightarrow> (\<And>a v. m w = (Inr a, v) \<Longrightarrow> R v (snd (n v))) \<Longrightarrow> R w (snd (eff_then m n w))"
  unfolding eff_then_def by (rule at_bind)

lemma at_finally: "R w (snd (m w)) \<Longrightarrow> (\<And>v. R v (f v)) \<Longrightarrow> R w (snd (eff_finally m f w))"
  by (cases "m w") (auto simp: eff_finally_def intro: R_trans)

lemmas res_intros = res_basic res_modify res_bind res_then res_each res_count res_ignore res_finally res_if res_option

end

end
