(* ===== verification/Completions.thy ===== *)
theory Completions
  imports Errors EffectMonad "HOL-Library.AList" "HOL-Library.Char_ord" "HOL-Library.List_Lexorder"
    "HOL-Library.Product_Lexorder"
begin

text \<open>
  Completion records and their store: \<open>tinyagents-tasks/src/completions/types.rs\<close>,
  \<open>completions/store.rs\<close> and \<open>completions/lifecycle.rs\<close>.

  The world holds what the routers of one process share: the records, the parent gates with their
  epochs, and the lifecycle entries, each behind its own lock in the code, and the two sources the code
  reads from outside, the clock and the random identifiers.  The clock is a sequence of readings: every
  \<open>SystemTime::now\<close> takes the next one (also where a short-circuit of the code would skip the reading).  A \<open>SystemTime\<close> is a natural number of nanoseconds.  Hash maps
  are association lists in their iteration order.  Store methods are effects on this world; the error
  branch of a poisoned lock is left out, because no operation panics while it holds one.

  \<open>cw_process_local\<close> is what the store answers to \<open>is_process_local\<close>: true for the in-memory store.  A
  shared backend with the same contract answers false, and the router then takes its other branches.
\<close>

section \<open>Records\<close>

datatype NotifyMode = NotifyFollowup | NotifyCollect | HoldForNextTurn | NotifyOff

fun notify_mode_as_str :: "NotifyMode \<Rightarrow> string" where
  "notify_mode_as_str NotifyFollowup = ''followup''"
| "notify_mode_as_str NotifyCollect = ''collect''"
| "notify_mode_as_str HoldForNextTurn = ''hold_for_next_turn''"
| "notify_mode_as_str NotifyOff = ''off''"

datatype CompletionStatus = CSuccess | CFailed | CCancelled | CIncomplete

fun completion_status_as_str :: "CompletionStatus \<Rightarrow> string" where
  "completion_status_as_str CSuccess = ''success''"
| "completion_status_as_str CFailed = ''failed''"
| "completion_status_as_str CCancelled = ''cancelled''"
| "completion_status_as_str CIncomplete = ''incomplete''"

datatype CompletionState = CPending | CDelivered | CTombstoned | CParentDeleted | CGaveUp

fun completion_state_as_str :: "CompletionState \<Rightarrow> string" where
  "completion_state_as_str CPending = ''pending''"
| "completion_state_as_str CDelivered = ''delivered''"
| "completion_state_as_str CTombstoned = ''tombstoned''"
| "completion_state_as_str CParentDeleted = ''parent_deleted''"
| "completion_state_as_str CGaveUp = ''gave_up''"

record CompletionClaim =
  cl_token :: string
  cl_visible_after :: nat

record CompletionReceipt =
  rc_task_id :: string
  rc_parent_key :: string
  rc_parent_epoch :: u64
  rc_token :: string

record CompletionArtifact =
  ca_id :: string
  ca_media_type :: "string option"
  ca_metadata :: "(string \<times> string) list"

record CompletionResult =
  cx_text :: string
  cx_omitted_chars :: nat
  cx_artifact :: "CompletionArtifact option"

record CompletionRecord =
  cr_task_id :: string
  cr_parent_key :: string
  cr_parent_epoch :: u64
  cr_agent_id :: string
  cr_label :: "string option"
  cr_status :: CompletionStatus
  cr_result :: CompletionResult
  cr_finished_at :: nat
  cr_updated_at :: nat
  cr_attempts :: u32
  cr_state :: CompletionState
  cr_notify_mode :: NotifyMode
  cr_claim :: "CompletionClaim option"

definition completion_result_text :: "string \<Rightarrow> CompletionResult" where
  "completion_result_text t = \<lparr>cx_text = t, cx_omitted_chars = 0, cx_artifact = None\<rparr>"

definition completion_new ::
  "nat \<Rightarrow> string \<Rightarrow> string \<Rightarrow> string \<Rightarrow> CompletionStatus \<Rightarrow> CompletionResult \<Rightarrow> CompletionRecord" where
  "completion_new now tid parent agent stat res =
     \<lparr>cr_task_id = tid, cr_parent_key = parent, cr_parent_epoch = 0, cr_agent_id = agent, cr_label = None,
      cr_status = stat, cr_result = res, cr_finished_at = now, cr_updated_at = now, cr_attempts = 0,
      cr_state = CPending, cr_notify_mode = NotifyFollowup, cr_claim = None\<rparr>"

definition with_label :: "string \<Rightarrow> CompletionRecord \<Rightarrow> CompletionRecord" where
  "with_label l r = r\<lparr>cr_label := Some l\<rparr>"

definition with_notify_mode :: "NotifyMode \<Rightarrow> CompletionRecord \<Rightarrow> CompletionRecord" where
  "with_notify_mode m r = r\<lparr>cr_notify_mode := m\<rparr>"

definition with_finished_at :: "nat \<Rightarrow> CompletionRecord \<Rightarrow> CompletionRecord" where
  "with_finished_at t r = r\<lparr>cr_finished_at := t\<rparr>"

definition receipt :: "CompletionRecord \<Rightarrow> CompletionReceipt option" where
  "receipt r = map_option (\<lambda>c. \<lparr>rc_task_id = cr_task_id r, rc_parent_key = cr_parent_key r,
     rc_parent_epoch = cr_parent_epoch r, rc_token = cl_token c\<rparr>) (cr_claim r)"

definition tombstone_stub :: "nat \<Rightarrow> string \<Rightarrow> CompletionRecord" where
  "tombstone_stub now tid =
     (completion_new now tid [] [] CIncomplete (completion_result_text []))\<lparr>cr_state := CTombstoned\<rparr>"

section \<open>The world\<close>

record ParentGateClaim =
  pg_holder :: string
  pg_epoch :: u64

record MemoryParentGate =
  mg_claim :: ParentGateClaim
  mg_expires_at :: nat

datatype ParentLifecycleStatus = Open u64 | StoppedParent u64 | DeletedParent u64

record ParentLifecycleEntry =
  le_held :: bool
  le_status :: "ParentLifecycleStatus option"

record completion_world =
  cw_records :: "(string \<times> CompletionRecord) list"
  cw_gates :: "(string \<times> MemoryParentGate) list"
  cw_epochs :: "(string \<times> u64) list"
  cw_process_local :: bool
  cw_lifecycle :: "(string \<times> ParentLifecycleEntry) list"
  cw_clock :: "nat \<Rightarrow> nat"
  cw_reads :: nat
  cw_uuid :: "nat \<Rightarrow> string"
  cw_uuids :: nat

type_synonym 'a completion_effect = "(completion_world, TinyAgentsError, 'a) effect"

definition now :: "nat completion_effect" where
  "now w = (Inr (cw_clock w (cw_reads w)), w\<lparr>cw_reads := Suc (cw_reads w)\<rparr>)"

definition new_uuid :: "string completion_effect" where
  "new_uuid w = (Inr (cw_uuid w (cw_uuids w)), w\<lparr>cw_uuids := Suc (cw_uuids w)\<rparr>)"

definition store_err :: "string \<Rightarrow> string \<Rightarrow> TinyAgentsError" where
  "store_err what err = Graph (''completion store: '' @ what @ '': '' @ err)"

definition find_record :: "string \<Rightarrow> completion_world \<Rightarrow> CompletionRecord option" where
  "find_record tid w = map_of (cw_records w) tid"

definition insert_record :: "CompletionRecord \<Rightarrow> completion_world \<Rightarrow> completion_world" where
  "insert_record r w = w\<lparr>cw_records := AList.update (cr_task_id r) r (cw_records w)\<rparr>"

section \<open>Parent gates\<close>

definition acquire_parent_gate :: "string \<Rightarrow> string \<Rightarrow> nat \<Rightarrow> ParentGateClaim option completion_effect" where
  "acquire_parent_gate key holder ttl =
     eff_bind now (\<lambda>t w.
       case (case map_of (cw_gates w) key of
               Some existing \<Rightarrow> if mg_expires_at existing > t then Some existing else None
             | None \<Rightarrow> None) of
         Some existing \<Rightarrow>
           (Inr (if pg_holder (mg_claim existing) = holder then Some (mg_claim existing) else None), w)
       | None \<Rightarrow>
           (case checked_add (case map_of (cw_epochs w) key of None \<Rightarrow> 0 | Some e \<Rightarrow> e) 1 of
              None \<Rightarrow> (Inl (store_err ''parent gate epoch'' ''epoch overflow''), w)
            | Some epoch \<Rightarrow>
                (let claim = \<lparr>pg_holder = holder, pg_epoch = epoch\<rparr> in
                 (Inr (Some claim),
                  w\<lparr>cw_epochs := AList.update key epoch (cw_epochs w),
                    cw_gates := AList.update key \<lparr>mg_claim = claim, mg_expires_at = t + ttl\<rparr> (cw_gates w)\<rparr>))))"

definition renew_parent_gate :: "string \<Rightarrow> ParentGateClaim \<Rightarrow> nat \<Rightarrow> bool completion_effect" where
  "renew_parent_gate key claim ttl =
     eff_bind now (\<lambda>t w.
       case map_of (cw_gates w) key of
         None \<Rightarrow> (Inr False, w)
       | Some gate \<Rightarrow>
           if mg_claim gate \<noteq> claim \<or> mg_expires_at gate \<le> t then (Inr False, w)
           else (Inr True, w\<lparr>cw_gates := AList.update key (gate\<lparr>mg_expires_at := t + ttl\<rparr>) (cw_gates w)\<rparr>))"

definition release_parent_gate :: "string \<Rightarrow> ParentGateClaim \<Rightarrow> bool completion_effect" where
  "release_parent_gate key claim w =
     (case map_of (cw_gates w) key of
        Some gate \<Rightarrow>
          if mg_claim gate = claim
          then eff_bind now (\<lambda>t w.
                 if mg_expires_at gate > t then (Inr True, w\<lparr>cw_gates := AList.delete key (cw_gates w)\<rparr>)
                 else (Inr False, w)) w
          else (Inr False, w)
      | None \<Rightarrow> (Inr False, w))"

definition gate_is_current :: "string \<Rightarrow> ParentGateClaim \<Rightarrow> nat \<Rightarrow> completion_world \<Rightarrow> bool" where
  "gate_is_current key claim t w =
     (case map_of (cw_gates w) key of
        None \<Rightarrow> False
      | Some gate \<Rightarrow> mg_claim gate = claim \<and> mg_expires_at gate > t)"

definition with_current_gate :: "string \<Rightarrow> ParentGateClaim \<Rightarrow> 'a completion_effect \<Rightarrow> 'a completion_effect" where
  "with_current_gate key claim operation =
     eff_bind now (\<lambda>t.
     eff_bind (eff_read (gate_is_current key claim t)) (\<lambda>current.
       if \<not> current then eff_throw (store_err ''parent gate'' ''claim is stale or expired'')
       else
         eff_bind now (\<lambda>t.
         eff_bind (eff_read (gate_is_current key claim t)) (\<lambda>current.
           if \<not> current then eff_throw (store_err ''parent gate'' ''claim expired before mutation'')
           else operation))))"

section \<open>Store methods\<close>

definition marker_prefix :: string where "marker_prefix = CHR 0x01 # ''parent-cancelled:''"

text \<open>An unversioned record is stamped with the generation of its parent, if the parent is open.\<close>

definition stamp_epoch :: "completion_world \<Rightarrow> CompletionRecord \<Rightarrow> CompletionRecord" where
  "stamp_epoch w r =
     (if cr_parent_epoch r = 0 \<and> cr_parent_key r \<noteq> []
      then (case find_record (marker_prefix @ cr_parent_key r) w of
              Some marker \<Rightarrow> if cr_state marker = CDelivered then r\<lparr>cr_parent_epoch := cr_parent_epoch marker\<rparr> else r
            | None \<Rightarrow> r)
      else r)"

definition store_put :: "CompletionRecord \<Rightarrow> unit completion_effect" where
  "store_put r = eff_modify (\<lambda>w. insert_record (stamp_epoch w r) w)"

definition put_fenced :: "CompletionRecord \<Rightarrow> string \<Rightarrow> ParentGateClaim \<Rightarrow> unit completion_effect" where
  "put_fenced r key gate = with_current_gate key gate (eff_modify (\<lambda>w. insert_record (stamp_epoch w r) w))"

definition insert_if_absent :: "CompletionRecord \<Rightarrow> ParentGateClaim \<Rightarrow> bool completion_effect" where
  "insert_if_absent r gate =
     with_current_gate (cr_parent_key r) gate
       (eff_bind (eff_read (find_record (cr_task_id r))) (\<lambda>existing.
          if existing \<noteq> None then eff_return False
          else eff_then (eff_modify (insert_record r)) (eff_return True)))"

datatype CompletionClaimMode = ClaimFollowup | ClaimHold | ClaimPull

fun accepts :: "CompletionClaimMode \<Rightarrow> NotifyMode \<Rightarrow> bool" where
  "accepts ClaimFollowup m \<longleftrightarrow> m = NotifyFollowup \<or> m = NotifyCollect"
| "accepts ClaimHold m \<longleftrightarrow> m = HoldForNextTurn"
| "accepts ClaimPull m \<longleftrightarrow> m = NotifyOff"

datatype ClaimResolution = ResolveDelivered | ResolveFailed u32 | ResolveRelease

text \<open>Whether a claim of a parent's generation may take the record at time \<open>t\<close>.\<close>

definition claimable :: "string \<Rightarrow> u64 \<Rightarrow> CompletionClaimMode \<Rightarrow> nat \<Rightarrow> CompletionRecord \<Rightarrow> bool" where
  "claimable key epoch mode t r \<longleftrightarrow>
     cr_parent_key r = key \<and> cr_parent_epoch r = epoch \<and> cr_state r = CPending \<and> accepts mode (cr_notify_mode r) \<and>
     (case cr_claim r of None \<Rightarrow> True | Some c \<Rightarrow> cl_visible_after c \<le> t)"

definition claimed_by :: "string \<Rightarrow> nat \<Rightarrow> nat \<Rightarrow> CompletionRecord \<Rightarrow> CompletionRecord" where
  "claimed_by token visible_after t r =
     r\<lparr>cr_attempts := sat_add (cr_attempts r) 1, cr_updated_at := t,
       cr_claim := Some \<lparr>cl_token = token @ '':'' @ cr_task_id r, cl_visible_after = visible_after\<rparr>\<rparr>"

definition oldest_first :: "CompletionRecord list \<Rightarrow> CompletionRecord list" where
  "oldest_first rs = sort_key (\<lambda>r. (cr_finished_at r, cr_task_id r)) rs"

fun claim_each ::
  "string \<Rightarrow> nat \<Rightarrow> nat \<Rightarrow> CompletionRecord list \<Rightarrow> CompletionRecord list completion_effect" where
  "claim_each token visible_after t [] = eff_return []"
| "claim_each token visible_after t (candidate # rest) =
     eff_bind (eff_read (find_record (cr_task_id candidate))) (\<lambda>found.
       case found of
         None \<Rightarrow> claim_each token visible_after t rest
       | Some r \<Rightarrow>
           (let r' = claimed_by token visible_after t r in
            eff_then (eff_modify (\<lambda>w. w\<lparr>cw_records := AList.update (cr_task_id candidate) r' (cw_records w)\<rparr>))
              (eff_bind (claim_each token visible_after t rest) (\<lambda>rs. eff_return (r' # rs)))))"

definition store_claim_pending ::
  "string \<Rightarrow> u64 \<Rightarrow> ParentGateClaim \<Rightarrow> CompletionClaimMode \<Rightarrow> nat option \<Rightarrow> string \<Rightarrow> nat
    \<Rightarrow> CompletionRecord list completion_effect" where
  "store_claim_pending key epoch gate mode limit token visible_after =
     with_current_gate key gate
       (eff_bind now (\<lambda>t.
        eff_bind (eff_read (\<lambda>w. filter (claimable key epoch mode t) (map snd (cw_records w)))) (\<lambda>found.
          let candidates = oldest_first found in
          claim_each token visible_after t (case limit of None \<Rightarrow> candidates | Some n \<Rightarrow> take n candidates))))"

definition store_claim_task ::
  "string \<Rightarrow> string \<Rightarrow> u64 \<Rightarrow> ParentGateClaim \<Rightarrow> CompletionClaimMode \<Rightarrow> string \<Rightarrow> nat
    \<Rightarrow> CompletionRecord option completion_effect" where
  "store_claim_task tid key epoch gate mode token visible_after =
     with_current_gate key gate
       (eff_bind now (\<lambda>t.
        eff_bind (eff_read (find_record tid)) (\<lambda>found.
          case found of
            None \<Rightarrow> eff_return None
          | Some r \<Rightarrow>
              if \<not> claimable key epoch mode t r then eff_return None
              else
                (let r' = r\<lparr>cr_attempts := sat_add (cr_attempts r) 1, cr_updated_at := t,
                     cr_claim := Some \<lparr>cl_token = token @ '':'' @ tid, cl_visible_after = visible_after\<rparr>\<rparr> in
                 eff_then (eff_modify (\<lambda>w. w\<lparr>cw_records := AList.update tid r' (cw_records w)\<rparr>)) (eff_return (Some r'))))))"

definition resolved_state :: "ClaimResolution \<Rightarrow> CompletionRecord \<Rightarrow> CompletionState" where
  "resolved_state resolution r =
     (case resolution of
        ResolveDelivered \<Rightarrow> CDelivered
      | ResolveFailed max_attempts \<Rightarrow> if cr_attempts r \<ge> max_attempts then CGaveUp else cr_state r
      | ResolveRelease \<Rightarrow> cr_state r)"

definition owns_claim :: "string \<Rightarrow> nat \<Rightarrow> CompletionRecord \<Rightarrow> bool" where
  "owns_claim token t r \<longleftrightarrow>
     (case cr_claim r of None \<Rightarrow> False | Some c \<Rightarrow> cl_token c = token \<and> cl_visible_after c > t)"

definition store_resolve_claim ::
  "CompletionReceipt \<Rightarrow> ParentGateClaim \<Rightarrow> ClaimResolution \<Rightarrow> CompletionRecord option completion_effect" where
  "store_resolve_claim rc gate resolution =
     with_current_gate (rc_parent_key rc) gate
       (eff_bind (eff_read (find_record (rc_task_id rc))) (\<lambda>found.
          case found of
            None \<Rightarrow> eff_return None
          | Some r \<Rightarrow>
              eff_bind now (\<lambda>t.
                if cr_parent_key r \<noteq> rc_parent_key rc \<or> cr_parent_epoch r \<noteq> rc_parent_epoch rc
                   \<or> cr_state r \<noteq> CPending \<or> \<not> owns_claim (rc_token rc) t r
                then eff_return None
                else
                  eff_bind now (\<lambda>t.
                    let r' = r\<lparr>cr_updated_at := t, cr_claim := None, cr_state := resolved_state resolution r\<rparr> in
                    eff_then (eff_modify (\<lambda>w. w\<lparr>cw_records := AList.update (rc_task_id rc) r' (cw_records w)\<rparr>))
                      (eff_return (Some r'))))))"

definition store_list :: "string option \<Rightarrow> completion_world \<Rightarrow> CompletionRecord list" where
  "store_list key w =
     filter (\<lambda>r. case key of None \<Rightarrow> True | Some k \<Rightarrow> cr_parent_key r = k) (map snd (cw_records w))"

definition expired :: "nat \<Rightarrow> nat \<Rightarrow> CompletionRecord \<Rightarrow> bool" where
  "expired retain t r \<longleftrightarrow> cr_state r \<noteq> CPending \<and> cr_updated_at r \<le> t \<and> t - cr_updated_at r > retain"

definition store_compact :: "nat \<Rightarrow> nat completion_effect" where
  "store_compact retain =
     eff_bind now (\<lambda>t w.
       let kept = filter (\<lambda>(tid, r). prefix marker_prefix tid \<or> \<not> expired retain t r) (cw_records w) in
       (Inr (length (cw_records w) - length kept), w\<lparr>cw_records := kept\<rparr>))"

section \<open>Parent lifecycle entries\<close>

definition lifecycle_entry :: "string \<Rightarrow> completion_world \<Rightarrow> ParentLifecycleEntry" where
  "lifecycle_entry key w =
     (case map_of (cw_lifecycle w) key of None \<Rightarrow> \<lparr>le_held = False, le_status = None\<rparr> | Some e \<Rightarrow> e)"

definition store_lifecycle :: "string \<Rightarrow> ParentLifecycleEntry \<Rightarrow> completion_world \<Rightarrow> completion_world" where
  "store_lifecycle key e w = w\<lparr>cw_lifecycle := AList.update key e (cw_lifecycle w)\<rparr>"

text \<open>Waiting for the local gate: the attempt that ends the wait, by taking the gate or by timing out.\<close>

definition lifecycle_acquire :: "string \<Rightarrow> unit completion_effect" where
  "lifecycle_acquire key w =
     (let e = lifecycle_entry key w in
      if \<not> le_held e then (Inr (), store_lifecycle key (e\<lparr>le_held := True\<rparr>) w)
      else (Inl (Graph (''completion router: timed out waiting for local parent admission gate '' @ quoted key)),
            store_lifecycle key e w))"

definition lifecycle_status :: "string \<Rightarrow> completion_world \<Rightarrow> ParentLifecycleStatus option" where
  "lifecycle_status key w = (case map_of (cw_lifecycle w) key of None \<Rightarrow> None | Some e \<Rightarrow> le_status e)"

definition lifecycle_set_status :: "string \<Rightarrow> ParentLifecycleStatus \<Rightarrow> unit completion_effect" where
  "lifecycle_set_status key stat w =
     (let e = lifecycle_entry key w in
      if \<not> le_held e
      then (Inl (Graph ''completion router: parent lifecycle guard is no longer held''), store_lifecycle key e w)
      else (Inr (), store_lifecycle key (e\<lparr>le_status := Some stat\<rparr>) w))"

definition lifecycle_release :: "string \<Rightarrow> completion_world \<Rightarrow> completion_world" where
  "lifecycle_release key w =
     (case map_of (cw_lifecycle w) key of
        None \<Rightarrow> w
      | Some e \<Rightarrow> store_lifecycle key (e\<lparr>le_held := False\<rparr>) w)"

end
