(* ===== verification/CompletionRouter.thy ===== *)
theory CompletionRouter
  imports Completions RunQueue
begin

text \<open>
  The completion router: \<open>tinyagents-tasks/src/completions/router.rs\<close> and \<open>completions/admission.rs\<close>.

  A router works on the shared world of theory \<open>Completions\<close> and on its own state: the task ids it has
  leased, the receipts it holds and the queues of its live parents (theory \<open>RunQueue\<close>).  An operation
  holds the parent gate from \<open>ParentGateGuard::acquire\<close> until the guard is dropped; \<open>with_parent_gate\<close> is
  that bracket.  Waiting for a gate is modelled by the attempt that ends the wait: earlier attempts
  change nothing, and what other routers do in the meantime happens before the operation.

  The text a formatter makes of a record is a parameter (the host supplies it).  The migration of a
  router to another store is not modelled, so the admission slot always holds the current store.
\<close>

section \<open>Router state\<close>

definition PARENT_GATE_TTL :: nat where "PARENT_GATE_TTL = 60 * 10 ^ 9"
definition CLAIM_VISIBILITY :: nat where "CLAIM_VISIBILITY = 30 * 10 ^ 9"
definition DEFAULT_MAX_ATTEMPTS :: u32 where "DEFAULT_MAX_ATTEMPTS = 5"

record CompletionAdmission =
  ad_parent_key :: string
  ad_parent_epoch :: u64

type_synonym parent_queue = "(string, CompletionAdmission) RunQueue"

record RouterState =
  rs_max_attempts :: u32
  rs_leased :: "string set"
  rs_receipts :: "(string \<times> CompletionReceipt) list"
  rs_parents :: "(string \<times> parent_queue) list"

datatype RecordOutcome =
  Recorded "QueueLane option" "CompletionReceipt option" | Duplicate | Suppressed | IdCollision

datatype TombstoneOutcome = TombSuppressed | TombReserved | TombAlreadyFinal

type_synonym router_world = "completion_world \<times> RouterState"
type_synonym 'a router_effect = "(router_world, TinyAgentsError, 'a) effect"

definition on_store :: "'a completion_effect \<Rightarrow> 'a router_effect" where
  "on_store m = (\<lambda>(w, st). case m w of (r, w') \<Rightarrow> (r, (w', st)))"

definition on_state :: "(RouterState \<Rightarrow> RouterState) \<Rightarrow> unit router_effect" where
  "on_state f = eff_modify (\<lambda>(w, st). (w, f st))"

definition router_new :: RouterState where
  "router_new = \<lparr>rs_max_attempts = DEFAULT_MAX_ATTEMPTS, rs_leased = {}, rs_receipts = [], rs_parents = []\<rparr>"

definition with_max_attempts :: "u32 \<Rightarrow> RouterState \<Rightarrow> RouterState" where
  "with_max_attempts n st = st\<lparr>rs_max_attempts := max n 1\<rparr>"

definition attach_parent :: "string \<Rightarrow> parent_queue \<Rightarrow> RouterState \<Rightarrow> RouterState" where
  "attach_parent key queue st = st\<lparr>rs_parents := AList.update key queue (rs_parents st)\<rparr>"

definition drop_parent :: "string \<Rightarrow> RouterState \<Rightarrow> RouterState" where
  "drop_parent key st = st\<lparr>rs_parents := AList.delete key (rs_parents st)\<rparr>"

definition lease :: "CompletionRecord \<Rightarrow> RouterState \<Rightarrow> RouterState" where
  "lease r st = st\<lparr>rs_leased := insert (cr_task_id r) (rs_leased st),
     rs_receipts := (case receipt r of None \<Rightarrow> rs_receipts st | Some rc \<Rightarrow> AList.update (cr_task_id r) rc (rs_receipts st))\<rparr>"

definition unlease :: "string \<Rightarrow> RouterState \<Rightarrow> RouterState" where
  "unlease tid st = st\<lparr>rs_leased := rs_leased st - {tid}\<rparr>"

text \<open>Forgetting a receipt, if it is still the one the router holds for its task.\<close>

definition drop_receipt :: "CompletionReceipt \<Rightarrow> RouterState \<Rightarrow> RouterState" where
  "drop_receipt rc st =
     (if map_of (rs_receipts st) (rc_task_id rc) = Some rc
      then st\<lparr>rs_leased := rs_leased st - {rc_task_id rc}, rs_receipts := AList.delete (rc_task_id rc) (rs_receipts st)\<rparr>
      else st)"

section \<open>The parent gate\<close>

definition release_gate :: "string \<Rightarrow> ParentGateClaim \<Rightarrow> completion_world \<Rightarrow> completion_world" where
  "release_gate key claim w = snd (release_parent_gate key claim w)"

definition gate_drop :: "string \<Rightarrow> ParentGateClaim \<Rightarrow> completion_world \<Rightarrow> completion_world" where
  "gate_drop key claim w = lifecycle_release key (release_gate key claim w)"

definition on_error :: "'a completion_effect \<Rightarrow> (completion_world \<Rightarrow> completion_world) \<Rightarrow> 'a completion_effect" where
  "on_error m cleanup w = (case m w of (Inl e, w') \<Rightarrow> (Inl e, cleanup w') | (Inr a, w') \<Rightarrow> (Inr a, w'))"

definition acquire_native :: "string \<Rightarrow> ParentGateClaim completion_effect" where
  "acquire_native key =
     eff_bind new_uuid (\<lambda>holder.
     eff_bind (acquire_parent_gate key holder PARENT_GATE_TTL) (\<lambda>granted.
       case granted of
         None \<Rightarrow> eff_throw (Graph (''completion store: timed out waiting for parent gate '' @ key))
       | Some claim \<Rightarrow> eff_return claim))"

definition gate_acquire :: "string \<Rightarrow> ParentGateClaim completion_effect" where
  "gate_acquire key =
     eff_bind (acquire_native key) (\<lambda>claim.
     eff_then (on_error (lifecycle_acquire key) (release_gate key claim))
       (on_error
          (eff_bind (renew_parent_gate key claim PARENT_GATE_TTL) (\<lambda>renewed.
             if renewed then eff_return claim
             else eff_throw (Graph (''completion router: parent gate expired while waiting for local lifecycle ''
                    @ quoted key))))
          (gate_drop key claim)))"

definition with_parent_gate :: "string \<Rightarrow> (ParentGateClaim \<Rightarrow> 'a router_effect) \<Rightarrow> 'a router_effect" where
  "with_parent_gate key body =
     eff_bind (on_store (gate_acquire key)) (\<lambda>claim.
       eff_finally (body claim) (\<lambda>(w, st). (gate_drop key claim w, st)))"

section \<open>Parent generations\<close>

fun status_epoch :: "ParentLifecycleStatus \<Rightarrow> u64" where
  "status_epoch (Open e) = e"
| "status_epoch (StoppedParent e) = e"
| "status_epoch (DeletedParent e) = e"

fun marker_state :: "ParentLifecycleStatus \<Rightarrow> CompletionState" where
  "marker_state (Open _) = CDelivered"
| "marker_state (StoppedParent _) = CTombstoned"
| "marker_state (DeletedParent _) = CParentDeleted"

definition status_from_marker :: "CompletionState \<Rightarrow> u64 \<Rightarrow> ParentLifecycleStatus" where
  "status_from_marker s epoch =
     (case s of CDelivered \<Rightarrow> Open epoch | CParentDeleted \<Rightarrow> DeletedParent epoch | _ \<Rightarrow> StoppedParent epoch)"

definition parent_marker_id :: "string \<Rightarrow> string" where
  "parent_marker_id key = marker_prefix @ key"

definition parent_from_marker_id :: "string \<Rightarrow> string option" where
  "parent_from_marker_id tid = strip_prefix marker_prefix tid"

text \<open>The status two sources agree on: a deletion wins, otherwise the later generation.\<close>

definition merge_status ::
  "ParentLifecycleStatus option \<Rightarrow> ParentLifecycleStatus option \<Rightarrow> ParentLifecycleStatus option" where
  "merge_status marker cached =
     (case (marker, cached) of
        (Some (DeletedParent m), _) \<Rightarrow>
          Some (DeletedParent (max m (case cached of None \<Rightarrow> 0 | Some s \<Rightarrow> status_epoch s)))
      | (Some m, Some (DeletedParent e)) \<Rightarrow> Some (DeletedParent (max e (status_epoch m)))
      | (None, Some (DeletedParent e)) \<Rightarrow> Some (DeletedParent e)
      | (Some m, Some s) \<Rightarrow> Some (if status_epoch m \<ge> status_epoch s then m else s)
      | (Some m, None) \<Rightarrow> Some m
      | (None, s) \<Rightarrow> s)"

definition marker_status :: "string \<Rightarrow> completion_world \<Rightarrow> ParentLifecycleStatus option" where
  "marker_status key w =
     map_option (\<lambda>m. status_from_marker (cr_state m) (cr_parent_epoch m)) (find_record (parent_marker_id key) w)"

definition parent_lifecycle_status :: "string \<Rightarrow> ParentLifecycleStatus option completion_effect" where
  "parent_lifecycle_status key =
     eff_bind (eff_read (marker_status key)) (\<lambda>marker.
     eff_bind (eff_read cw_process_local) (\<lambda>local.
       if local
       then eff_bind (eff_read (lifecycle_status key)) (\<lambda>cached.
              let stat = merge_status marker cached in
              eff_then (case stat of None \<Rightarrow> eff_return () | Some s \<Rightarrow> lifecycle_set_status key s) (eff_return stat))
       else
         (case marker of
            Some s \<Rightarrow> eff_then (lifecycle_set_status key s) (eff_return (Some s))
          | None \<Rightarrow> eff_read (lifecycle_status key))))"

definition set_parent_marker :: "string \<Rightarrow> CompletionState \<Rightarrow> ParentGateClaim \<Rightarrow> unit completion_effect" where
  "set_parent_marker key s gate =
     eff_bind now (\<lambda>t.
     eff_bind (eff_read (find_record (parent_marker_id key))) (\<lambda>current.
     eff_bind (eff_read (lifecycle_status key)) (\<lambda>local.
     eff_bind (eff_read cw_process_local) (\<lambda>process_local.
       let from_local = map_option status_epoch local;
           from_marker = map_option cr_parent_epoch current;
           epoch = (if process_local
                    then (case from_local of Some e \<Rightarrow> Some e | None \<Rightarrow> from_marker)
                    else (case from_marker of Some e \<Rightarrow> Some e | None \<Rightarrow> from_local));
           next_epoch = (case epoch of None \<Rightarrow> 1 | Some e \<Rightarrow> sat_add e 1);
           marker = (tombstone_stub t (parent_marker_id key))
                      \<lparr>cr_parent_key := key, cr_state := s, cr_parent_epoch := next_epoch\<rparr> in
       eff_then (put_fenced marker key gate)
         (lifecycle_set_status key (status_from_marker s next_epoch))))))"

definition write_parent_marker :: "string \<Rightarrow> ParentLifecycleStatus \<Rightarrow> ParentGateClaim \<Rightarrow> unit completion_effect" where
  "write_parent_marker key stat gate =
     eff_bind now (\<lambda>t.
       put_fenced ((tombstone_stub t (parent_marker_id key))
         \<lparr>cr_parent_key := key, cr_parent_epoch := status_epoch stat, cr_state := marker_state stat\<rparr>) key gate)"

definition admit_legacy :: "string \<Rightarrow> ParentGateClaim \<Rightarrow> CompletionRecord \<Rightarrow> unit completion_effect" where
  "admit_legacy key gate legacy =
     (if cr_parent_epoch legacy = 0 then put_fenced (legacy\<lparr>cr_parent_epoch := 1\<rparr>) key gate else eff_return ())"

definition admit_child_locked :: "string \<Rightarrow> ParentGateClaim \<Rightarrow> u64 option completion_effect" where
  "admit_child_locked key gate =
     eff_bind (parent_lifecycle_status key) (\<lambda>stat.
     eff_bind (eff_read (\<lambda>w. (cw_process_local w, find_record (parent_marker_id key) w))) (\<lambda>(process_local, marker).
       case stat of
         Some (Open epoch) \<Rightarrow>
           eff_then (if \<not> process_local \<or> marker = None then write_parent_marker key (Open epoch) gate else eff_return ())
             (eff_return (Some epoch))
       | Some closed \<Rightarrow>
           eff_then
             (if \<not> process_local \<and> marker = None
              then eff_bind (eff_read (lifecycle_status key)) (\<lambda>s.
                     case s of
                       None \<Rightarrow> eff_throw (Graph ''completion router: lifecycle marker disappeared'')
                     | Some s \<Rightarrow> write_parent_marker key s gate)
              else eff_return ())
             (eff_return None)
       | None \<Rightarrow>
           eff_bind (eff_read (store_list (Some key))) (\<lambda>legacy.
           eff_then (eff_each (admit_legacy key gate) legacy)
           (eff_then (set_parent_marker key CDelivered gate)
           (eff_bind (eff_read (find_record (parent_marker_id key))) (\<lambda>marker.
              case marker of
                None \<Rightarrow> eff_throw (Graph ''completion router: parent marker disappeared after admission'')
              | Some m \<Rightarrow> eff_return (Some (cr_parent_epoch m))))))))"
section \<open>Admission and parents\<close>

definition admit_child_generation :: "string \<Rightarrow> u64 option router_effect" where
  "admit_child_generation key = with_parent_gate key (\<lambda>gate. on_store (admit_child_locked key gate))"

definition admit_child :: "string \<Rightarrow> bool router_effect" where
  "admit_child key = eff_bind (admit_child_generation key) (\<lambda>g. eff_return (g \<noteq> None))"

definition parent_generation_admitted :: "string \<Rightarrow> u64 \<Rightarrow> bool router_effect" where
  "parent_generation_admitted key epoch =
     with_parent_gate key (\<lambda>_. eff_bind (on_store (parent_lifecycle_status key)) (\<lambda>s. eff_return (s = Some (Open epoch))))"

definition withdraw :: "string \<Rightarrow> ParentGateClaim \<Rightarrow> CompletionRecord \<Rightarrow> bool router_effect" where
  "withdraw key gate r =
     (if cr_state r = CPending
      then eff_bind (on_store now) (\<lambda>t.
           eff_then (on_store (put_fenced (r\<lparr>cr_state := CTombstoned, cr_updated_at := t\<rparr>) key gate))
           (eff_then (on_state (unlease (cr_task_id r))) (eff_return True)))
      else eff_return False)"

definition close_parent :: "string \<Rightarrow> CompletionState \<Rightarrow> nat router_effect" where
  "close_parent key s =
     with_parent_gate key (\<lambda>gate.
       eff_bind (on_store (parent_lifecycle_status key)) (\<lambda>current.
         case current of
           Some (DeletedParent _) \<Rightarrow> eff_then (on_state (drop_parent key)) (eff_return 0)
         | _ \<Rightarrow>
             eff_then (on_store (set_parent_marker key s gate))
             (eff_then (on_state (drop_parent key))
             (eff_bind (on_store (eff_read (store_list (Some key)))) (\<lambda>rs.
                eff_count (withdraw key gate) rs)))))"

definition cancel_parent :: "string \<Rightarrow> nat router_effect" where
  "cancel_parent key = close_parent key CTombstoned"

definition delete_parent :: "string \<Rightarrow> nat router_effect" where
  "delete_parent key = close_parent key CParentDeleted"

definition resume_parent :: "string \<Rightarrow> unit router_effect" where
  "resume_parent key =
     eff_ignore (with_parent_gate key (\<lambda>gate.
       eff_bind (on_store (parent_lifecycle_status key)) (\<lambda>s.
         case s of
           Some (Open _) \<Rightarrow> eff_return ()
         | Some (DeletedParent _) \<Rightarrow>
             eff_throw (Graph (''completion router: deleted parent '' @ key @ '' cannot be resumed''))
         | _ \<Rightarrow> on_store (set_parent_marker key CDelivered gate))))"

fun cancel_each_parent :: "string list \<Rightarrow> nat router_effect" where
  "cancel_each_parent [] = eff_return 0"
| "cancel_each_parent (key # keys) =
     eff_bind (cancel_parent key) (\<lambda>n. eff_bind (cancel_each_parent keys) (\<lambda>m. eff_return (n + m)))"

definition open_parents :: "completion_world \<Rightarrow> RouterState \<Rightarrow> string list" where
  "open_parents w st =
     sorted_list_of_set (fst ` set (rs_parents st) \<union>
       set (List.map_filter (\<lambda>r. if cr_state r = CDelivered then parent_from_marker_id (cr_task_id r) else None)
         (store_list None w)) \<union>
       cr_parent_key ` set (filter (\<lambda>r. cr_state r = CPending) (store_list None w)))"

definition cancel_all_parents :: "nat router_effect" where
  "cancel_all_parents = (\<lambda>(w, st). cancel_each_parent (open_parents w st) (w, st))"

section \<open>Recording\<close>

definition classify_existing :: "CompletionRecord \<Rightarrow> CompletionRecord \<Rightarrow> RecordOutcome" where
  "classify_existing existing incoming =
     (if cr_state existing = CTombstoned then Suppressed
      else if cr_parent_key existing \<noteq> [] \<and> cr_parent_key existing \<noteq> cr_parent_key incoming then IdCollision
      else Duplicate)"

definition resolve :: "CompletionReceipt \<Rightarrow> ClaimResolution \<Rightarrow> CompletionRecord option router_effect" where
  "resolve rc resolution =
     with_parent_gate (rc_parent_key rc) (\<lambda>gate. on_store (store_resolve_claim rc gate resolution))"

definition release_one :: "CompletionReceipt \<Rightarrow> unit router_effect" where
  "release_one rc = eff_then (on_state (drop_receipt rc)) (eff_ignore (resolve rc ResolveRelease))"

definition release_receipts :: "CompletionReceipt list \<Rightarrow> unit router_effect" where
  "release_receipts rcs = eff_each release_one rcs"

fun lane_of_mode :: "NotifyMode \<Rightarrow> QueueLane option" where
  "lane_of_mode NotifyFollowup = Some Followup"
| "lane_of_mode NotifyCollect = Some Collect"
| "lane_of_mode HoldForNextTurn = None"
| "lane_of_mode NotifyOff = None"

definition push_message :: "QueueLane \<Rightarrow> string \<Rightarrow> string \<Rightarrow> CompletionAdmission \<Rightarrow> RouterState \<Rightarrow> RouterState" where
  "push_message lane key msg adm st =
     (case map_of (rs_parents st) key of
        None \<Rightarrow> st
      | Some q \<Rightarrow> st\<lparr>rs_parents := AList.update key (push_guarded_now lane msg adm q) (rs_parents st)\<rparr>)"

text \<open>The part after the record is stored: claim it for the live parent, if there is one, and push it.\<close>

definition push_live :: "(CompletionRecord list \<Rightarrow> string) \<Rightarrow> ParentGateClaim \<Rightarrow> CompletionRecord \<Rightarrow> RecordOutcome router_effect" where
  "push_live to_message gate r =
     eff_bind (eff_read (\<lambda>(w, st). map_of (rs_parents st) (cr_parent_key r) \<noteq> None)) (\<lambda>live.
       case lane_of_mode (cr_notify_mode r) of
         None \<Rightarrow> eff_return (Recorded None None)
       | Some lane \<Rightarrow>
           if \<not> live then eff_return (Recorded None None)
           else
             eff_bind (on_store new_uuid) (\<lambda>token.
             eff_bind (on_store now) (\<lambda>t.
             eff_bind (on_store (store_claim_task (cr_task_id r) (cr_parent_key r) (cr_parent_epoch r) gate ClaimFollowup
                        token (t + CLAIM_VISIBILITY))) (\<lambda>claimed.
               case claimed of
                 None \<Rightarrow> eff_return (Recorded None None)
               | Some r' \<Rightarrow>
                   eff_then (on_state (lease r'))
                   (eff_bind (on_store (renew_parent_gate (cr_parent_key r') gate PARENT_GATE_TTL)) (\<lambda>renewed.
                      if \<not> renewed
                      then eff_then (case receipt r' of None \<Rightarrow> eff_return () | Some rc \<Rightarrow> release_receipts [rc])
                             (eff_throw (Graph (''completion router: parent admission gate lost for '' @ quoted (cr_parent_key r'))))
                      else
                        eff_then (on_state (push_message lane (cr_parent_key r') (to_message [r'])
                                    \<lparr>ad_parent_key = cr_parent_key r', ad_parent_epoch = cr_parent_epoch r'\<rparr>))
                          (eff_return (Recorded (Some lane) (receipt r')))))))))"

definition stale_child :: "CompletionRecord \<Rightarrow> u64 \<Rightarrow> CompletionRecord option \<Rightarrow> bool" where
  "stale_child r epoch marker_before \<longleftrightarrow>
     cr_parent_epoch r \<noteq> 0 \<and> cr_parent_epoch r \<noteq> epoch \<or>
     cr_parent_epoch r = 0 \<and> (case marker_before of None \<Rightarrow> False | Some m \<Rightarrow> cr_parent_epoch m > 1)"

definition record_completion :: "(CompletionRecord list \<Rightarrow> string) \<Rightarrow> CompletionRecord \<Rightarrow> RecordOutcome router_effect" where
  "record_completion to_message r =
     with_parent_gate (cr_parent_key r) (\<lambda>gate.
       eff_bind (on_store (eff_read (find_record (parent_marker_id (cr_parent_key r))))) (\<lambda>marker_before.
       eff_bind (on_store (admit_child_locked (cr_parent_key r) gate)) (\<lambda>admitted.
         case admitted of
           None \<Rightarrow> eff_return Suppressed
         | Some epoch \<Rightarrow>
             eff_bind (on_store (eff_read (find_record (cr_task_id r)))) (\<lambda>existing.
               case existing of
                 Some x \<Rightarrow> eff_return (classify_existing x r)
               | None \<Rightarrow>
                   if stale_child r epoch marker_before then eff_return Suppressed
                   else
                     eff_bind (on_store now) (\<lambda>t.
                       let r' = r\<lparr>cr_state := CPending, cr_parent_epoch := epoch, cr_attempts := 0, cr_updated_at := t\<rparr> in
                       eff_bind (on_store (insert_if_absent r' gate)) (\<lambda>inserted.
                         if \<not> inserted
                         then eff_bind (on_store (eff_read (find_record (cr_task_id r')))) (\<lambda>again.
                                case again of
                                  None \<Rightarrow> eff_throw (Graph (''completion store: conditional create conflicted but ''
                                            @ quoted (cr_task_id r') @ '' was not readable''))
                                | Some x \<Rightarrow> eff_return (classify_existing x r'))
                         else push_live to_message gate r'))))))"

function record_retry :: "(CompletionRecord list \<Rightarrow> string) \<Rightarrow> CompletionRecord \<Rightarrow> nat \<Rightarrow> nat \<Rightarrow> RecordOutcome router_effect" where
  "record_retry to_message r attempts attempt w =
     (case record_completion to_message r w of
        (Inr outcome, w') \<Rightarrow> (Inr outcome, w')
      | (Inl e, w') \<Rightarrow> if attempt \<ge> attempts then (Inl e, w') else record_retry to_message r attempts (attempt + 1) w')"
  by pat_completeness auto
termination
  by (relation "measure (\<lambda>(_, _, attempts, attempt, _). attempts - attempt)") auto

declare record_retry.simps [simp del]

definition record_with_retries :: "(CompletionRecord list \<Rightarrow> string) \<Rightarrow> CompletionRecord \<Rightarrow> u32 \<Rightarrow> RecordOutcome router_effect" where
  "record_with_retries to_message r attempts = record_retry to_message r (unat (max attempts 1)) 1"

definition tombstone :: "string \<Rightarrow> TombstoneOutcome router_effect" where
  "tombstone tid =
     eff_bind (on_store (eff_read (find_record tid))) (\<lambda>found.
       case found of
         Some existing \<Rightarrow>
           if cr_state existing = CPending
           then with_parent_gate (cr_parent_key existing) (\<lambda>gate.
                  eff_bind (on_store now) (\<lambda>t.
                  eff_then (on_store (put_fenced (existing\<lparr>cr_state := CTombstoned, cr_updated_at := t\<rparr>) (cr_parent_key existing) gate))
                  (eff_then (on_state (unlease tid)) (eff_return TombSuppressed))))
           else eff_return TombAlreadyFinal
       | None \<Rightarrow>
           with_parent_gate (''completion-task:'' @ tid) (\<lambda>gate.
             eff_bind (on_store now) (\<lambda>t.
             eff_then (on_store (put_fenced (tombstone_stub t tid) (''completion-task:'' @ tid) gate))
               (eff_return TombReserved))))"

section \<open>Claiming and settling\<close>

fun lease_all :: "CompletionRecord list \<Rightarrow> RouterState \<Rightarrow> RouterState" where
  "lease_all [] st = st"
| "lease_all (r # rs) st = lease_all rs (lease r st)"

definition router_claim :: "string \<Rightarrow> nat option \<Rightarrow> CompletionClaimMode \<Rightarrow> CompletionRecord list router_effect" where
  "router_claim key limit mode =
     with_parent_gate key (\<lambda>gate.
       eff_bind (on_store (admit_child_locked key gate)) (\<lambda>admitted.
         case admitted of
           None \<Rightarrow> eff_return []
         | Some epoch \<Rightarrow>
             eff_bind (on_store new_uuid) (\<lambda>token.
             eff_bind (on_store now) (\<lambda>t.
             eff_bind (on_store (store_claim_pending key epoch gate mode limit token (t + CLAIM_VISIBILITY))) (\<lambda>found.
               let candidates = oldest_first found in
               eff_then (on_state (lease_all candidates)) (eff_return candidates))))))"

definition claim_pending :: "string \<Rightarrow> nat \<Rightarrow> CompletionRecord list router_effect" where
  "claim_pending key n = router_claim key (Some n) ClaimFollowup"

definition begin_turn :: "string \<Rightarrow> CompletionRecord list router_effect" where
  "begin_turn key = router_claim key None ClaimHold"

definition pull :: "string \<Rightarrow> nat \<Rightarrow> CompletionRecord list router_effect" where
  "pull key n = router_claim key (Some n) ClaimPull"

definition deliver_one :: "CompletionReceipt \<Rightarrow> bool router_effect" where
  "deliver_one rc =
     eff_bind (resolve rc ResolveDelivered) (\<lambda>resolved.
     eff_then (on_state (drop_receipt rc)) (eff_return (resolved \<noteq> None)))"

definition mark_delivered :: "CompletionReceipt list \<Rightarrow> nat router_effect" where
  "mark_delivered rcs = eff_count deliver_one rcs"

text \<open>One receipt of \<open>mark_failed\<close>: an error of the store is logged and dropped.\<close>

definition fail_one :: "CompletionReceipt \<Rightarrow> CompletionRecord option router_effect" where
  "fail_one rc = (\<lambda>(w, st).
     case resolve rc (ResolveFailed (rs_max_attempts st)) (w, st) of
       (resolved, (w', st')) \<Rightarrow>
         (Inr (case resolved of
                 Inr (Some r) \<Rightarrow> if cr_state r = CGaveUp then Some r else None
               | _ \<Rightarrow> None),
          (w', drop_receipt rc st')))"

fun mark_failed :: "CompletionReceipt list \<Rightarrow> CompletionRecord list router_effect" where
  "mark_failed [] = eff_return []"
| "mark_failed (rc # rcs) =
     eff_bind (fail_one rc) (\<lambda>gave_up.
     eff_bind (mark_failed rcs) (\<lambda>rest.
       eff_return (case gave_up of None \<Rightarrow> rest | Some r \<Rightarrow> r # rest)))"

definition release_counted :: "CompletionReceipt \<Rightarrow> bool router_effect" where
  "release_counted rc =
     eff_bind (resolve rc ResolveRelease) (\<lambda>resolved.
     eff_then (on_state (drop_receipt rc)) (eff_return (resolved \<noteq> None)))"

definition release_all :: "nat router_effect" where
  "release_all = (\<lambda>(w, st). eff_count release_counted (map snd (rs_receipts st)) (w, st))"

definition release_record :: "string \<Rightarrow> ParentGateClaim \<Rightarrow> CompletionRecord \<Rightarrow> unit router_effect" where
  "release_record key gate r = (\<lambda>(w, st).
     let st1 = st\<lparr>rs_leased := rs_leased st - {cr_task_id r}, rs_receipts := AList.delete (cr_task_id r) (rs_receipts st)\<rparr> in
     case map_of (rs_receipts st) (cr_task_id r) of
       None \<Rightarrow> (Inr (), (w, st1))
     | Some rc \<Rightarrow>
         eff_ignore (on_store (store_resolve_claim
           \<lparr>rc_task_id = cr_task_id r, rc_parent_key = key, rc_parent_epoch = rc_parent_epoch rc, rc_token = rc_token rc\<rparr>
           gate ResolveRelease)) (w, st1))"

definition detach_parent :: "string \<Rightarrow> unit router_effect" where
  "detach_parent key =
     eff_then (on_state (drop_parent key))
       (eff_ignore (with_parent_gate key (\<lambda>gate.
          eff_bind (on_store (eff_read (store_list (Some key)))) (\<lambda>rs. eff_each (release_record key gate) rs))))"

definition in_flight_for :: "string \<Rightarrow> router_world \<Rightarrow> CompletionRecord list" where
  "in_flight_for key = (\<lambda>(w, st).
     oldest_first (filter (\<lambda>r. cr_state r = CPending \<and> cr_task_id r \<in> rs_leased st) (store_list (Some key) w)))"

definition pending_for :: "string \<Rightarrow> router_world \<Rightarrow> CompletionRecord list" where
  "pending_for key = (\<lambda>(w, st). oldest_first (filter (\<lambda>r. cr_state r = CPending) (store_list (Some key) w)))"

definition parents_with_pending :: "router_world \<Rightarrow> string list" where
  "parents_with_pending = (\<lambda>(w, st).
     sorted_list_of_set (cr_parent_key ` set (filter (\<lambda>r. cr_state r = CPending) (store_list None w))))"

definition router_compact :: "nat \<Rightarrow> nat router_effect" where
  "router_compact retain = on_store (store_compact retain)"

section \<open>Queue admission\<close>

definition permit_acquire :: "string \<Rightarrow> u64 \<Rightarrow> ParentGateClaim option completion_effect" where
  "permit_acquire key epoch =
     eff_bind (gate_acquire key) (\<lambda>claim.
     eff_bind (on_error (parent_lifecycle_status key) (gate_drop key claim)) (\<lambda>s.
       if s = Some (Open epoch) then eff_return (Some claim)
       else eff_then (eff_modify (gate_drop key claim)) (eff_return None)))"

text \<open>The admission capability of a queued completion, as the queue of theory \<open>RunQueue\<close> asks for it.\<close>

definition completion_admission ::
  "(string \<Rightarrow> u64 \<Rightarrow> string) \<Rightarrow> (CompletionAdmission, ParentGateClaim, completion_world) admission_port" where
  "completion_admission key_text =
     \<lparr>batch_key = (\<lambda>adm w. Some (key_text (ad_parent_key adm) (ad_parent_epoch adm))),
      acquire_for = (\<lambda>adm expected w.
        if expected \<noteq> None \<and> expected \<noteq> Some (key_text (ad_parent_key adm) (ad_parent_epoch adm)) then (Inl Retry, w)
        else
          (case permit_acquire (ad_parent_key adm) (ad_parent_epoch adm) w of
             (Inr (Some claim), w') \<Rightarrow> (Inr claim, w')
           | (_, w') \<Rightarrow> (Inl Rejected, w')))\<rparr>"
section \<open>Steps that leave the records and the generations alone\<close>

text \<open>The generation a parent is in, as \<open>parent_lifecycle_status\<close> finds it.\<close>

definition eff_status :: "string \<Rightarrow> completion_world \<Rightarrow> ParentLifecycleStatus option" where
  "eff_status key w =
     (if cw_process_local w then merge_status (marker_status key w) (lifecycle_status key w)
      else case marker_status key w of Some s \<Rightarrow> Some s | None \<Rightarrow> lifecycle_status key w)"

definition calm :: "completion_world \<Rightarrow> completion_world \<Rightarrow> bool" where
  "calm w w' \<longleftrightarrow> cw_records w' = cw_records w \<and> cw_process_local w' = cw_process_local w \<and>
     (\<forall>key. eff_status key w' = eff_status key w)"

lemma calmI:
  "cw_records w' = cw_records w \<Longrightarrow> cw_process_local w' = cw_process_local w \<Longrightarrow>
    (\<And>key. lifecycle_status key w' = lifecycle_status key w) \<Longrightarrow> calm w w'"
  by (auto simp: calm_def eff_status_def marker_status_def find_record_def split: option.splits)

interpretation cal: world_relation calm
  by unfold_locales (simp_all add: calm_def)

lemma calm_now: "follows calm now" "follows calm new_uuid"
  by (rule followsI; auto simp: now_def new_uuid_def lifecycle_status_def intro!: calmI)+

lemma lifecycle_status_store:
  "lifecycle_status k (store_lifecycle key e w) = (if k = key then le_status e else lifecycle_status k w)"
  by (simp add: lifecycle_status_def store_lifecycle_def update_conv')

lemma store_lifecycle_frame [simp]:
  "cw_records (store_lifecycle key e w) = cw_records w"
  "cw_process_local (store_lifecycle key e w) = cw_process_local w"
  by (simp_all add: store_lifecycle_def)

lemma lifecycle_entry_status [simp]: "le_status (lifecycle_entry key w) = lifecycle_status key w"
  by (simp add: lifecycle_entry_def lifecycle_status_def split: option.split)

lemma calm_lifecycle_acquire: "follows calm (lifecycle_acquire key)"
  by (rule followsI)
    (auto simp: lifecycle_acquire_def Let_def lifecycle_status_store intro!: calmI split: if_splits)

lemma calm_lifecycle_release: "calm w (lifecycle_release key w)"
proof (cases "map_of (cw_lifecycle w) key")
  case (Some e)
  then have "le_status e = lifecycle_status key w" by (simp add: lifecycle_status_def)
  with Some show ?thesis by (auto simp: lifecycle_release_def lifecycle_status_store intro!: calmI)
qed (simp add: lifecycle_release_def cal.R_refl)

lemma calm_gates:
  "follows calm (acquire_parent_gate key holder ttl)" "follows calm (renew_parent_gate key claim ttl)"
  "follows calm (release_parent_gate key claim)"
proof -
  have now: "calm w w' \<Longrightarrow> m w' = (r, w'') \<Longrightarrow> calm w' w'' \<Longrightarrow> calm w w''" for w w' w'' r and m :: "'a completion_effect"
    using cal.R_trans by blast
  have gates: "calm w (w\<lparr>cw_gates := g\<rparr>)" "calm w (w\<lparr>cw_epochs := e, cw_gates := g\<rparr>)" for w g e
    by (auto intro!: calmI simp: lifecycle_status_def)
  show "follows calm (acquire_parent_gate key holder ttl)"
    unfolding acquire_parent_gate_def
    by (intro cal.res_bind calm_now followsI) (auto simp: Let_def cal.R_refl gates split: option.splits)
  show "follows calm (renew_parent_gate key claim ttl)"
    unfolding renew_parent_gate_def
    by (intro cal.res_bind calm_now followsI) (auto simp: cal.R_refl gates split: option.splits if_splits)
  have drop: "follows calm (eff_bind now (\<lambda>t w.
      if t < mg_expires_at gate then (Inr True, w\<lparr>cw_gates := AList.delete key (cw_gates w)\<rparr>) else (Inr False, w)))" for gate
    by (intro cal.res_bind calm_now followsI) (auto simp: cal.R_refl gates split: if_splits)
  show "follows calm (release_parent_gate key claim)"
    by (rule followsI)
      (auto simp: release_parent_gate_def cal.R_refl split: option.splits if_splits intro: followsD [OF drop])
qed

lemma calm_release_gate: "calm w (release_gate key claim w)"
  using calm_gates(3) by (simp add: release_gate_def follows_def)

lemma calm_gate_drop: "calm w (gate_drop key claim w)"
  unfolding gate_drop_def using calm_release_gate calm_lifecycle_release cal.R_trans by blast

lemma calm_on_error: "follows calm m \<Longrightarrow> (\<And>w. calm w (f w)) \<Longrightarrow> follows calm (on_error m f)"
  unfolding follows_def on_error_def by (auto split: prod.splits sum.splits) (metis cal.R_trans snd_conv)+

lemma calm_gate_acquire: "follows calm (gate_acquire key)"
  unfolding gate_acquire_def acquire_native_def
  by (intro cal.res_bind cal.res_then calm_now calm_gates calm_on_error calm_lifecycle_acquire calm_release_gate calm_gate_drop
      cal.res_option cal.res_if cal.res_basic)

lemma calm_with_current_gate: "follows calm m \<Longrightarrow> follows calm (with_current_gate key claim m)"
  unfolding with_current_gate_def by (intro cal.res_bind calm_now cal.res_if cal.res_basic)

lemma merge_status_idem: "merge_status m (merge_status m c) = merge_status m c"
  by (cases m; cases c) (auto simp: merge_status_def max_def split: ParentLifecycleStatus.splits)

lemma lifecycle_set_status_effect:
  assumes "lifecycle_set_status key s w = (r, w')"
  shows "cw_records w' = cw_records w \<and> cw_process_local w' = cw_process_local w \<and>
    lifecycle_status k w' = (if k = key \<and> r = Inr () then Some s else lifecycle_status k w)"
  using assms by (auto simp: lifecycle_set_status_def Let_def lifecycle_status_store split: if_splits)

lemma parent_lifecycle_status_result:
  assumes "parent_lifecycle_status key w = (r, w')"
  shows "calm w w' \<and> (\<forall>s. r = Inr s \<longrightarrow> s = eff_status key w)"
proof -
  have set: "calm w w1 \<and> eff_status key w = Some s"
    if "lifecycle_set_status key s w = (x, w1)"
      "s = (case marker_status key w of Some m \<Rightarrow> m | None \<Rightarrow> s)" "\<not> cw_process_local w" "marker_status key w \<noteq> None" for s x w1
    using lifecycle_set_status_effect [OF that(1)] that(2-4)
    by (auto simp: calm_def eff_status_def marker_status_def find_record_def split: option.splits)
  have set': "calm w w1"
    if "lifecycle_set_status key s w = (x, w1)" "Some s = merge_status (marker_status key w) (lifecycle_status key w)"
      "cw_process_local w" for s x w1
    using lifecycle_set_status_effect [OF that(1)] that(2,3)
      merge_status_idem [of "marker_status key w" "lifecycle_status key w"]
    by (auto simp: calm_def eff_status_def marker_status_def find_record_def)
  show ?thesis
  proof (cases "cw_process_local w")
    case True
    then show ?thesis
    proof (cases "merge_status (marker_status key w) (lifecycle_status key w)")
      case None
      then show ?thesis
        using assms True
        by (auto simp: parent_lifecycle_status_def Let_def cal.R_refl eff_status_def)
    next
      case (Some s)
      obtain x w1 where l: "lifecycle_set_status key s w = (x, w1)" by fastforce
      then show ?thesis
        using assms True Some set' [OF l] by (cases x) (auto simp: parent_lifecycle_status_def Let_def eff_status_def)
    qed
  next
    case False
    then show ?thesis
    proof (cases "marker_status key w")
      case None
      then show ?thesis
        using assms False by (auto simp: parent_lifecycle_status_def cal.R_refl eff_status_def)
    next
      case (Some s)
      obtain x w1 where l: "lifecycle_set_status key s w = (x, w1)" by fastforce
      then show ?thesis
        using assms False Some set [OF l] by (cases x) (auto simp: parent_lifecycle_status_def eff_status_def)
    qed
  qed
qed

lemma calm_parent_lifecycle_status: "follows calm (parent_lifecycle_status key)"
  by (rule followsI) (use parent_lifecycle_status_result in blast)

text \<open>A fenced write fails and leaves everything, or writes exactly one record.\<close>

lemma put_fenced_cases:
  assumes "put_fenced r key gate w = (x, w')"
  shows "(\<exists>e. x = Inl e \<and> calm w w') \<or>
    x = Inr () \<and> (\<exists>w1. calm w w1 \<and> w' = insert_record (stamp_epoch w1 r) w1)"
proof -
  have n: "\<exists>t u. now v = (Inr t, u) \<and> calm v u" for v
    using calm_now(1) by (simp add: now_def follows_def)
  obtain t u where u: "now w = (Inr t, u)" "calm w u" using n by blast
  obtain t' v where v: "now u = (Inr t', v)" "calm u v" using n by blast
  show ?thesis
    using assms u v cal.R_trans [OF u(2) v(2)]
    by (auto simp: put_fenced_def with_current_gate_def split: if_splits)
qed
section \<open>What every router operation keeps\<close>

abbreviation is_marker :: "string \<Rightarrow> bool" where "is_marker tid \<equiv> prefix marker_prefix tid"

definition keyed :: "completion_world \<Rightarrow> bool" where
  "keyed w \<longleftrightarrow> distinct (map fst (cw_records w)) \<and>
     (\<forall>tid r. find_record tid w = Some r \<longrightarrow> cr_task_id r = tid \<and>
        (is_marker tid \<longrightarrow> tid = parent_marker_id (cr_parent_key r) \<and> cr_state r \<noteq> CPending))"

definition deleted :: "string \<Rightarrow> completion_world \<Rightarrow> bool" where
  "deleted key w \<longleftrightarrow> (\<exists>e. eff_status key w = Some (DeletedParent e))"

text \<open>A deleted parent stays deleted.\<close>

definition deletions_kept :: "completion_world \<Rightarrow> completion_world \<Rightarrow> bool" where
  "deletions_kept w w' \<longleftrightarrow> (keyed w \<longrightarrow> keyed w' \<and> (\<forall>key. deleted key w \<longrightarrow> deleted key w'))"

text \<open>A settled record stays as it is, but for the generation a legacy record is stamped with.\<close>

definition settled_kept :: "completion_world \<Rightarrow> completion_world \<Rightarrow> bool" where
  "settled_kept w w' \<longleftrightarrow> (keyed w \<longrightarrow> keyed w' \<and>
     (\<forall>tid r. find_record tid w = Some r \<longrightarrow> cr_state r \<noteq> CPending \<longrightarrow> \<not> is_marker tid \<longrightarrow>
        (\<exists>e. find_record tid w' = Some (r\<lparr>cr_parent_epoch := e\<rparr>))))"

definition evolves :: "completion_world \<Rightarrow> completion_world \<Rightarrow> bool" where
  "evolves w w' \<longleftrightarrow> deletions_kept w w' \<and> settled_kept w w'"

lemma stamped_self: "\<exists>e. x = x\<lparr>cr_parent_epoch := e\<rparr>" for x :: CompletionRecord
  by (rule exI [of _ "cr_parent_epoch x"]) simp

lemma settled_kept_refl: "settled_kept w w"
  unfolding settled_kept_def using stamped_self by metis

lemma settled_kept_trans:
  assumes "settled_kept u v" "settled_kept v w"
  shows "settled_kept u w"
proof -
  have step: "\<exists>e. find_record tid w = Some (r\<lparr>cr_parent_epoch := e\<rparr>)"
    if r: "keyed u" "find_record tid u = Some r" "cr_state r \<noteq> CPending" "\<not> is_marker tid" for tid r
  proof -
    obtain e where e: "find_record tid v = Some (r\<lparr>cr_parent_epoch := e\<rparr>)"
      using assms(1) r unfolding settled_kept_def by blast
    have "keyed v" using assms(1) r(1) unfolding settled_kept_def by blast
    moreover have "cr_state (r\<lparr>cr_parent_epoch := e\<rparr>) \<noteq> CPending" using r(3) by simp
    ultimately obtain e' where "find_record tid w = Some (r\<lparr>cr_parent_epoch := e\<rparr>\<lparr>cr_parent_epoch := e'\<rparr>)"
      using assms(2) e r(4) unfolding settled_kept_def by blast
    then show ?thesis by auto
  qed
  show ?thesis using assms step unfolding settled_kept_def by blast
qed

interpretation evo: world_relation evolves
  by unfold_locales
    (auto simp: evolves_def settled_kept_refl deletions_kept_def intro: settled_kept_trans)

interpretation evr: world_relation "\<lambda>x y. evolves (fst x) (fst y)"
  using evo.R_refl evo.R_trans by unfold_locales blast+

lemma keyed_calm: "calm w w' \<Longrightarrow> keyed w' = keyed w"
  by (simp add: keyed_def calm_def find_record_def)

lemma calm_find: "calm w w' \<Longrightarrow> find_record tid w' = find_record tid w"
  by (simp add: calm_def find_record_def)

lemma calm_evolves: "calm w w' \<Longrightarrow> evolves w w'"
proof -
  assume c: "calm w w'"
  have "deletions_kept w w'" using c by (simp add: deletions_kept_def deleted_def calm_def keyed_def find_record_def)
  moreover have "settled_kept w w'"
    using settled_kept_refl [of w] c unfolding settled_kept_def by (simp add: keyed_calm calm_find)
  ultimately show ?thesis by (simp add: evolves_def)
qed

lemma calm_follows: "follows calm m \<Longrightarrow> follows evolves m"
  unfolding follows_def using calm_evolves by blast

text \<open>Writing one record.\<close>

lemma find_insert: "find_record tid (insert_record r w) = (if tid = cr_task_id r then Some r else find_record tid w)"
  by (simp add: insert_record_def find_record_def update_conv')

lemma insert_record_frame [simp]:
  "cw_process_local (insert_record r w) = cw_process_local w" "lifecycle_status key (insert_record r w) = lifecycle_status key w"
  by (simp_all add: insert_record_def lifecycle_status_def)

lemma marker_write: "cr_task_id r \<noteq> parent_marker_id key \<Longrightarrow> marker_status key (insert_record r w) = marker_status key w"
  by (simp add: marker_status_def find_insert)

lemma status_write:
  "cr_task_id r \<noteq> parent_marker_id key \<Longrightarrow> eff_status key (insert_record r w) = eff_status key w"
  by (simp add: eff_status_def marker_write split: option.split)

lemma parent_marker_id_marker [simp]: "is_marker (parent_marker_id key)"
  by (simp add: parent_marker_id_def)

lemma parent_marker_id_inj [simp]: "parent_marker_id k = parent_marker_id k' \<longleftrightarrow> k = k'"
  by (simp add: parent_marker_id_def)

lemma keyed_write:
  assumes "keyed w" "is_marker (cr_task_id r) \<Longrightarrow> cr_task_id r = parent_marker_id (cr_parent_key r) \<and> cr_state r \<noteq> CPending"
  shows "keyed (insert_record r w)"
  using assms by (simp add: keyed_def find_insert) (simp add: insert_record_def distinct_update)

lemma write_evolves:
  assumes "\<not> is_marker (cr_task_id r)"
    and "\<And>x. find_record (cr_task_id r) w = Some x \<Longrightarrow> cr_state x = CPending \<or> (\<exists>e. r = x\<lparr>cr_parent_epoch := e\<rparr>)"
  shows "evolves w (insert_record r w)"
proof -
  have ne: "cr_task_id r \<noteq> parent_marker_id key" for key using assms(1) by auto
  have k: "keyed w \<Longrightarrow> keyed (insert_record r w)" using assms(1) by (simp add: keyed_write)
  have "\<exists>e. find_record tid (insert_record r w) = Some (x\<lparr>cr_parent_epoch := e\<rparr>)"
    if x: "find_record tid w = Some x" "cr_state x \<noteq> CPending" for tid x
  proof (cases "tid = cr_task_id r")
    case True
    then show ?thesis using assms(2) x by (auto simp: find_insert)
  next
    case False
    then show ?thesis using x stamped_self [of x] by (simp add: find_insert)
  qed
  then have "settled_kept w (insert_record r w)" unfolding settled_kept_def using k by blast
  moreover have "deletions_kept w (insert_record r w)"
    unfolding deletions_kept_def deleted_def using k by (simp add: status_write ne)
  ultimately show ?thesis by (simp add: evolves_def)
qed

lemma write_marker_evolves:
  assumes "cr_task_id r = parent_marker_id (cr_parent_key r)" "cr_state r \<noteq> CPending"
    and "deleted (cr_parent_key r) w \<Longrightarrow> deleted (cr_parent_key r) (insert_record r w)"
  shows "evolves w (insert_record r w)"
proof -
  have k: "keyed w \<Longrightarrow> keyed (insert_record r w)" using assms(1,2) by (simp add: keyed_write)
  have "\<exists>e. find_record tid (insert_record r w) = Some (x\<lparr>cr_parent_epoch := e\<rparr>)"
    if x: "find_record tid w = Some x" "\<not> is_marker tid" for tid x
  proof -
    have "tid \<noteq> cr_task_id r" using x(2) assms(1) by auto
    then show ?thesis using x stamped_self [of x] by (simp add: find_insert)
  qed
  then have "settled_kept w (insert_record r w)" unfolding settled_kept_def using k by blast
  moreover have "deleted key (insert_record r w)" if "deleted key w" for key
    using assms(1,3) that by (cases "key = cr_parent_key r") (auto simp: deleted_def status_write)
  ultimately show ?thesis using k by (simp add: evolves_def deletions_kept_def)
qed
lemma gate_at:
  assumes "\<And>v. calm w v \<Longrightarrow> evolves v (snd (m v))"
  shows "evolves w (snd (with_current_gate key gate m w))"
proof -
  have n: "\<exists>t u. now v = (Inr t, u) \<and> calm v u" for v
    using calm_now(1) by (simp add: now_def follows_def)
  obtain t u where u: "now w = (Inr t, u)" "calm w u" using n by blast
  obtain t' v where v: "now u = (Inr t', v)" "calm u v" using n by blast
  have c: "calm w v" using cal.R_trans u v by blast
  have e: "evolves w u" "evolves w v" "evolves w (snd (m v))"
    using u c calm_evolves evo.R_trans assms [OF c] by blast+
  show ?thesis using u v e by (auto simp: with_current_gate_def split: if_splits)
qed

lemma at_now:
  assumes "\<And>t v. calm w v \<Longrightarrow> evolves v (snd (f t v))"
  shows "evolves w (snd (eff_bind now f w))"
proof (rule evo.at_bind)
  show "evolves w (snd (now w))" using calm_follows [OF calm_now(1)] by (simp add: follows_def)
  show "evolves v (snd (f t v))" if "now w = (Inr t, v)" for t v
    using assms followsD [OF calm_now(1) that] by blast
qed

lemma stamp_cases: "\<exists>e. stamp_epoch w r = r\<lparr>cr_parent_epoch := e\<rparr>"
  using stamped_self [of r] unfolding stamp_epoch_def by (auto split: option.splits)

lemma stamp_fields [simp]:
  "cr_task_id (stamp_epoch w r) = cr_task_id r" "cr_parent_key (stamp_epoch w r) = cr_parent_key r"
  "cr_state (stamp_epoch w r) = cr_state r"
  using stamp_cases [of w r] by auto

lemma put_fenced_at:
  assumes "\<And>v. calm w v \<Longrightarrow> evolves v (insert_record (stamp_epoch v r) v)"
  shows "evolves w (snd (put_fenced r key gate w))"
  unfolding put_fenced_def by (rule gate_at) (simp add: assms)

lemma put_fenced_evolves:
  assumes "\<not> is_marker (cr_task_id r)"
    and "\<And>x. find_record (cr_task_id r) w = Some x \<Longrightarrow> cr_state x = CPending \<or> (\<exists>e. r = x\<lparr>cr_parent_epoch := e\<rparr>)"
  shows "evolves w (snd (put_fenced r key gate w))"
proof (rule put_fenced_at, rule write_evolves)
  fix v assume c: "calm w v"
  show "\<not> is_marker (cr_task_id (stamp_epoch v r))" using assms(1) by simp
  show "cr_state x = CPending \<or> (\<exists>e. stamp_epoch v r = x\<lparr>cr_parent_epoch := e\<rparr>)"
    if "find_record (cr_task_id (stamp_epoch v r)) v = Some x" for x
    using assms(2) [of x] that stamp_cases [of v r] by (auto simp: calm_find [OF c])
qed

lemma keyed_pending: "keyed w \<Longrightarrow> find_record tid w = Some r \<Longrightarrow> cr_state r = CPending \<Longrightarrow> \<not> is_marker tid \<and> cr_task_id r = tid"
  by (auto simp: keyed_def)

lemma evolves_if_keyed: "(keyed w \<Longrightarrow> evolves w w') \<Longrightarrow> evolves w w'"
  by (auto simp: evolves_def deletions_kept_def settled_kept_def)

lemma update_is_insert: "cr_task_id r = tid \<Longrightarrow> w\<lparr>cw_records := AList.update tid r (cw_records w)\<rparr> = insert_record r w"
  by (auto simp: insert_record_def)

lemma pending_update_evolves:
  assumes "find_record tid w = Some r" "cr_state r = CPending" "cr_task_id r' = cr_task_id r"
  shows "evolves w (w\<lparr>cw_records := AList.update tid r' (cw_records w)\<rparr>)"
proof (rule evolves_if_keyed)
  assume k: "keyed w"
  then have "cr_task_id r' = tid" "\<not> is_marker tid" using assms keyed_pending by auto
  then show "evolves w (w\<lparr>cw_records := AList.update tid r' (cw_records w)\<rparr>)"
    using assms(1,2) write_evolves [of r' w] by (simp add: update_is_insert)
qed

lemma store_claim_task_evolves: "follows evolves (store_claim_task tid key epoch gate mode token vis)"
  unfolding follows_def store_claim_task_def
  by (intro allI gate_at at_now)
    (auto simp: Let_def claimable_def evo.R_refl intro!: pending_update_evolves split: option.splits)

lemma store_resolve_claim_evolves: "follows evolves (store_resolve_claim rc gate res)"
proof -
  have "evolves v (snd (eff_bind now (\<lambda>t.
      if cr_parent_key r \<noteq> rc_parent_key rc \<or> cr_parent_epoch r \<noteq> rc_parent_epoch rc
         \<or> cr_state r \<noteq> CPending \<or> \<not> owns_claim (rc_token rc) t r
      then eff_return None
      else eff_bind now (\<lambda>t.
        let r' = r\<lparr>cr_updated_at := t, cr_claim := None, cr_state := resolved_state res r\<rparr> in
        eff_then (eff_modify (\<lambda>w. w\<lparr>cw_records := AList.update (rc_task_id rc) r' (cw_records w)\<rparr>))
          (eff_return (Some r')))) v))" if r: "find_record (rc_task_id rc) v = Some r" for v r
    by (rule at_now)
      (auto simp: evo.R_refl Let_def calm_find r intro!: at_now pending_update_evolves)
  then show ?thesis
    unfolding follows_def store_resolve_claim_def
    by (intro allI gate_at) (auto simp: evo.R_refl split: option.splits)
qed

lemma insert_if_absent_evolves: "\<not> is_marker (cr_task_id r) \<Longrightarrow> follows evolves (insert_if_absent r gate)"
  unfolding follows_def insert_if_absent_def
  by (intro allI gate_at evo.at_bind evo.at_then) (auto simp: evo.R_refl intro!: write_evolves evo.at_then)

text \<open>Loops over records that are still as they were read.\<close>

definition current :: "CompletionRecord list \<Rightarrow> completion_world \<Rightarrow> bool" where
  "current rs w \<longleftrightarrow> distinct (map cr_task_id rs) \<and> (\<forall>r \<in> set rs. find_record (cr_task_id r) w = Some r)"

lemma current_calm: "calm w w' \<Longrightarrow> current rs w' = current rs w"
  by (simp add: current_def calm_find)

lemma current_insert:
  assumes "current (r # rs) w" "cr_task_id r' = cr_task_id r"
  shows "current rs (insert_record r' w)"
proof -
  have d: "cr_task_id r \<notin> cr_task_id ` set rs" "distinct (map cr_task_id rs)"
    and f: "\<And>x. x \<in> set rs \<Longrightarrow> find_record (cr_task_id x) w = Some x"
    using assms(1) unfolding current_def by auto
  have "find_record (cr_task_id x) (insert_record r' w) = Some x" if x: "x \<in> set rs" for x
  proof -
    have "cr_task_id x \<noteq> cr_task_id r'" using d(1) x assms(2) by (metis image_eqI)
    then show ?thesis using f [OF x] by (simp add: find_insert)
  qed
  then show ?thesis using d(2) unfolding current_def by blast
qed

lemma current_tl: "current (r # rs) w \<Longrightarrow> current rs w"
  by (simp add: current_def)

lemma current_hd: "current (r # rs) w \<Longrightarrow> find_record (cr_task_id r) w = Some r"
  by (simp add: current_def)

lemma current_all:
  assumes "keyed w"
  shows "current (map snd (cw_records w)) w"
proof -
  have d: "distinct (map fst (cw_records w))"
    and k: "\<And>tid r. map_of (cw_records w) tid = Some r \<Longrightarrow> cr_task_id r = tid"
    using assms by (auto simp only: keyed_def find_record_def)
  have m: "cr_task_id (snd p) = fst p" "map_of (cw_records w) (fst p) = Some (snd p)" if "p \<in> set (cw_records w)" for p
    using that d k [of "fst p" "snd p"] by simp_all
  have "map cr_task_id (map snd (cw_records w)) = map fst (cw_records w)"
    unfolding map_map by (rule map_cong [OF refl]) (simp add: m(1))
  then have "distinct (map cr_task_id (map snd (cw_records w)))" using d by argo
  moreover have "map_of (cw_records w) (cr_task_id r) = Some r" if "r \<in> set (map snd (cw_records w))" for r
    using that m by fastforce
  ultimately show ?thesis unfolding current_def find_record_def by blast
qed

lemma current_filter: "current rs w \<Longrightarrow> current (filter P rs) w"
  by (auto simp: current_def distinct_map_filter)

lemma current_store_list: "keyed w \<Longrightarrow> current (store_list key w) w"
  unfolding store_list_def by (intro current_filter current_all)

lemma current_take: "current rs w \<Longrightarrow> current (take n rs) w"
  by (auto simp: current_def take_map [symmetric] dest: in_set_takeD)

lemma current_oldest_first: "current rs w \<Longrightarrow> current (oldest_first rs) w"
proof -
  assume "current rs w"
  then have "inj_on cr_task_id (set rs)" "distinct rs" by (auto simp: current_def distinct_map)
  then show ?thesis using \<open>current rs w\<close> by (simp add: current_def oldest_first_def distinct_map)
qed

lemma claim_each_evolves:
  "current rs w \<Longrightarrow> (\<forall>r \<in> set rs. cr_state r = CPending) \<Longrightarrow> evolves w (snd (claim_each token vis t rs w))"
proof (induction rs arbitrary: w)
  case (Cons r rs)
  let ?r = "claimed_by token vis t r"
  let ?w = "insert_record ?r w"
  have f: "find_record (cr_task_id r) w = Some r" using Cons.prems by (simp add: current_hd)
  have id: "cr_task_id ?r = cr_task_id r" by (simp add: claimed_by_def)
  have u: "w\<lparr>cw_records := AList.update (cr_task_id r) ?r (cw_records w)\<rparr> = ?w" using id by (simp add: update_is_insert)
  have e: "evolves w ?w" using pending_update_evolves [OF f _ id] Cons.prems(2) u by simp
  have e': "evolves ?w (snd (claim_each token vis t rs ?w))"
    using Cons.IH [of ?w] Cons.prems current_insert [OF Cons.prems(1) id] by simp
  have "evolves w (snd (eff_then (eff_modify (\<lambda>w. w\<lparr>cw_records := AList.update (cr_task_id r) ?r (cw_records w)\<rparr>))
      (eff_bind (claim_each token vis t rs) (\<lambda>rs. eff_return (?r # rs))) w))"
    by (rule evo.at_then, simp add: u e, rule evo.at_bind) (auto simp: u e' evo.R_refl)
  then show ?case using f by (simp add: Let_def)
qed (simp add: evo.R_refl)

lemma store_claim_pending_evolves: "follows evolves (store_claim_pending key epoch gate mode limit token vis)"
proof -
  have "evolves v (snd (eff_bind now (\<lambda>t.
     eff_bind (eff_read (\<lambda>w. filter (claimable key epoch mode t) (map snd (cw_records w)))) (\<lambda>found.
          let candidates = oldest_first found in
          claim_each token vis t (case limit of None \<Rightarrow> candidates | Some n \<Rightarrow> take n candidates))) v))" for v
  proof (rule evolves_if_keyed, rule evo.at_bind)
    show "evolves v (snd (now v))" using calm_follows [OF calm_now(1)] by (simp add: follows_def)
    fix t u assume k: "keyed v" and "now v = (Inr t, u)"
    then have ku: "keyed u" using calm_now(1) keyed_calm followsD by metis
    define rs where "rs = oldest_first (filter (claimable key epoch mode t) (map snd (cw_records u)))"
    have rs: "current rs u" "\<forall>r \<in> set rs. cr_state r = CPending"
      unfolding rs_def by (intro current_oldest_first current_filter current_all ku)
        (auto simp: oldest_first_def claimable_def)
    have "current (case limit of None \<Rightarrow> rs | Some n \<Rightarrow> take n rs) u"
      "\<forall>r \<in> set (case limit of None \<Rightarrow> rs | Some n \<Rightarrow> take n rs). cr_state r = CPending"
      using rs by (auto simp: current_take split: option.splits dest: in_set_takeD)
    then have "evolves u (snd (claim_each token vis t (case limit of None \<Rightarrow> rs | Some n \<Rightarrow> take n rs) u))"
      by (rule claim_each_evolves)
    then show "evolves u (snd (eff_bind (eff_read (\<lambda>w. filter (claimable key epoch mode t) (map snd (cw_records w)))) (\<lambda>found.
          let candidates = oldest_first found in
          claim_each token vis t (case limit of None \<Rightarrow> candidates | Some n \<Rightarrow> take n candidates)) u))"
      unfolding eff_bind_def Let_def eff_simps prod.case sum.case rs_def .
  qed
  then show ?thesis unfolding follows_def store_claim_pending_def by (intro allI gate_at)
qed

end
