(* ===== verification/CompletionLaws.thy ===== *)
theory CompletionLaws
  imports CompletionRouter
begin

text \<open>
  What the completion router guarantees: settled records stay settled, deleted parents stay deleted, and
  a closed parent receives nothing more.

  \<open>evolves\<close> of theory \<open>CompletionRouter\<close> is the relation between the worlds before and after that every
  call of a router follows; it is established operation by operation through the rules of the locale
  \<open>world_relation\<close>, so it holds for any sequence of calls by any number of routers.
\<close>

section \<open>Steps on one parent\<close>

text \<open>Everything but the marker and the generation of one parent stays.\<close>

definition touches :: "string \<Rightarrow> completion_world \<Rightarrow> completion_world \<Rightarrow> bool" where
  "touches key w w' \<longleftrightarrow> (keyed w \<longrightarrow> keyed w') \<and>
     (\<forall>tid. tid \<noteq> parent_marker_id key \<longrightarrow> find_record tid w' = find_record tid w) \<and>
     (\<forall>k. k \<noteq> key \<longrightarrow> eff_status k w' = eff_status k w)"

interpretation tch: world_relation "touches key" for key
  by unfold_locales (auto simp: touches_def)

lemma calm_touches: "calm w w' \<Longrightarrow> touches key w w'"
  unfolding touches_def using keyed_calm [of w w'] calm_find [of w w'] by (auto simp: calm_def)

lemma calm_follows_touches: "follows calm m \<Longrightarrow> follows (touches key) m"
  unfolding follows_def using calm_touches by blast

lemma touches_evolves:
  assumes "touches key w w'" "\<not> deleted key w"
  shows "evolves w w'"
proof -
  have "settled_kept w w'"
    unfolding settled_kept_def using assms(1) stamped_self parent_marker_id_marker [of key]
    unfolding touches_def by metis
  moreover have "deletions_kept w w'"
    unfolding deletions_kept_def deleted_def using assms unfolding touches_def deleted_def by metis
  ultimately show ?thesis by (simp add: evolves_def)
qed

lemma insert_marker_touches:
  assumes "cr_task_id r = parent_marker_id key" "cr_parent_key r = key" "cr_state r \<noteq> CPending"
  shows "touches key w (insert_record r w)"
  using assms keyed_write [of w r] by (auto simp: touches_def find_insert status_write)

lemma put_marker_touches:
  assumes "cr_task_id r = parent_marker_id key" "cr_parent_key r = key" "cr_state r \<noteq> CPending"
  shows "follows (touches key) (put_fenced r k gate)"
proof (rule followsI)
  fix w x w' assume "put_fenced r k gate w = (x, w')"
  then consider "calm w w'" | v where "calm w v" "w' = insert_record (stamp_epoch v r) v"
    using put_fenced_cases by blast
  then show "touches key w w'"
  proof cases
    case 2
    have "touches key v w'" unfolding 2(2) by (rule insert_marker_touches) (simp_all add: assms)
    then show ?thesis using tch.R_trans calm_touches [OF 2(1)] by blast
  qed (rule calm_touches)
qed

lemma eff_status_cong:
  "cw_records w' = cw_records w \<Longrightarrow> cw_process_local w' = cw_process_local w \<Longrightarrow>
    lifecycle_status key w' = lifecycle_status key w \<Longrightarrow> eff_status key w' = eff_status key w"
  by (simp add: eff_status_def marker_status_def find_record_def split: option.split)

lemma set_status_touches: "follows (touches key) (lifecycle_set_status key s)"
proof (rule followsI)
  fix w r w' assume l: "lifecycle_set_status key s w = (r, w')"
  have e: "eff_status k w' = eff_status k w" if "k \<noteq> key" for k
    by (rule eff_status_cong) (use lifecycle_set_status_effect [OF l, of k] that in auto)
  have c: "cw_records w' = cw_records w" using lifecycle_set_status_effect [OF l, of key] by blast
  have r: "find_record tid w' = find_record tid w" for tid unfolding find_record_def c ..
  have "keyed w' = keyed w" unfolding keyed_def r c ..
  then show "touches key w w'" unfolding touches_def using e r by blast
qed

lemma stub_fields [simp]:
  "cr_task_id (tombstone_stub t tid) = tid" "cr_parent_key (tombstone_stub t tid) = []"
  "cr_state (tombstone_stub t tid) = CTombstoned" "cr_parent_epoch (tombstone_stub t tid) = 0"
  by (simp_all add: tombstone_stub_def completion_new_def)

lemma set_parent_marker_touches: "s \<noteq> CPending \<Longrightarrow> follows (touches key) (set_parent_marker key s gate)"
  unfolding set_parent_marker_def Let_def
  by (intro tch.res_bind tch.res_then tch.res_basic calm_follows_touches calm_now set_status_touches put_marker_touches) simp_all

lemma marker_state_settled [simp]: "marker_state s \<noteq> CPending"
  by (cases s) simp_all

lemma write_parent_marker_touches: "follows (touches key) (write_parent_marker key s gate)"
  unfolding write_parent_marker_def
  by (intro tch.res_bind calm_follows_touches calm_now put_marker_touches) simp_all

lemma marker_state_status: "status_from_marker (marker_state s) e = (case s of Open _ \<Rightarrow> Open e | StoppedParent _ \<Rightarrow> StoppedParent e | DeletedParent _ \<Rightarrow> DeletedParent e)"
  by (cases s) (simp_all add: status_from_marker_def)

text \<open>A shared store learns the closed generation this process remembers.\<close>

lemma write_closed_marker_evolves:
  assumes "lifecycle_status key w = Some s" "\<not> cw_process_local w" "find_record (parent_marker_id key) w = None"
  shows "evolves w (snd (write_parent_marker key s gate w))"
  unfolding write_parent_marker_def
proof (rule at_now, rule put_fenced_at, rule write_marker_evolves)
  fix t u v
  assume c: "calm w u" "calm u v"
  have cv: "calm w v" using cal.R_trans c by blast
  let ?m = "(tombstone_stub t (parent_marker_id key))
    \<lparr>cr_parent_key := key, cr_parent_epoch := status_epoch s, cr_state := marker_state s\<rparr>"
  let ?r = "stamp_epoch v ?m"
  show "cr_task_id ?r = parent_marker_id (cr_parent_key ?r)" by simp
  show "cr_state ?r \<noteq> CPending" by (cases s) simp_all
  assume "deleted (cr_parent_key ?r) v"
  then have "\<exists>e. eff_status key w = Some (DeletedParent e)" using cv by (simp add: deleted_def calm_def)
  then obtain e where e: "s = DeletedParent e" using assms by (auto simp: eff_status_def marker_status_def)
  have "\<not> cw_process_local v" using cv assms(2) by (simp add: calm_def)
  then have "eff_status key (insert_record ?r v) = Some (status_from_marker (cr_state ?r) (cr_parent_epoch ?r))"
    by (simp add: eff_status_def marker_status_def find_insert)
  then show "deleted (cr_parent_key ?r) (insert_record ?r v)"
    using e by (simp add: deleted_def status_from_marker_def)
qed

lemma admit_legacy_loop:
  "current rs w \<Longrightarrow> keyed w \<Longrightarrow> \<not> deleted key w \<Longrightarrow> find_record (parent_marker_id key) w = None \<Longrightarrow>
     (\<forall>r \<in> set rs. cr_parent_key r = key) \<Longrightarrow>
    evolves w (snd (eff_each (admit_legacy key gate) rs w)) \<and>
    (\<forall>v. eff_each (admit_legacy key gate) rs w = (Inr (), v) \<longrightarrow> \<not> deleted key v)"
proof (induction rs arbitrary: w)
  case Nil
  then show ?case by (simp add: evo.R_refl)
next
  case (Cons r rs)
  have f: "find_record (cr_task_id r) w = Some r" using Cons.prems(1) by (rule current_hd)
  have nm: "\<not> is_marker (cr_task_id r)"
    using f Cons.prems(2,4,5) unfolding keyed_def by (metis list.set_intros(1) option.distinct(1))
  have step: "evolves w v \<and> (x = Inr () \<longrightarrow> current rs v \<and> keyed v \<and> \<not> deleted key v \<and>
       find_record (parent_marker_id key) v = None)"
    if v: "admit_legacy key gate r w = (x, v)" for x v
  proof (cases "cr_parent_epoch r = 0")
    case False
    then show ?thesis using v Cons.prems current_tl by (auto simp: admit_legacy_def evo.R_refl)
  next
    case True
    let ?r = "r\<lparr>cr_parent_epoch := 1\<rparr>"
    have p: "put_fenced ?r key gate w = (x, v)" using v True by (simp add: admit_legacy_def)
    have ev: "evolves w v"
      using put_fenced_evolves [of ?r w key gate] nm f p by auto
    have ok: "current rs v \<and> keyed v \<and> \<not> deleted key v \<and> find_record (parent_marker_id key) v = None"
      if x: "x = Inr ()"
    proof -
      obtain u where u: "calm w u" "v = insert_record (stamp_epoch u ?r) u"
        using put_fenced_cases [OF p] x by blast
      have cu: "current (r # rs) u" using Cons.prems(1) current_calm [OF u(1)] by blast
      have ne: "cr_task_id r \<noteq> parent_marker_id k" for k using nm by auto
      have "current rs v" unfolding u(2) by (rule current_insert [OF cu]) simp
      moreover have "keyed v" using ev Cons.prems(2) by (simp add: evolves_def settled_kept_def)
      moreover have "eff_status key v = eff_status key w"
        using u(1) ne by (simp add: u(2) status_write calm_def)
      moreover have "find_record (parent_marker_id key) v = None"
        using Cons.prems(4) ne [of key] by (simp add: u(2) find_insert calm_find [OF u(1)])
      ultimately show ?thesis using Cons.prems(3) by (simp add: deleted_def)
    qed
    show ?thesis using ev ok by blast
  qed
  obtain x v where v: "admit_legacy key gate r w = (x, v)" by fastforce
  show ?case
  proof (cases x)
    case (Inl e)
    then show ?thesis using v step [OF v] by simp
  next
    case (Inr u)
    then show ?thesis using v step [OF v] Cons.IH [of v] Cons.prems(5) evo.R_trans by auto
  qed
qed

lemma merge_deleted:
  "(\<exists>e. merge_status m c = Some (DeletedParent e)) \<longleftrightarrow> (\<exists>e. m = Some (DeletedParent e)) \<or> (\<exists>e. c = Some (DeletedParent e))"
  by (cases m; cases c) (auto simp: merge_status_def split: ParentLifecycleStatus.splits)

lemma eff_status_None: "eff_status key w = None \<Longrightarrow> find_record (parent_marker_id key) w = None"
  by (auto simp: eff_status_def merge_status_def marker_status_def split: if_splits option.splits ParentLifecycleStatus.splits)

lemma snd_then_return: "snd (eff_then m (eff_return a) w) = snd (m w)"
  by (simp add: eff_then_def eff_bind_def split: prod.split sum.split)

lemma admit_child_locked_evolves: "follows evolves (admit_child_locked key gate)"
proof (rule followsI, rule evolves_if_keyed)
  fix w x w'
  assume a: "admit_child_locked key gate w = (x, w')" and k: "keyed w"
  obtain r v where v: "parent_lifecycle_status key w = (r, v)" by fastforce
  have c: "calm w v" using parent_lifecycle_status_result [OF v] by blast
  have wv: "evolves w v" using c by (rule calm_evolves)
  show "evolves w w'"
  proof (cases r)
    case (Inl e)
    then show ?thesis using a v wv by (simp add: admit_child_locked_def)
  next
    case (Inr stat)
    have st: "eff_status key v = stat" using parent_lifecycle_status_result [OF v] c Inr by (simp add: calm_def)
    have kv: "keyed v" using k keyed_calm [OF c] by simp
    have "evolves v w'"
    proof (cases stat)
      case None
      have nd: "\<not> deleted key v" using st None by (simp add: deleted_def)
      have nm: "find_record (parent_marker_id key) v = None" using eff_status_None st None by simp
      let ?rs = "store_list (Some key) v"
      have own: "\<forall>r \<in> set ?rs. cr_parent_key r = key" by (simp add: store_list_def)
      have loop: "evolves v (snd (eff_each (admit_legacy key gate) ?rs v))"
        "\<And>u. eff_each (admit_legacy key gate) ?rs v = (Inr (), u) \<Longrightarrow> \<not> deleted key u"
        using admit_legacy_loop [OF current_store_list [OF kv] kv nd nm own] by blast+
      have "evolves v (snd (eff_then (eff_each (admit_legacy key gate) ?rs)
         (eff_then (set_parent_marker key CDelivered gate)
         (eff_bind (eff_read (find_record (parent_marker_id key))) (\<lambda>marker.
              case marker of
                None \<Rightarrow> eff_throw (Graph ''completion router: parent marker disappeared after admission'')
              | Some m \<Rightarrow> eff_return (Some (cr_parent_epoch m))))) v))"
        using loop set_parent_marker_touches [of CDelivered key gate]
        by (intro evo.at_then evo.at_bind)
          (auto simp: follows_def evo.R_refl intro: touches_evolves split: option.splits)
      then show ?thesis using a v Inr None by (simp add: admit_child_locked_def)
    next
      case (Some s)
      have writing: "w' = v \<or> w' = snd (write_parent_marker key s gate v)" if "s = Open e" for e
        using a v Inr Some that snd_then_return [of "write_parent_marker key (Open e) gate" "Some e" v]
        by (auto simp: admit_child_locked_def split: if_splits)
      show ?thesis
      proof (cases "\<exists>e. s = Open e")
        case True
        moreover have "touches key v (snd (write_parent_marker key s gate v))"
          using write_parent_marker_touches by (simp add: follows_def)
        ultimately show ?thesis
          using writing touches_evolves [of key v w'] st Some evo.R_refl by (auto simp: deleted_def)
      next
        case False
        show ?thesis
        proof (cases "\<not> cw_process_local v \<and> find_record (parent_marker_id key) v = None")
          case True
          then have l: "lifecycle_status key v = Some s" using st Some by (simp add: eff_status_def marker_status_def)
          have "w' = snd (write_parent_marker key s gate v)"
            using a v Inr Some False True l
              snd_then_return [of "eff_bind (eff_read (lifecycle_status key)) (\<lambda>s. case s of
                 None \<Rightarrow> eff_throw (Graph ''completion router: lifecycle marker disappeared'')
               | Some s \<Rightarrow> write_parent_marker key s gate)" "None :: u64 option" v]
            by (cases s) (auto simp: admit_child_locked_def)
          then show ?thesis using write_closed_marker_evolves l True by simp
        next
          case no: False
          have "w' = v" using a v Inr Some False no by (cases s) (auto simp: admit_child_locked_def)
          then show ?thesis by (simp add: evo.R_refl)
        qed
      qed
    qed
    then show ?thesis using wv evo.R_trans by blast
  qed
qed
section \<open>Every router operation\<close>

abbreviation evolves2 :: "router_world \<Rightarrow> router_world \<Rightarrow> bool" where
  "evolves2 x y \<equiv> evolves (fst x) (fst y)"

lemma on_store_at: "evolves (fst x) (snd (m (fst x))) \<Longrightarrow> evolves2 x (snd (on_store m x))"
  by (auto simp: on_store_def split: prod.splits)

lemma on_store_evolves: "follows evolves m \<Longrightarrow> follows evolves2 (on_store m)"
  unfolding follows_def using on_store_at by blast

lemma on_state_evolves: "follows evolves2 (on_state f)"
  by (auto simp: follows_def on_state_def evo.R_refl)

lemma on_store_step: "m w = (r, w') \<Longrightarrow> on_store m (w, st) = (r, (w', st))"
  by (simp add: on_store_def)

lemma gate_drop_evolves2: "evolves2 x (case x of (w, st) \<Rightarrow> (gate_drop key claim w, st))"
  by (cases x) (simp add: calm_evolves calm_gate_drop)

lemma with_parent_gate_at:
  assumes "\<And>claim v. calm (fst x) v \<Longrightarrow> evolves2 (v, snd x) (snd (body claim (v, snd x)))"
  shows "evolves2 x (snd (with_parent_gate key body x))"
  unfolding with_parent_gate_def
proof (rule evr.at_bind)
  have g: "calm (fst x) (snd (gate_acquire key (fst x)))" using calm_gate_acquire by (simp add: follows_def)
  then show "evolves2 x (snd (on_store (gate_acquire key) x))" by (intro on_store_at calm_evolves)
  fix claim v assume "on_store (gate_acquire key) x = (Inr claim, v)"
  then have v: "v = (snd (gate_acquire key (fst x)), snd x)" by (auto simp: on_store_def split: prod.splits)
  show "evolves2 v (snd (eff_finally (body claim) (\<lambda>(w, st). (gate_drop key claim w, st)) v))"
    using assms [OF g] unfolding v by (intro evr.at_finally gate_drop_evolves2)
qed

lemma with_parent_gate_evolves: "(\<And>claim. follows evolves2 (body claim)) \<Longrightarrow> follows evolves2 (with_parent_gate key body)"
  unfolding follows_def using with_parent_gate_at by blast

lemmas store_evolves =
  on_store_evolves [OF calm_follows] on_store_evolves [OF admit_child_locked_evolves]
  on_store_evolves [OF store_resolve_claim_evolves] on_store_evolves [OF store_claim_task_evolves]
  on_store_evolves [OF store_claim_pending_evolves] on_state_evolves calm_now calm_gates
  calm_parent_lifecycle_status cal.res_basic

lemma admit_child_evolves: "follows evolves2 (admit_child key)" "follows evolves2 (parent_generation_admitted key epoch)"
  unfolding admit_child_def admit_child_generation_def parent_generation_admitted_def
  by (intro evr.res_bind evr.res_basic with_parent_gate_evolves store_evolves)+

lemma resolve_evolves: "follows evolves2 (resolve rc res)"
  unfolding resolve_def by (intro with_parent_gate_evolves store_evolves)

lemma release_receipts_evolves: "follows evolves2 (release_receipts rcs)"
  unfolding release_receipts_def release_one_def
  by (intro evr.res_each evr.res_then evr.res_ignore resolve_evolves store_evolves)

lemma withdraw_loop_evolves: "current rs (fst x) \<Longrightarrow> keyed (fst x) \<Longrightarrow> evolves2 x (snd (eff_count (withdraw key gate) rs x))"
proof (induction rs arbitrary: x)
  case (Cons r rs)
  obtain w st where x: "x = (w, st)" by fastforce
  have f: "find_record (cr_task_id r) w = Some r" using Cons.prems(1) x by (simp add: current_hd)
  have step: "evolves w v \<and> (a = Inr b \<longrightarrow> current rs v)" if v: "withdraw key gate r (w, st) = (a, (v, st'))" for a b v st'
  proof (cases "cr_state r = CPending")
    case False
    then show ?thesis using v Cons.prems(1) x current_tl by (auto simp: withdraw_def evo.R_refl)
  next
    case True
    obtain t u where u: "now w = (Inr t, u)" "calm w u" using calm_now(1) by (simp add: now_def follows_def)
    let ?r = "r\<lparr>cr_state := CTombstoned, cr_updated_at := t\<rparr>"
    obtain y z where p: "put_fenced ?r key gate u = (y, z)" by fastforce
    have nm: "\<not> is_marker (cr_task_id r)" using keyed_pending [OF _ f True] Cons.prems(2) x by simp
    have "evolves u (snd (put_fenced ?r key gate u))"
      by (rule put_fenced_evolves) (use nm f True calm_find [OF u(2)] in auto)
    then have wz: "evolves w z" using p evo.R_trans [OF calm_evolves [OF u(2)]] by simp
    have av: "v = z \<and> (a = Inr b \<longrightarrow> y = Inr ())"
      using v True u(1) p
      by (cases y) (auto simp: withdraw_def on_store_def on_state_def eff_bind_def eff_then_def)
    have "current rs z" if y: "y = Inr ()"
    proof -
      obtain q where q: "calm u q" "z = insert_record (stamp_epoch q ?r) q"
        using put_fenced_cases [OF p] y by blast
      have "current (r # rs) q" using Cons.prems(1) x current_calm [OF cal.R_trans [OF u(2) q(1)]] by simp
      then show ?thesis unfolding q(2) by (rule current_insert) simp
    qed
    then show ?thesis using wz av by blast
  qed
  show ?case
    unfolding eff_count.simps x
  proof (rule evr.at_bind)
    show "evolves2 (w, st) (snd (withdraw key gate r (w, st)))"
      using step by (cases "withdraw key gate r (w, st)") auto
    fix b v assume v: "withdraw key gate r (w, st) = (Inr b, v)"
    then have s: "evolves w (fst v)" "current rs (fst v)" using step by (cases v; auto)+
    then have "keyed (fst v)" using Cons.prems(2) x by (simp add: evolves_def settled_kept_def)
    then have "evolves2 v (snd (eff_count (withdraw key gate) rs v))" using Cons.IH s(2) by blast
    then show "evolves2 v (snd (eff_bind (eff_count (withdraw key gate) rs) (\<lambda>n. eff_return (if b then Suc n else n)) v))"
      by (rule evr.at_bind) (simp add: evo.R_refl)
  qed
qed (simp add: evo.R_refl)

lemma status_at:
  assumes "\<And>v. calm (fst x) v \<Longrightarrow> evolves2 (v, snd x) (snd (f (eff_status key v) (v, snd x)))"
  shows "evolves2 x (snd (eff_bind (on_store (parent_lifecycle_status key)) f x))"
proof (rule evr.at_bind)
  show "evolves2 x (snd (on_store (parent_lifecycle_status key) x))"
    using store_evolves(1) [OF calm_parent_lifecycle_status] unfolding follows_def by blast
  fix s v assume "on_store (parent_lifecycle_status key) x = (Inr s, v)"
  then have p: "parent_lifecycle_status key (fst x) = (Inr s, fst v)" and v: "v = (fst v, snd x)"
    by (auto simp: on_store_def split: prod.splits)
  have c: "calm (fst x) (fst v)" and "s = eff_status key (fst x)"
    using parent_lifecycle_status_result [OF p] by blast+
  then have "s = eff_status key (fst v)" by (simp add: calm_def)
  then show "evolves2 v (snd (f s v))" using assms [OF c] v by metis
qed

lemma set_parent_marker_at:
  assumes "\<not> deleted key (fst x)" "s \<noteq> CPending"
  shows "evolves2 x (snd (on_store (set_parent_marker key s gate) x))"
  using touches_evolves [OF _ assms(1)] set_parent_marker_touches [OF assms(2)]
  unfolding follows_def by (intro on_store_at) blast

lemma close_parent_evolves: "s \<noteq> CPending \<Longrightarrow> follows evolves2 (close_parent key s)"
  unfolding follows_def close_parent_def
proof (intro allI with_parent_gate_at status_at)
  fix x :: router_world and gate and u v :: completion_world
  assume s: "s \<noteq> CPending"
  let ?x = "(v, snd (u, snd x))"
  have close: "evolves2 ?x (snd (eff_then (on_store (set_parent_marker key s gate))
      (eff_then (on_state (drop_parent key))
      (eff_bind (on_store (eff_read (store_list (Some key)))) (\<lambda>rs. eff_count (withdraw key gate) rs))) ?x))"
    if nd: "\<not> deleted key v"
  proof (rule evr.at_then)
    show "evolves2 ?x (snd (on_store (set_parent_marker key s gate) ?x))"
      using set_parent_marker_at [of key ?x s gate] nd s by simp
    fix a and y :: router_world
    have "evolves2 z (snd (eff_bind (on_store (eff_read (store_list (Some key)))) (eff_count (withdraw key gate)) z))" for z
    proof (rule evolves_if_keyed, rule evr.at_bind)
      show "evolves2 z (snd (on_store (eff_read (store_list (Some key))) z))"
        by (cases z) (simp add: on_store_def evo.R_refl)
      fix rs and v' :: router_world
      assume k: "keyed (fst z)" and r: "on_store (eff_read (store_list (Some key))) z = (Inr rs, v')"
      from r have "v' = z" "rs = store_list (Some key) (fst z)" by (auto simp: on_store_def split: prod.splits)
      then show "evolves2 v' (snd (eff_count (withdraw key gate) rs v'))"
        using withdraw_loop_evolves current_store_list [OF k] k by blast
    qed
    then show "evolves2 y (snd (eff_then (on_state (drop_parent key))
      (eff_bind (on_store (eff_read (store_list (Some key)))) (\<lambda>rs. eff_count (withdraw key gate) rs)) y))"
      using on_state_evolves unfolding follows_def by (intro evr.at_then) blast+
  qed
  have gone: "evolves2 ?x (snd (eff_then (on_state (drop_parent key)) (eff_return 0) ?x))"
    by (simp add: on_state_def evo.R_refl)
  show "evolves2 ?x (snd ((case eff_status key v of
      Some (DeletedParent _) \<Rightarrow> eff_then (on_state (drop_parent key)) (eff_return 0)
    | _ \<Rightarrow> eff_then (on_store (set_parent_marker key s gate))
             (eff_then (on_state (drop_parent key))
             (eff_bind (on_store (eff_read (store_list (Some key)))) (\<lambda>rs. eff_count (withdraw key gate) rs)))) ?x))"
    using close gone by (auto simp: deleted_def split: option.split ParentLifecycleStatus.split)
qed

lemma resume_parent_evolves: "follows evolves2 (resume_parent key)"
  unfolding resume_parent_def
proof (rule evr.res_ignore, unfold follows_def, intro allI with_parent_gate_at status_at)
  fix x :: router_world and gate and u v :: completion_world
  show "evolves2 (v, snd (u, snd x)) (snd ((case eff_status key v of
       Some (Open _) \<Rightarrow> eff_return ()
     | Some (DeletedParent _) \<Rightarrow> eff_throw (Graph (''completion router: deleted parent '' @ key @ '' cannot be resumed''))
     | _ \<Rightarrow> on_store (set_parent_marker key CDelivered gate)) (v, snd (u, snd x))))"
    using set_parent_marker_at [of key "(v, snd x)" CDelivered gate]
    by (auto simp: deleted_def evo.R_refl split: option.split ParentLifecycleStatus.split)
qed

lemma cancel_all_parents_evolves: "follows evolves2 cancel_all_parents"
proof -
  have "follows evolves2 (cancel_each_parent keys)" for keys
    by (induction keys)
      (simp_all only: cancel_each_parent.simps cancel_parent_def evr.res_basic evr.res_bind close_parent_evolves
        CompletionState.distinct not_False_eq_True)
  then show ?thesis unfolding follows_def cancel_all_parents_def by auto
qed
lemma push_live_evolves: "follows evolves2 (push_live to_message gate r)"
  unfolding push_live_def
  by (intro evr.res_bind evr.res_then evr.res_basic evr.res_option evr.res_if store_evolves release_receipts_evolves)

lemma record_completion_evolves: "\<not> is_marker (cr_task_id r) \<Longrightarrow> follows evolves2 (record_completion to_message r)"
  unfolding record_completion_def Let_def
  by (intro with_parent_gate_evolves evr.res_bind evr.res_basic evr.res_option evr.res_if store_evolves push_live_evolves
      on_store_evolves [OF insert_if_absent_evolves]) simp

lemma record_retry_evolves:
  "\<not> is_marker (cr_task_id r) \<Longrightarrow> evolves2 x (snd (record_retry to_message r attempts attempt x))"
proof (induction to_message r attempts attempt x rule: record_retry.induct)
  case (1 to_message r attempts attempt x)
  obtain out y where y: "record_completion to_message r x = (out, y)"
    by (cases "record_completion to_message r x")
  have e: "evolves2 x y" using record_completion_evolves [OF 1(2)] y followsD by fastforce
  show ?case
  proof (cases out)
    case (Inl err)
    have "evolves2 x (snd (record_retry to_message r attempts (attempt + 1) y))" if "\<not> attempts \<le> attempt"
      using 1(1) [OF y [symmetric] Inl that 1(2)] e evo.R_trans by blast
    then show ?thesis using y Inl e by (simp add: record_retry.simps [of _ _ _ attempt x])
  qed (use y e in \<open>simp add: record_retry.simps [of _ _ _ attempt x]\<close>)
qed

lemma tombstone_evolves:
  assumes "\<not> is_marker tid"
  shows "follows evolves2 (tombstone tid)"
proof (unfold follows_def, rule allI, rule evolves_if_keyed)
  fix x :: router_world
  assume k: "keyed (fst x)"
  obtain w st where x: "x = (w, st)" by fastforce
  have put: "evolves2 (v, st) (snd (eff_bind (on_store now) (\<lambda>t.
      eff_then (on_store (put_fenced (r t) key gate)) m) (v, st)))"
    if v: "calm w v" and r: "\<And>t. cr_task_id (r t) = tid"
      and pend: "\<And>y. find_record tid w = Some y \<Longrightarrow> cr_state y = CPending"
      and m: "follows evolves2 m" for v r key gate and m :: "TombstoneOutcome router_effect"
  proof (rule evr.at_bind)
    show "evolves2 (v, st) (snd (on_store now (v, st)))"
      using store_evolves(1) [OF calm_now(1)] unfolding follows_def by blast
    fix t u assume "on_store now (v, st) = (Inr t, u)"
    then have "now v = (Inr t, fst u)" by (auto simp: on_store_def split: prod.splits)
    then have c: "calm w (fst u)" using followsD [OF calm_now(1)] cal.R_trans v by blast
    have "evolves (fst u) (snd (put_fenced (r t) key gate (fst u)))"
      by (rule put_fenced_evolves) (use assms pend in \<open>auto simp: r calm_find [OF c]\<close>)
    then show "evolves2 u (snd (eff_then (on_store (put_fenced (r t) key gate)) m u))"
      using m unfolding follows_def by (intro evr.at_then on_store_at) blast+
  qed
  show "evolves2 x (snd (tombstone tid x))"
  proof (cases "find_record tid w")
    case None
    have "evolves2 (w, st) (snd (with_parent_gate (''completion-task:'' @ tid) (\<lambda>gate.
        eff_bind (on_store now) (\<lambda>t.
        eff_then (on_store (put_fenced (tombstone_stub t tid) (''completion-task:'' @ tid) gate))
        (eff_return TombReserved))) (w, st)))"
    proof (rule with_parent_gate_at)
      fix gate v assume "calm (fst (w, st)) v"
      then show "evolves2 (v, snd (w, st)) (snd (eff_bind (on_store now) (\<lambda>t.
        eff_then (on_store (put_fenced (tombstone_stub t tid) (''completion-task:'' @ tid) gate))
        (eff_return TombReserved)) (v, snd (w, st))))"
        using put [of v "\<lambda>t. tombstone_stub t tid", OF _ _ _ evr.res_basic(1)] None by simp
    qed
    then show ?thesis using None by (simp add: tombstone_def x on_store_def)
  next
    case (Some y)
    have tid: "cr_task_id y = tid" using k Some by (auto simp: x keyed_def)
    show ?thesis
    proof (cases "cr_state y = CPending")
      case True
      have "evolves2 (w, st) (snd (with_parent_gate (cr_parent_key y) (\<lambda>gate.
          eff_bind (on_store now) (\<lambda>t.
          eff_then (on_store (put_fenced (y\<lparr>cr_state := CTombstoned, cr_updated_at := t\<rparr>) (cr_parent_key y) gate))
          (eff_then (on_state (unlease tid)) (eff_return TombSuppressed)))) (w, st)))"
      proof (rule with_parent_gate_at)
        fix gate v assume "calm (fst (w, st)) v"
        then show "evolves2 (v, snd (w, st)) (snd (eff_bind (on_store now) (\<lambda>t.
          eff_then (on_store (put_fenced (y\<lparr>cr_state := CTombstoned, cr_updated_at := t\<rparr>) (cr_parent_key y) gate))
          (eff_then (on_state (unlease tid)) (eff_return TombSuppressed))) (v, snd (w, st))))"
          using put [of v "\<lambda>t. y\<lparr>cr_state := CTombstoned, cr_updated_at := t\<rparr>",
              OF _ _ _ evr.res_then [OF on_state_evolves evr.res_basic(1)]] Some True tid by simp
      qed
      then show ?thesis using Some True by (simp add: tombstone_def x on_store_def)
    next
      case False
      then show ?thesis using Some by (simp add: tombstone_def x on_store_def evo.R_refl)
    qed
  qed
qed

lemma router_claim_evolves: "follows evolves2 (router_claim key limit mode)"
  unfolding router_claim_def Let_def
  by (intro with_parent_gate_evolves evr.res_bind evr.res_then evr.res_basic evr.res_option store_evolves)

lemma receipts_evolve:
  "follows evolves2 (mark_delivered rcs)" "follows evolves2 (mark_failed rcs)" "follows evolves2 release_all"
proof -
  show "follows evolves2 (mark_delivered rcs)"
    unfolding mark_delivered_def deliver_one_def
    by (intro evr.res_count evr.res_bind evr.res_then evr.res_basic resolve_evolves store_evolves)
  have counted: "follows evolves2 (eff_count release_counted rcs)" for rcs
    unfolding release_counted_def
    by (intro evr.res_count evr.res_bind evr.res_then evr.res_basic resolve_evolves store_evolves)
  then show "follows evolves2 release_all" unfolding follows_def release_all_def by auto
  have "follows evolves2 (fail_one rc)" for rc
  proof (rule followsI)
    fix x r y assume f: "fail_one rc x = (r, y)"
    show "evolves2 x y"
      using f followsD [OF resolve_evolves [of rc "ResolveFailed (rs_max_attempts (snd x))"], of x]
      by (cases x) (auto simp: fail_one_def split: prod.splits)
  qed
  then show "follows evolves2 (mark_failed rcs)"
    by (induction rcs) (simp_all only: mark_failed.simps evr.res_basic evr.res_bind)
qed

lemma detach_parent_evolves: "follows evolves2 (detach_parent key)"
proof -
  have "follows evolves2 (release_record key gate r)" for gate r
  proof (unfold follows_def, rule allI)
    fix x :: router_world
    show "evolves2 x (snd (release_record key gate r x))"
      by (cases x) (auto simp: release_record_def Let_def evo.R_refl eff_ignore_def on_store_def
          split: option.split prod.split intro: followsD [OF store_resolve_claim_evolves])
  qed
  then show ?thesis
    unfolding detach_parent_def
    by (intro evr.res_then evr.res_ignore with_parent_gate_evolves evr.res_bind evr.res_each store_evolves)
qed

section \<open>Sequences of calls\<close>

text \<open>The calls that change the world, each made by a router in some state.\<close>

datatype router_call =
  CallRecord CompletionRecord u32 | CallTombstone string | CallClaim string nat | CallBeginTurn string | CallPull string nat
| CallDelivered "CompletionReceipt list" | CallFailed "CompletionReceipt list" | CallReleaseAll | CallDetach string
| CallCancel string | CallCancelAll | CallDelete string | CallResume string | CallAdmit string | CallAdmitted string u64
| CallCompact nat

fun run_call :: "(CompletionRecord list \<Rightarrow> string) \<Rightarrow> router_call \<Rightarrow> router_world \<Rightarrow> router_world" where
  "run_call f (CallRecord r n) x = snd (record_with_retries f r n x)"
| "run_call f (CallTombstone tid) x = snd (tombstone tid x)"
| "run_call f (CallClaim key n) x = snd (claim_pending key n x)"
| "run_call f (CallBeginTurn key) x = snd (begin_turn key x)"
| "run_call f (CallPull key n) x = snd (pull key n x)"
| "run_call f (CallDelivered rcs) x = snd (mark_delivered rcs x)"
| "run_call f (CallFailed rcs) x = snd (mark_failed rcs x)"
| "run_call f CallReleaseAll x = snd (release_all x)"
| "run_call f (CallDetach key) x = snd (detach_parent key x)"
| "run_call f (CallCancel key) x = snd (cancel_parent key x)"
| "run_call f CallCancelAll x = snd (cancel_all_parents x)"
| "run_call f (CallDelete key) x = snd (delete_parent key x)"
| "run_call f (CallResume key) x = snd (resume_parent key x)"
| "run_call f (CallAdmit key) x = snd (admit_child key x)"
| "run_call f (CallAdmitted key e) x = snd (parent_generation_admitted key e x)"
| "run_call f (CallCompact retain) x = snd (router_compact retain x)"

text \<open>Task ids are not in the namespace of the parent markers.\<close>

fun plain_call :: "router_call \<Rightarrow> bool" where
  "plain_call (CallRecord r n) \<longleftrightarrow> \<not> is_marker (cr_task_id r)"
| "plain_call (CallTombstone tid) \<longleftrightarrow> \<not> is_marker tid"
| "plain_call _ \<longleftrightarrow> True"

fun is_compaction :: "router_call \<Rightarrow> bool" where
  "is_compaction (CallCompact _) \<longleftrightarrow> True"
| "is_compaction _ \<longleftrightarrow> False"

lemma call_evolves:
  assumes "plain_call c" "\<not> is_compaction c"
  shows "evolves2 x (run_call f c x)"
proof -
  note ops = record_retry_evolves router_claim_evolves receipts_evolve detach_parent_evolves close_parent_evolves
    cancel_all_parents_evolves resume_parent_evolves admit_child_evolves tombstone_evolves
  show ?thesis
    by (cases c; use assms ops [unfolded follows_def] in \<open>simp add: record_with_retries_def claim_pending_def begin_turn_def
      pull_def cancel_parent_def delete_parent_def del: split_paired_All\<close>)
qed

lemma filter_find:
  assumes "distinct (map fst xs)"
  shows "map_of (filter P xs) k = (case map_of xs k of Some v \<Rightarrow> if P (k, v) then Some v else None | None \<Rightarrow> None)"
  using assms
proof (induction xs)
  case (Cons p xs)
  then show ?case
    by (cases p) (auto split: option.splits dest: map_of_SomeD intro: rev_image_eqI simp: map_of_eq_None_iff)
qed simp

lemma compact_deletions: "deletions_kept w (snd (store_compact retain w))"
  unfolding deletions_kept_def
proof (intro impI)
  assume k: "keyed w"
  obtain t u where u: "now w = (Inr t, u)" "calm w u" using calm_now(1) by (simp add: now_def follows_def)
  let ?P = "\<lambda>(tid, r). is_marker tid \<or> \<not> expired retain t r"
  let ?v = "u\<lparr>cw_records := filter ?P (cw_records u)\<rparr>"
  have v: "snd (store_compact retain w) = ?v" using u(1) by (simp add: store_compact_def Let_def)
  have ku: "keyed u" using keyed_calm [OF u(2)] k by simp
  then have d: "distinct (map fst (cw_records u))" by (simp add: keyed_def)
  have find: "find_record tid ?v = (case find_record tid u of
      Some r \<Rightarrow> if is_marker tid \<or> \<not> expired retain t r then Some r else None | None \<Rightarrow> None)" for tid
    by (simp add: find_record_def filter_find [OF d] split: option.split)
  have "keyed ?v"
    unfolding keyed_def find using ku d unfolding keyed_def
    by (auto simp: distinct_map_filter split: option.splits if_splits)
  moreover have "eff_status key ?v = eff_status key u" for key
    by (simp add: eff_status_def marker_status_def find lifecycle_status_def split: option.split)
  moreover have "eff_status key u = eff_status key w" for key using u(2) by (simp add: calm_def)
  ultimately show "keyed (snd (store_compact retain w)) \<and> (\<forall>key. deleted key w \<longrightarrow> deleted key (snd (store_compact retain w)))"
    unfolding v deleted_def by simp
qed

lemma call_deletions:
  assumes "plain_call c"
  shows "deletions_kept (fst x) (fst (run_call f c x))"
proof (cases "is_compaction c")
  case True
  then obtain d where "c = CallCompact d" by (cases c) auto
  then show ?thesis
    using compact_deletions [of "fst x" d] by (cases x) (auto simp: router_compact_def on_store_def split: prod.splits)
qed (use call_evolves [OF assms] in \<open>simp add: evolves_def\<close>)
section \<open>Closed parents\<close>

fun run_calls :: "(CompletionRecord list \<Rightarrow> string) \<Rightarrow> (router_call \<times> RouterState) list \<Rightarrow> completion_world \<Rightarrow> completion_world" where
  "run_calls f [] w = w"
| "run_calls f ((c, st) # cs) w = run_calls f cs (fst (run_call f c (w, st)))"

lemma calls_evolve:
  "(\<forall>(c, st) \<in> set cs. plain_call c \<and> \<not> is_compaction c) \<Longrightarrow> evolves w (run_calls f cs w)"
proof (induction f cs w rule: run_calls.induct)
  case (2 f c st cs w)
  then show ?case using call_evolves [of c "(w, st)" f] evo.R_trans by auto
qed (simp add: evo.R_refl)

lemma calls_deletions:
  "(\<forall>(c, st) \<in> set cs. plain_call c) \<Longrightarrow> deletions_kept w (run_calls f cs w)"
proof (induction f cs w rule: run_calls.induct)
  case (2 f c st cs w)
  then show ?case using call_deletions [of c "(w, st)" f] by (auto simp: deletions_kept_def)
qed (simp add: deletions_kept_def)

lemma with_parent_gate_Inr:
  assumes "with_parent_gate key body (w, st) = (Inr a, (w', st'))"
  obtains claim v z where "calm w v" "body claim (v, st) = (Inr a, (z, st'))" "calm z w'"
proof -
  obtain claim v where g: "gate_acquire key w = (Inr claim, v)"
    and b: "eff_finally (body claim) (\<lambda>(w, st). (gate_drop key claim w, st)) (v, st) = (Inr a, (w', st'))"
    using assms by (auto simp: with_parent_gate_def on_store_def eff_bind_def split: prod.splits sum.splits)
  from b obtain z where z: "body claim (v, st) = (Inr a, (z, st'))" "w' = gate_drop key claim z"
    by (auto simp: eff_finally_def split: prod.splits)
  have "calm w v" using followsD [OF calm_gate_acquire g] .
  moreover have "calm z w'" using z(2) calm_gate_drop by simp
  ultimately show thesis using that z(1) by blast
qed

definition closed :: "string \<Rightarrow> completion_world \<Rightarrow> bool" where
  "closed key w \<longleftrightarrow> (case eff_status key w of None \<Rightarrow> False | Some s \<Rightarrow> (\<forall>e. s \<noteq> Open e))"

lemma closed_calm: "calm w v \<Longrightarrow> closed key v = closed key w"
  by (simp add: closed_def calm_def)

lemma deleted_closed: "deleted key w \<Longrightarrow> closed key w"
  by (auto simp: closed_def deleted_def)

lemma admit_child_locked_closed:
  assumes "closed key w" "admit_child_locked key gate w = (Inr a, w')"
  shows "a = None"
proof -
  obtain s v where s: "parent_lifecycle_status key w = (Inr s, v)"
    using assms(2) by (cases "parent_lifecycle_status key w"; cases "fst (parent_lifecycle_status key w)")
      (auto simp: admit_child_locked_def)
  have "s = eff_status key w" using parent_lifecycle_status_result [OF s] by blast
  then obtain t where t: "s = Some t" "\<forall>e. t \<noteq> Open e" using assms(1) by (auto simp: closed_def split: option.splits)
  show ?thesis
    using assms(2) s t by (cases t) (auto simp: admit_child_locked_def eff_then_Inr)
qed

lemma admission_closed:
  assumes "closed key w" "with_parent_gate key body (w, st) = (Inr out, y)"
    and "\<And>gate v. \<exists>k. body gate (v, st) = eff_bind (on_store (admit_child_locked key gate))
      (\<lambda>a. case a of None \<Rightarrow> eff_return d | Some e \<Rightarrow> k e) (v, st)"
  shows "out = d"
proof -
  obtain w' st' where y: "y = (w', st')" by fastforce
  obtain claim v z where v: "calm w v" and b: "body claim (v, st) = (Inr out, (z, st'))"
    using assms(2) unfolding y by (rule with_parent_gate_Inr)
  obtain k where k: "body claim (v, st) = eff_bind (on_store (admit_child_locked key claim))
      (\<lambda>a. case a of None \<Rightarrow> eff_return d | Some e \<Rightarrow> k e) (v, st)" using assms(3) by blast
  have c: "closed key v" using closed_calm [OF v] assms(1) by simp
  obtain a u where a: "admit_child_locked key claim v = (a, u)" by fastforce
  show ?thesis
  proof (cases a)
    case (Inr g)
    then have "g = None" using admit_child_locked_closed [OF c] a by blast
    then show ?thesis using b k a Inr by (simp add: on_store_def)
  qed (use b k a in \<open>simp add: on_store_def\<close>)
qed

lemma record_completion_closed:
  assumes "closed (cr_parent_key r) w" "record_completion f r (w, st) = (Inr out, y)"
  shows "out = Suppressed"
  using assms(2) unfolding record_completion_def
  by (rule admission_closed [OF assms(1)]) (auto simp: on_store_def [of "eff_read _"])

lemma router_claim_closed:
  assumes "closed key w" "router_claim key limit mode (w, st) = (Inr rs, y)"
  shows "rs = []"
  using assms(2) unfolding router_claim_def by (rule admission_closed [OF assms(1)]) blast

lemma acquire_for_closed:
  assumes "closed (ad_parent_key adm) w"
  shows "fst (acquire_for (completion_admission key_text) adm None w) = Inl Rejected"
proof -
  have "fst (permit_acquire (ad_parent_key adm) e w) \<noteq> Inr (Some claim)" for e claim
  proof
    assume "fst (permit_acquire (ad_parent_key adm) e w) = Inr (Some claim)"
    then obtain w' where "permit_acquire (ad_parent_key adm) e w = (Inr (Some claim), w')" by (metis prod.collapse)
    then obtain c v u where "gate_acquire (ad_parent_key adm) w = (Inr c, v)"
      "parent_lifecycle_status (ad_parent_key adm) v = (Inr (Some (Open e)), u)"
      by (auto simp: permit_acquire_def eff_bind_Inr eff_then_Inr on_error_def split: if_splits prod.splits sum.splits)
    then have "calm w v" "eff_status (ad_parent_key adm) v = Some (Open e)"
      using followsD [OF calm_gate_acquire] parent_lifecycle_status_result by fastforce+
    then show False using assms by (simp add: closed_def calm_def)
  qed
  then show ?thesis
    by (auto simp: completion_admission_def split: prod.split sum.split option.split) (metis fst_conv)
qed

lemma set_parent_marker_status:
  assumes "set_parent_marker key s gate w = (Inr u, w')"
  shows "\<exists>e. eff_status key w' = Some (status_from_marker s e)"
proof -
  obtain t v where t: "now w = (Inr t, v)" by (simp add: now_def)
  obtain n z where n: "n \<noteq> 0" and p: "put_fenced ((tombstone_stub t (parent_marker_id key))
      \<lparr>cr_parent_key := key, cr_state := s, cr_parent_epoch := n\<rparr>) key gate v = (Inr (), z)"
    and l: "lifecycle_set_status key (status_from_marker s n) z = (Inr u, w')"
  proof -
    have pos: "sat_add e 1 \<noteq> 0" for e :: u64
      using unat_sat_add [of e 1] by auto
    show thesis
      using assms t that pos that [of 1]
      by (auto simp: set_parent_marker_def Let_def eff_then_Inr split: option.splits if_splits)
  qed
  obtain q where q: "z = insert_record ((tombstone_stub t (parent_marker_id key))
      \<lparr>cr_parent_key := key, cr_state := s, cr_parent_epoch := n\<rparr>) q"
    using put_fenced_cases [OF p] n by (auto simp: stamp_epoch_def)
  have "marker_status key z = Some (status_from_marker s n)" by (simp add: q marker_status_def find_insert)
  moreover have "marker_status key w' = marker_status key z" "lifecycle_status key w' = Some (status_from_marker s n)"
    using lifecycle_set_status_effect [OF l, of key] by (auto simp: marker_status_def find_record_def)
  ultimately have "eff_status key w' = (if cw_process_local w'
      then merge_status (Some (status_from_marker s n)) (Some (status_from_marker s n)) else Some (status_from_marker s n))"
    by (simp add: eff_status_def)
  moreover have "merge_status (Some x) (Some x) = Some x" for x by (cases x) (simp_all add: merge_status_def)
  ultimately show ?thesis by auto
qed
lemma withdraw_effect:
  assumes "withdraw key gate r (w, st) = (Inr b, (v, st'))" "find_record (cr_task_id r) w = Some r" "keyed w"
  shows "b = (cr_state r = CPending) \<and> keyed v \<and> (\<forall>k. eff_status k v = eff_status k w) \<and>
    (\<forall>rs. current (r # rs) w \<longrightarrow> current rs v) \<and>
    (\<forall>tid x. find_record tid v = Some x \<and> cr_state x = CPending \<longrightarrow> find_record tid w = Some x \<and> tid \<noteq> cr_task_id r)"
proof (cases "cr_state r = CPending")
  case False
  then have "b = False" "v = w" using assms(1) by (auto simp: withdraw_def)
  moreover have "tid \<noteq> cr_task_id r" if "find_record tid w = Some x" "cr_state x = CPending" for tid x
    using that False assms(2) by auto
  ultimately show ?thesis using False assms(3) current_tl by blast
next
  case True
  have nm: "\<not> is_marker (cr_task_id r)" using keyed_pending [OF assms(3,2) True] by simp
  obtain t u where u: "now w = (Inr t, u)" "calm w u" using calm_now(1) by (simp add: now_def follows_def)
  let ?r = "r\<lparr>cr_state := CTombstoned, cr_updated_at := t\<rparr>"
  have b: "b = True" and p: "put_fenced ?r key gate u = (Inr (), v)"
    using assms(1) True u(1)
    by (auto simp: withdraw_def on_store_def on_state_def eff_then_Inr split: prod.splits)
  obtain q where q: "calm u q" "v = insert_record (stamp_epoch q ?r) q" using put_fenced_cases [OF p] by blast
  have c: "calm w q" using cal.R_trans u(2) q(1) by blast
  have ne: "cr_task_id r \<noteq> parent_marker_id k" for k using nm by auto
  have "current rs v" if "current (r # rs) w" for rs
  proof -
    have "current (r # rs) q" using that current_calm [OF c] by blast
    then show ?thesis unfolding q(2) by (rule current_insert) simp
  qed
  moreover have "keyed v" unfolding q(2) using keyed_calm [OF c] assms(3) nm by (intro keyed_write) simp_all
  moreover have "eff_status k v = eff_status k w" for k
    using c ne by (simp add: q(2) status_write calm_def)
  moreover have "find_record tid w = Some x \<and> tid \<noteq> cr_task_id r" if "find_record tid v = Some x" "cr_state x = CPending" for tid x
    using that calm_find [OF c, of tid] by (auto simp: q(2) find_insert split: if_splits)
  ultimately show ?thesis using b True by blast
qed

lemma withdraw_loop:
  "current rs w \<Longrightarrow> keyed w \<Longrightarrow> eff_count (withdraw key gate) rs (w, st) = (Inr n, (w', st')) \<Longrightarrow>
    n = length (filter (\<lambda>r. cr_state r = CPending) rs) \<and> keyed w' \<and> (\<forall>k. eff_status k w' = eff_status k w) \<and>
    (\<forall>tid x. find_record tid w' = Some x \<and> cr_state x = CPending \<longrightarrow> find_record tid w = Some x \<and> tid \<notin> cr_task_id ` set rs)"
proof (induction rs arbitrary: w st n)
  case (Cons r rs)
  obtain b v st1 m where b: "withdraw key gate r (w, st) = (Inr b, (v, st1))"
    and m: "eff_count (withdraw key gate) rs (v, st1) = (Inr m, (w', st'))" and n: "n = (if b then Suc m else m)"
    using Cons.prems(3) by (auto simp: eff_bind_Inr)
  note step = withdraw_effect [OF b current_hd [OF Cons.prems(1)] Cons.prems(2)]
  have cv: "current rs v" and kv: "keyed v" using step Cons.prems(1) by blast+
  note rest = Cons.IH [OF cv kv m]
  have "n = length (filter (\<lambda>r. cr_state r = CPending) (r # rs))" using n step rest by simp
  moreover have "eff_status k w' = eff_status k w" for k using step rest by metis
  moreover have "find_record tid w = Some x \<and> tid \<notin> cr_task_id ` set (r # rs)"
    if x: "find_record tid w' = Some x" "cr_state x = CPending" for tid x
  proof -
    have "find_record tid v = Some x" "tid \<notin> cr_task_id ` set rs" using rest x by blast+
    then show ?thesis using step x(2) by auto
  qed
  ultimately show ?case using rest by blast
qed simp

lemma filter_update:
  "(\<And>v. map_of xs k = Some v \<Longrightarrow> \<not> P v) \<Longrightarrow> \<not> P m \<Longrightarrow> filter P (map snd (AList.update k m xs)) = filter P (map snd xs)"
  by (induction xs) (auto split: if_splits)

lemma pending_empty:
  assumes "keyed w" "\<And>tid x. find_record tid w = Some x \<Longrightarrow> cr_state x = CPending \<Longrightarrow> cr_parent_key x \<noteq> key"
  shows "pending_for key (w, st) = []"
proof -
  have "cr_state x \<noteq> CPending \<or> cr_parent_key x \<noteq> key" if "x \<in> set (map snd (cw_records w))" for x
    using current_all [OF assms(1)] that assms(2) unfolding current_def by blast
  then have "filter (\<lambda>r. cr_state r = CPending) (store_list (Some key) w) = []"
    unfolding store_list_def by (auto simp: filter_empty_conv)
  then show ?thesis by (simp add: pending_for_def oldest_first_def)
qed

lemma set_parent_marker_pending:
  assumes "set_parent_marker key s gate w = (x, w')" "keyed w" "s \<noteq> CPending"
  shows "filter (\<lambda>r. cr_state r = CPending) (store_list k w') = filter (\<lambda>r. cr_state r = CPending) (store_list k w)"
proof -
  let ?pend = "\<lambda>w. filter (\<lambda>r. cr_state r = CPending) (map snd (cw_records w))"
  have calm: "?pend v = ?pend u" if "calm u v" for u v using that by (simp add: calm_def)
  have "?pend w' = ?pend w"
  proof -
    obtain t u where u: "now w = (Inr t, u)" "calm w u" using calm_now(1) by (simp add: now_def follows_def)
    obtain m y z where m: "cr_task_id m = parent_marker_id key" "cr_state m = s"
      and p: "put_fenced m key gate u = (y, z)" and z: "w' = z \<or> (\<exists>n r. lifecycle_set_status key n z = (r, w'))"
    proof -
      have "\<exists>n y z. put_fenced ((tombstone_stub t (parent_marker_id key))\<lparr>cr_parent_key := key, cr_state := s, cr_parent_epoch := n\<rparr>)
          key gate u = (y, z) \<and> (w' = z \<or> (\<exists>n r. lifecycle_set_status key n z = (r, w')))"
        using assms(1) u(1)
        by (auto simp: set_parent_marker_def Let_def eff_then_def eff_bind_def split: prod.splits sum.splits)
          (metis surj_pair)+
      then show thesis using that by (elim exE conjE) (rule that, auto)
    qed
    have "?pend w' = ?pend z" using z lifecycle_set_status_effect by metis
    moreover have "?pend z = ?pend u"
    proof -
      from put_fenced_cases [OF p] consider "calm u z" | q where "calm u q" "z = insert_record (stamp_epoch q m) q" by blast
      then show ?thesis
      proof cases
        case 2
        have "keyed q" using assms(2) keyed_calm u(2) 2(1) by blast
        then have "\<not> cr_state v = CPending" if "map_of (cw_records q) (parent_marker_id key) = Some v" for v
          using that unfolding keyed_def find_record_def by auto
        then have "?pend z = ?pend q" using m assms(3) by (simp add: 2(2) insert_record_def filter_update)
        then show ?thesis using calm [OF 2(1)] by simp
      qed (rule calm)
    qed
    ultimately show ?thesis using calm [OF u(2)] by simp
  qed
  then show ?thesis unfolding store_list_def by (metis (no_types, lifting) filter_filter conj_commute filter_cong)
qed
lemma close_parent_result:
  assumes "keyed w" "\<not> deleted key w" "s \<noteq> CPending" "close_parent key s (w, st) = (Inr n, (w1, st1))"
  shows "n = length (pending_for key (w, st)) \<and> keyed w1 \<and> pending_for key (w1, st1) = [] \<and>
    (\<exists>e. eff_status key w1 = Some (status_from_marker s e))"
proof -
  obtain claim v z where v: "calm w v" "calm z w1"
    and b: "eff_bind (on_store (parent_lifecycle_status key)) (\<lambda>current.
         case current of
           Some (DeletedParent _) \<Rightarrow> eff_then (on_state (drop_parent key)) (eff_return 0)
         | _ \<Rightarrow>
             eff_then (on_store (set_parent_marker key s claim))
             (eff_then (on_state (drop_parent key))
             (eff_bind (on_store (eff_read (store_list (Some key)))) (\<lambda>rs.
                eff_count (withdraw key claim) rs)))) (v, st) = (Inr n, (z, st1))"
    using assms(4) unfolding close_parent_def by (elim with_parent_gate_Inr)
  obtain c u where u: "parent_lifecycle_status key v = (Inr c, u)"
    using b by (auto simp: eff_bind_Inr on_store_def split: prod.splits)
  have cu: "calm w u" "c = eff_status key v" using parent_lifecycle_status_result [OF u] v(1) cal.R_trans by blast+
  have nd: "\<nexists>e. c = Some (DeletedParent e)" using assms(2) cu(2) v(1) by (simp add: deleted_def calm_def)
  have run: "eff_then (on_store (set_parent_marker key s claim)) (eff_then (on_state (drop_parent key))
      (eff_bind (on_store (eff_read (store_list (Some key)))) (\<lambda>rs. eff_count (withdraw key claim) rs))) (u, st) = (Inr n, (z, st1))"
    using b u nd by (auto simp: on_store_def split: option.splits ParentLifecycleStatus.splits)
  then obtain m where m: "set_parent_marker key s claim u = (Inr (), m)"
    and loop: "eff_count (withdraw key claim) (store_list (Some key) m) (m, drop_parent key st) = (Inr n, (z, st1))"
    by (auto simp: eff_then_Inr eff_bind_Inr on_store_def on_state_def split: prod.splits)
  have ku: "keyed u" using keyed_calm [OF cu(1)] assms(1) by simp
  then have km: "keyed m" using followsD [OF set_parent_marker_touches [OF assms(3)] m] by (simp add: touches_def)
  obtain e where e: "eff_status key m = Some (status_from_marker s e)" using set_parent_marker_status [OF m] by blast
  note l = withdraw_loop [OF current_store_list [OF km] km loop]
  have "keyed w1" using l keyed_calm [OF v(2)] by blast
  moreover have "eff_status key w1 = Some (status_from_marker s e)" using l e v(2) by (simp add: calm_def)
  moreover have "n = length (pending_for key (w, st))"
  proof -
    have "store_list (Some key) u = store_list (Some key) w" using cu(1) by (simp add: store_list_def calm_def)
    then show ?thesis
      using l set_parent_marker_pending [OF m ku assms(3), of "Some key"] by (simp add: pending_for_def oldest_first_def)
  qed
  moreover have "pending_for key (w1, st1) = []"
  proof (rule pending_empty [OF \<open>keyed w1\<close>])
    fix tid x assume x: "find_record tid w1 = Some x" "cr_state x = CPending"
    then have "find_record tid m = Some x" "tid \<notin> cr_task_id ` set (store_list (Some key) m)"
      using l calm_find [OF v(2), of tid] by auto
    moreover have "cr_task_id x = tid" using keyed_pending [OF km] x(2) calculation(1) by blast
    moreover have "x \<in> set (map snd (cw_records m))" using calculation(1) by (force simp: find_record_def dest: map_of_SomeD)
    ultimately show "cr_parent_key x \<noteq> key" by (auto simp: store_list_def)
  qed
  ultimately show ?thesis by blast
qed

section \<open>Guarantees\<close>


definition demo_world :: completion_world where
  "demo_world = \<lparr>cw_records = [], cw_gates = [], cw_epochs = [], cw_process_local = True, cw_lifecycle = [],
     cw_clock = (\<lambda>n. n), cw_reads = 0, cw_uuid = (\<lambda>n. replicate n (CHR ''u'')), cw_uuids = 0\<rparr>"

definition demo_record :: CompletionRecord where
  "demo_record = completion_new 3 ''task'' ''parent'' ''agent'' CSuccess (completion_result_text ''done'')"

lemma keyed_demo: "keyed demo_world"
  by (simp add: keyed_def demo_world_def find_record_def)




lemmas router_run_simps =
  close_parent_def cancel_parent_def delete_parent_def with_parent_gate_def on_store_def on_state_def eff_bind_def eff_then_def eff_finally_def
  gate_acquire_def acquire_native_def acquire_parent_gate_def renew_parent_gate_def release_parent_gate_def new_uuid_def now_def
  on_error_def release_gate_def gate_drop_def lifecycle_acquire_def lifecycle_release_def lifecycle_set_status_def
  lifecycle_entry_def lifecycle_status_def store_lifecycle_def parent_lifecycle_status_def marker_status_def find_record_def
  merge_status_def set_parent_marker_def put_fenced_def with_current_gate_def gate_is_current_def stamp_epoch_def
  insert_record_def checked_add_def sat_add_def PARENT_GATE_TTL_def tombstone_stub_def completion_new_def parent_marker_id_def
  marker_prefix_def status_from_marker_def drop_parent_def store_list_def withdraw_def unlease_def demo_world_def demo_record_def
  router_new_def Let_def


section \<open>Claims\<close>

lemma claim_each_result:
  "current rs w \<Longrightarrow> \<exists>w'. claim_each token vis t rs w = (Inr (map (claimed_by token vis t) rs), w') \<and>
    (\<forall>r \<in> set rs. find_record (cr_task_id r) w' = Some (claimed_by token vis t r)) \<and>
    (\<forall>tid. tid \<notin> cr_task_id ` set rs \<longrightarrow> find_record tid w' = find_record tid w)"
proof (induction rs arbitrary: w)
  case (Cons r rs)
  let ?r = "claimed_by token vis t r"
  let ?w = "insert_record ?r w"
  have id: "cr_task_id ?r = cr_task_id r" by (simp add: claimed_by_def)
  have u: "w\<lparr>cw_records := AList.update (cr_task_id r) ?r (cw_records w)\<rparr> = ?w" using id by (simp add: update_is_insert)
  obtain w' where w': "claim_each token vis t rs ?w = (Inr (map (claimed_by token vis t) rs), w')"
    "\<forall>x \<in> set rs. find_record (cr_task_id x) w' = Some (claimed_by token vis t x)"
    "\<forall>tid. tid \<notin> cr_task_id ` set rs \<longrightarrow> find_record tid w' = find_record tid ?w"
    using Cons.IH [OF current_insert [OF Cons.prems id]] by blast
  have d: "cr_task_id r \<notin> cr_task_id ` set rs" using Cons.prems by (simp add: current_def)
  have "claim_each token vis t (r # rs) w = (Inr (map (claimed_by token vis t) (r # rs)), w')"
    using current_hd [OF Cons.prems] w'(1) by (simp add: Let_def u)
  moreover have "find_record (cr_task_id r) w' = Some ?r" using w'(3) d id by (simp add: find_insert)
  ultimately show ?case using w'(2,3) id by (simp add: find_insert)
qed simp

lemma store_claim_pending_result:
  assumes "keyed w" "store_claim_pending key epoch gate mode limit token vis w = (Inr rs, w')"
  obtains v t where "calm w v"
    "rs = map (claimed_by token vis t) (case limit of None \<Rightarrow> oldest_first (filter (claimable key epoch mode t) (map snd (cw_records w)))
       | Some n \<Rightarrow> take n (oldest_first (filter (claimable key epoch mode t) (map snd (cw_records w)))))"
    "\<forall>r \<in> set rs. find_record (cr_task_id r) w' = Some r"
    "\<forall>tid. tid \<notin> cr_task_id ` set rs \<longrightarrow> find_record tid w' = find_record tid w"
proof -
  have n: "\<exists>t u. now v = (Inr t, u) \<and> calm v u" for v using calm_now(1) by (simp add: now_def follows_def)
  obtain t1 u1 where u1: "now w = (Inr t1, u1)" "calm w u1" using n by blast
  obtain t2 u2 where u2: "now u1 = (Inr t2, u2)" "calm u1 u2" using n by blast
  obtain t u where u: "now u2 = (Inr t, u)" "calm u2 u" using n by blast
  have c: "calm w u" using u1 u2 u cal.R_trans by blast
  then have rec: "cw_records u = cw_records w" by (simp add: calm_def)
  define cs where "cs = (case limit of None \<Rightarrow> oldest_first (filter (claimable key epoch mode t) (map snd (cw_records w)))
       | Some n \<Rightarrow> take n (oldest_first (filter (claimable key epoch mode t) (map snd (cw_records w)))))"
  have cur: "current cs u"
    unfolding cs_def current_calm [OF c]
    by (cases limit) (simp_all add: current_take current_oldest_first current_filter current_all assms(1))
  have "claim_each token vis t cs u = (Inr rs, w')"
    using assms(2) u1(1) u2(1) u(1)
    by (auto simp: store_claim_pending_def with_current_gate_def Let_def cs_def rec split: if_splits)
  then have r: "rs = map (claimed_by token vis t) cs" and
    f: "\<forall>r \<in> set cs. find_record (cr_task_id r) w' = Some (claimed_by token vis t r)"
    "\<forall>tid. tid \<notin> cr_task_id ` set cs \<longrightarrow> find_record tid w' = find_record tid u"
    using claim_each_result [OF cur, of token vis t] by auto
  have id: "cr_task_id (claimed_by token vis t r) = cr_task_id r" for r by (simp add: claimed_by_def)
  show thesis
    by (rule that [OF c, of t]) (use r f id calm_find [OF c] in \<open>auto simp: cs_def [symmetric] image_image\<close>)
qed

lemma resolve_without_claim:
  assumes "resolve rc res (w, st) = (Inr x, (w', st'))" "find_record (rc_task_id rc) w = Some r"
    and "map_option cl_token (cr_claim r) \<noteq> Some (rc_token rc)"
  shows "x = None \<and> cw_records w' = cw_records w"
proof -
  obtain gate v z where v: "calm w v" "calm z w'"
    and s: "on_store (store_resolve_claim rc gate res) (v, st) = (Inr x, (z, st'))"
    using assms(1) unfolding resolve_def by (rule with_parent_gate_Inr)
  have n: "\<exists>t u. now y = (Inr t, u) \<and> calm y u" for y using calm_now(1) by (simp add: now_def follows_def)
  obtain t1 u1 where u1: "now v = (Inr t1, u1)" "calm v u1" using n by blast
  obtain t2 u2 where u2: "now u1 = (Inr t2, u2)" "calm u1 u2" using n by blast
  obtain t u where u: "now u2 = (Inr t, u)" "calm u2 u" using n by blast
  have c: "calm w u2" "calm w u" using u1 u2 u v cal.R_trans by blast+
  have no: "\<not> owns_claim (rc_token rc) t r" for t using assms(3) by (auto simp: owns_claim_def split: option.splits)
  have "store_resolve_claim rc gate res v = (Inr x, z)" using s by (simp add: on_store_def split: prod.splits)
  then have "x = None" "z = u"
    using u1(1) u2(1) u(1) no assms(2) calm_find [OF c(1)]
    by (auto simp: store_resolve_claim_def with_current_gate_def split: if_splits)
  then show ?thesis using c(2) v(2) by (simp add: calm_def)
qed


definition demo_gate :: ParentGateClaim where "demo_gate = \<lparr>pg_holder = ''h'', pg_epoch = 1\<rparr>"

definition demo_pending :: completion_world where
  "demo_pending = (insert_record (demo_record\<lparr>cr_parent_epoch := 1\<rparr>) demo_world)
     \<lparr>cw_gates := [(''parent'', \<lparr>mg_claim = demo_gate, mg_expires_at = 1000\<rparr>)]\<rparr>"

lemma keyed_demo_pending: "keyed demo_pending"
proof -
  have "keyed (insert_record (demo_record\<lparr>cr_parent_epoch := 1\<rparr>) demo_world)"
    by (rule keyed_write [OF keyed_demo]) (simp add: demo_record_def completion_new_def marker_prefix_def)
  then show ?thesis by (simp add: demo_pending_def keyed_def find_record_def)
qed


text \<open>C20. A receipt settles nothing once its claim is gone: delivering, failing or releasing with a receipt
  whose token is not that of the record's current claim changes no record and reports that nothing was
  resolved, so of two holders of one completion at most the later can settle it.\<close>

theorem stale_receipt_settles_nothing:
  assumes "find_record (rc_task_id rc) w = Some r" "map_option cl_token (cr_claim r) \<noteq> Some (rc_token rc)"
    and "resolve rc res (w, st) = (Inr x, (w', st'))"
  shows "x = None \<and> cw_records w' = cw_records w"
  by (rule resolve_without_claim [OF assms(3,1,2)])

theorem stale_receipt_settles_nothing_witness:
  "let rc = \<lparr>rc_task_id = ''task'', rc_parent_key = ''parent'', rc_parent_epoch = 1, rc_token = ''old''\<rparr>;
       w = insert_record (demo_record\<lparr>cr_parent_epoch := 1, cr_claim := Some \<lparr>cl_token = ''new'', cl_visible_after = 99\<rparr>\<rparr>) demo_world in
    fst (resolve rc ResolveDelivered (w, router_new)) = Inr None \<and>
    cw_records (fst (snd (resolve rc ResolveDelivered (w, router_new)))) = cw_records w"
proof -
  let ?rc = "\<lparr>rc_task_id = ''task'', rc_parent_key = ''parent'', rc_parent_epoch = 1, rc_token = ''old''\<rparr>"
  let ?r = "demo_record\<lparr>cr_parent_epoch := 1, cr_claim := Some \<lparr>cl_token = ''new'', cl_visible_after = 99\<rparr>\<rparr>"
  let ?w = "insert_record ?r demo_world"
  have run: "fst (resolve ?rc ResolveDelivered (?w, router_new)) = Inr None"
    by (simp add: resolve_def store_resolve_claim_def owns_claim_def router_run_simps)
  obtain w' st' where c: "resolve ?rc ResolveDelivered (?w, router_new) = (Inr None, (w', st'))"
    using run by (metis prod.collapse)
  have f: "find_record (rc_task_id ?rc) ?w = Some ?r"
    by (simp add: find_insert demo_record_def completion_new_def)
  show ?thesis using stale_receipt_settles_nothing [OF f _ c] c by (simp add: Let_def)
qed

end
