(* ===== verification/Transcript.thy ===== *)
theory Transcript
  imports Prelude
begin

text \<open>
  The working transcript of a run and the events that announce it:
  \<open>tinyagents-harness/src/agent_loop/lifecycle.rs\<close>.

  \<open>Message\<close> and \<open>ToolCall\<close> belong to the inference crate; the model has the constructors and fields the
  harness matches on, and leaves the content of a message a type parameter.  The payload of an event is
  the message itself instead of its JSON text.  An event sink is the list of the events emitted so far.

  A listener that follows the events is the reference: \<open>follow\<close> rebuilds the transcript from them.  The
  entry of a message it cannot know (after an in-place rewrite, which is announced without its content)
  is \<open>None\<close>.
\<close>

section \<open>Messages and events\<close>

record ToolCall =
  tc_id :: string
  tc_name :: string
  tc_invalid :: "string option"

datatype 'c Message =
  SystemMessage 'c | UserMessage 'c | AssistantMessage 'c "ToolCall list" | ToolMessage string 'c | CustomMessage 'c

record PayloadCapture =
  model_io :: bool
  tool_io :: bool

datatype 'c turn_event =
  MessageAppended string nat "string option" "'c Message option"
| MessageRetracted nat
| TranscriptRewritten nat string
| TurnStarted u32
| TurnCompleted u32 nat "string list"

record TurnTracker =
  seed_len :: nat
  announced :: nat
  turn_number :: u32
  open_turn :: "(u32 \<times> nat) option"

type_synonym 'c announcing = "TurnTracker \<times> 'c turn_event list"

fun role_of :: "'c Message \<Rightarrow> string" where
  "role_of (SystemMessage _) = ''system''"
| "role_of (UserMessage _) = ''user''"
| "role_of (AssistantMessage _ _) = ''assistant''"
| "role_of (ToolMessage _ _) = ''tool''"
| "role_of (CustomMessage _) = ''custom''"

definition turn_tracker_new :: "nat \<Rightarrow> TurnTracker" where
  "turn_tracker_new n = \<lparr>seed_len = n, announced = n, turn_number = 0, open_turn = None\<rparr>"

definition announce :: "PayloadCapture \<Rightarrow> nat \<times> 'c Message \<Rightarrow> 'c turn_event" where
  "announce capture = (\<lambda>(index, message).
     let (call_id, captured) =
       (case message of ToolMessage tid _ \<Rightarrow> (Some tid, tool_io capture) | _ \<Rightarrow> (None, model_io capture)) in
     MessageAppended (role_of message) index call_id (if captured then Some message else None))"

definition flush :: "PayloadCapture \<Rightarrow> 'c Message list \<Rightarrow> 'c announcing \<Rightarrow> 'c announcing" where
  "flush capture messages = (\<lambda>(t, log).
     let start = (if length messages < announced t then length messages else announced t) in
     (t\<lparr>announced := length messages\<rparr>, log @ map (announce capture) (enumerate start (drop start messages))))"

definition clip_open :: "nat \<Rightarrow> TurnTracker \<Rightarrow> TurnTracker" where
  "clip_open new_len t = t\<lparr>open_turn := map_option (\<lambda>(n, start). (n, min start new_len)) (open_turn t)\<rparr>"

definition retract_to :: "nat \<Rightarrow> 'c announcing \<Rightarrow> 'c announcing" where
  "retract_to new_len = (\<lambda>(t, log).
     let keep = max new_len (seed_len t) in
     (clip_open new_len (t\<lparr>announced := min (announced t) keep\<rparr>),
      log @ map MessageRetracted (rev [keep..<announced t])))"

definition rebase :: "nat \<Rightarrow> string \<Rightarrow> 'c announcing \<Rightarrow> 'c announcing" where
  "rebase new_len reason = (\<lambda>(t, log).
     (clip_open new_len (t\<lparr>announced := new_len\<rparr>), log @ [TranscriptRewritten new_len reason]))"

fun tool_ids :: "'c Message list \<Rightarrow> string list" where
  "tool_ids [] = []"
| "tool_ids (ToolMessage tid _ # ms) = tid # tool_ids ms"
| "tool_ids (_ # ms) = tool_ids ms"

definition close_turn :: "PayloadCapture \<Rightarrow> 'c Message list \<Rightarrow> 'c announcing \<Rightarrow> 'c announcing" where
  "close_turn capture messages s =
     (let (t, log) = flush capture messages s in
      case open_turn t of
        None \<Rightarrow> (t, log)
      | Some (n, start) \<Rightarrow>
          let ids = (if start \<le> length messages then tool_ids (drop start messages) else []) in
          (t\<lparr>open_turn := None\<rparr>, log @ [TurnCompleted n (length ids) ids]))"

definition start_turn :: "PayloadCapture \<Rightarrow> 'c Message list \<Rightarrow> 'c announcing \<Rightarrow> u32 \<times> 'c announcing" where
  "start_turn capture messages s =
     (let (t, log) = close_turn capture messages s;
          n = turn_number t + 1 in
      (n, (t\<lparr>turn_number := n, open_turn := Some (n, length messages)\<rparr>, log @ [TurnStarted n])))"

section \<open>A listener\<close>

fun follow_one :: "'c turn_event \<Rightarrow> 'c Message option list \<Rightarrow> 'c Message option list" where
  "follow_one (MessageAppended _ i _ m) seen = take i seen @ [m]"
| "follow_one (MessageRetracted i) seen = take i seen"
| "follow_one (TranscriptRewritten n _) seen = replicate n None"
| "follow_one (TurnStarted _) seen = seen"
| "follow_one (TurnCompleted _ _ _) seen = seen"

definition follow :: "'c turn_event list \<Rightarrow> 'c Message option list \<Rightarrow> 'c Message option list" where
  "follow = fold follow_one"

lemma follow_append: "follow (xs @ ys) seen = follow ys (follow xs seen)"
  by (simp add: follow_def)

lemma follow_simps [simp]: "follow [] seen = seen" "follow (e # es) seen = follow es (follow_one e seen)"
  by (simp_all add: follow_def)

text \<open>What the loop does to its transcript: it appends messages, drops the last one and says so, replaces
  the whole transcript after announcing what is pending, and opens and closes turns.\<close>

datatype 'c transcript_op =
  Append "'c Message list" | DropLast | Rewrite "'c Message list" string | Flush | StartTurn | CloseTurn

fun transcript_step :: "PayloadCapture \<Rightarrow> 'c transcript_op \<Rightarrow> 'c Message list \<times> 'c announcing \<Rightarrow> 'c Message list \<times> 'c announcing" where
  "transcript_step capture (Append new) (ms, s) = (ms @ new, s)"
| "transcript_step capture DropLast (ms, s) =
     (if length ms > seed_len (fst s) then (butlast ms, retract_to (length ms - 1) s) else (ms, s))"
| "transcript_step capture (Rewrite new reason) (ms, s) = (new, rebase (length new) reason (flush capture ms s))"
| "transcript_step capture Flush (ms, s) = (ms, flush capture ms s)"
| "transcript_step capture StartTurn (ms, s) = (ms, snd (start_turn capture ms s))"
| "transcript_step capture CloseTurn (ms, s) = (ms, close_turn capture ms s)"

definition run_transcript :: "PayloadCapture \<Rightarrow> 'c transcript_op list \<Rightarrow> 'c Message list \<Rightarrow> 'c Message list \<times> 'c announcing" where
  "run_transcript capture ops seed = fold (transcript_step capture) ops (seed, (turn_tracker_new (length seed), []))"

text \<open>A rewrite keeps at least the seed.\<close>

fun op_ok :: "nat \<Rightarrow> 'c transcript_op \<Rightarrow> bool" where
  "op_ok seed (Rewrite new _) \<longleftrightarrow> seed \<le> length new"
| "op_ok seed _ \<longleftrightarrow> True"

definition agrees :: "'c Message option list \<Rightarrow> 'c Message list \<Rightarrow> bool" where
  "agrees seen ms \<longleftrightarrow> length seen = length ms \<and> (\<forall>i < length ms. seen ! i = None \<or> seen ! i = Some (ms ! i))"

definition transcript_inv :: "'c Message list \<Rightarrow> 'c Message list \<times> 'c announcing \<Rightarrow> bool" where
  "transcript_inv seed = (\<lambda>(ms, (t, log)).
     seed_len t = length seed \<and> length seed \<le> announced t \<and> announced t \<le> length ms \<and>
     agrees (follow log (map Some seed)) (take (announced t) ms))"

lemma agrees_snoc: "agrees seen ms \<Longrightarrow> m = None \<or> m = Some x \<Longrightarrow> agrees (seen @ [m]) (ms @ [x])"
  by (auto simp: agrees_def nth_append less_Suc_eq)

lemma agrees_take: "agrees seen ms \<Longrightarrow> agrees (take n seen) (take n ms)"
  by (auto simp: agrees_def)

lemma agrees_None: "agrees (replicate (length ms) None) ms"
  by (simp add: agrees_def)

lemma announce_cases:
  obtains r c m' where "announce capture (i, m) = MessageAppended r i c m'" "m' = None \<or> m' = Some m"
  by (cases m) (auto simp: announce_def Let_def)

lemma announce_captured:
  "model_io capture \<Longrightarrow> tool_io capture \<Longrightarrow> \<exists>r c. announce capture (i, m) = MessageAppended r i c (Some m)"
  by (cases m) (auto simp: announce_def Let_def)

lemma follow_announcements:
  "agrees seen ms \<Longrightarrow> agrees (follow (map (announce capture) (enumerate (length ms) new)) seen) (ms @ new)"
proof (induction new arbitrary: seen ms)
  case (Cons x new)
  obtain r c m' where a: "announce capture (length ms, x) = MessageAppended r (length ms) c m'" "m' = None \<or> m' = Some x"
    by (rule announce_cases)
  have "take (length ms) seen = seen" using Cons.prems by (simp add: agrees_def)
  then have "follow_one (announce capture (length ms, x)) seen = seen @ [m']" using a(1) by simp
  moreover have "agrees (seen @ [m']) (ms @ [x])" using agrees_snoc [OF Cons.prems a(2)] .
  ultimately show ?case using Cons.IH [of "seen @ [m']" "ms @ [x]"] by simp
qed simp

lemma follow_captured:
  assumes "model_io capture" "tool_io capture"
  shows "follow (map (announce capture) (enumerate (length ms) new)) (map Some ms) = map Some (ms @ new)"
proof (induction new arbitrary: ms)
  case (Cons x new)
  obtain r c where a: "announce capture (length ms, x) = MessageAppended r (length ms) c (Some x)"
    using announce_captured [OF assms] by blast
  show ?case using Cons.IH [of "ms @ [x]"] by (simp add: a)
qed simp

lemma follow_retractions: "follow (map MessageRetracted (rev [k..<n])) seen = (if k < n then take k seen else seen)"
proof (induction n arbitrary: seen)
  case (Suc n)
  then show ?case by (auto simp: min_def less_Suc_eq)
qed simp

lemma flush_inv:
  assumes "transcript_inv seed (ms, s)"
  shows "transcript_inv seed (ms, flush capture ms s) \<and> announced (fst (flush capture ms s)) = length ms"
proof -
  obtain t log where s: "s = (t, log)" by fastforce
  let ?a = "announced t"
  have a: "?a \<le> length ms" and i: "agrees (follow log (map Some seed)) (take ?a ms)"
    using assms by (simp_all add: transcript_inv_def s)
  have "agrees (follow (map (announce capture) (enumerate (length (take ?a ms)) (drop ?a ms))) (follow log (map Some seed)))
      (take ?a ms @ drop ?a ms)" by (rule follow_announcements [OF i])
  moreover have "length (take ?a ms) = ?a" using a by simp
  ultimately show ?thesis using assms a by (simp add: transcript_inv_def s flush_def Let_def follow_append)
qed

lemma close_inv:
  assumes "transcript_inv seed (ms, s)"
  shows "transcript_inv seed (ms, close_turn capture ms s) \<and> announced (fst (close_turn capture ms s)) = length ms"
  using flush_inv [OF assms, of capture]
  by (cases "flush capture ms s")
    (auto simp: close_turn_def Let_def transcript_inv_def follow_append split: option.splits)

lemma transcript_step_inv:
  assumes "transcript_inv seed x" "op_ok (length seed) op"
  shows "transcript_inv seed (transcript_step capture op x)"
proof -
  obtain ms t log where x: "x = (ms, (t, log))" by (cases x) auto
  note i = assms(1) [unfolded x]
  show ?thesis
  proof (cases op)
    case (Append new)
    then show ?thesis using i by (simp add: x transcript_inv_def)
  next
    case DropLast
    show ?thesis
    proof (cases "length ms > seed_len t")
      case True
      let ?n = "length ms - 1"
      have n: "max ?n (seed_len t) = ?n" using True by simp
      have b: "take k (butlast ms) = take k (take ?n ms)" for k by (simp add: butlast_conv_take)
      show ?thesis
      proof (cases "?n < announced t")
        case True
        moreover have "announced t \<le> length ms" using i by (simp add: transcript_inv_def)
        ultimately have "announced t = length ms" by linarith
        moreover have "?n < length ms" "length seed \<le> ?n" using \<open>length ms > seed_len t\<close> i by (auto simp: transcript_inv_def)
        ultimately show ?thesis
          using i DropLast \<open>length ms > seed_len t\<close> n agrees_take [of "follow log (map Some seed)" ms ?n]
          by (simp add: x transcript_inv_def retract_to_def clip_open_def follow_append follow_retractions Let_def butlast_conv_take)
      next
        case False
        then show ?thesis
          using i DropLast \<open>length ms > seed_len t\<close> n
          by (simp add: x transcript_inv_def retract_to_def clip_open_def follow_append follow_retractions Let_def butlast_conv_take min_def)
      qed
    qed (use DropLast i in \<open>simp add: x\<close>)
  next
    case (Rewrite new reason)
    obtain t' log' where f: "flush capture ms (t, log) = (t', log')" by fastforce
    then have "seed_len t' = length seed" using flush_inv [OF i, of capture] by (simp add: transcript_inv_def)
    then show ?thesis
      using assms(2) Rewrite f agrees_None [of new]
      by (simp add: x transcript_inv_def rebase_def clip_open_def follow_append)
  next
    case Flush
    then show ?thesis using flush_inv [OF i] by (simp add: x)
  next
    case StartTurn
    obtain t' log' where c: "close_turn capture ms (t, log) = (t', log')" by fastforce
    then show ?thesis
      using StartTurn close_inv [OF i, of capture] by (auto simp: x start_turn_def Let_def transcript_inv_def follow_append)
  next
    case CloseTurn
    then show ?thesis using close_inv [OF i] by (simp add: x)
  qed
qed

lemma run_transcript_snoc:
  "run_transcript capture (ops @ [op]) seed = transcript_step capture op (run_transcript capture ops seed)"
  by (simp add: run_transcript_def)

lemma run_transcript_inv: "(\<forall>op \<in> set ops. op_ok (length seed) op) \<Longrightarrow> transcript_inv seed (run_transcript capture ops seed)"
proof (induction ops rule: rev_induct)
  case Nil
  then show ?case by (simp add: run_transcript_def transcript_inv_def turn_tracker_new_def agrees_def)
next
  case (snoc op ops)
  then show ?case by (simp add: run_transcript_snoc transcript_step_inv)
qed

text \<open>With both payloads captured and no rewrite, the listener knows every message.\<close>

fun is_rewrite :: "'c transcript_op \<Rightarrow> bool" where
  "is_rewrite (Rewrite _ _) \<longleftrightarrow> True"
| "is_rewrite _ \<longleftrightarrow> False"

lemma agrees_known: "agrees seen ms \<Longrightarrow> None \<notin> set seen \<Longrightarrow> seen = map Some ms"
  unfolding agrees_def by (metis (no_types, lifting) length_map nth_equalityI nth_map nth_mem)

fun known_event :: "'c turn_event \<Rightarrow> bool" where
  "known_event (MessageAppended _ _ _ m) \<longleftrightarrow> m \<noteq> None"
| "known_event (TranscriptRewritten _ _) \<longleftrightarrow> False"
| "known_event _ \<longleftrightarrow> True"

lemma follow_known: "list_all known_event es \<Longrightarrow> None \<notin> set seen \<Longrightarrow> None \<notin> set (follow es seen)"
proof (induction es arbitrary: seen)
  case (Cons e es)
  have "None \<notin> set (follow_one e seen)"
    using Cons.prems by (cases e) (auto dest: in_set_takeD)
  then show ?case using Cons by simp
qed simp

lemma known_steps:
  assumes "model_io capture" "tool_io capture"
  shows "list_all known_event log \<Longrightarrow> list_all known_event (snd (flush capture ms (t, log)))"
    and "list_all known_event log \<Longrightarrow> list_all known_event (snd (close_turn capture ms (t, log)))"
proof -
  have k: "known_event (announce capture (i, m))" for i m using announce_captured [OF assms, of i m] by auto
  show f: "list_all known_event (snd (flush capture ms (t, log)))" if "list_all known_event log"
    using that k by (auto simp: flush_def Let_def list_all_iff simp del: list.pred_map)
  show "list_all known_event (snd (close_turn capture ms (t, log)))" if "list_all known_event log"
    using f [OF that] by (auto simp: close_turn_def Let_def split: prod.splits option.splits)
qed

lemma run_known:
  assumes "model_io capture" "tool_io capture"
  shows "(\<forall>op \<in> set ops. \<not> is_rewrite op) \<Longrightarrow> list_all known_event (snd (snd (run_transcript capture ops seed)))"
proof (induction ops rule: rev_induct)
  case (snoc op ops)
  obtain ms t log where x: "run_transcript capture ops seed = (ms, (t, log))" by (cases "run_transcript capture ops seed") auto
  have l: "list_all known_event log" using snoc x by simp
  obtain t' log' where c: "close_turn capture ms (t, log) = (t', log')" by (cases "close_turn capture ms (t, log)")
  have l': "list_all known_event log'" using known_steps(2) [OF assms l, of ms t] c by simp
  show ?case
    using l l' snoc.prems known_steps(1) [OF assms l, of ms t] c
    by (cases op) (auto simp: run_transcript_snoc x retract_to_def start_turn_def Let_def list_all_iff)
qed (simp add: run_transcript_def)

section \<open>The events tell the transcript\<close>

text \<open>C11. A listener that follows the message events of a run, started from the seed, has after a flush as
  many entries as the transcript and agrees with it on every message it knows, whatever the loop appended,
  dropped or rewrote; if payloads are captured and nothing was rewritten, it knows every message.\<close>

theorem listener_rebuilds_transcript:
  assumes "\<forall>op \<in> set ops. op_ok (length seed) op"
  shows "case run_transcript capture (ops @ [Flush]) seed of (ms, (t, log)) \<Rightarrow>
    agrees (follow log (map Some seed)) ms \<and> announced t = length ms \<and>
    (model_io capture \<and> tool_io capture \<and> (\<forall>op \<in> set ops. \<not> is_rewrite op) \<longrightarrow> follow log (map Some seed) = map Some ms)"
proof -
  obtain ms s where x: "run_transcript capture ops seed = (ms, s)" by (cases "run_transcript capture ops seed")
  obtain t log where f: "flush capture ms s = (t, log)" by (cases "flush capture ms s")
  have i: "transcript_inv seed (ms, (t, log))" and n: "announced t = length ms"
    using flush_inv [of seed ms s capture] run_transcript_inv [OF assms, of capture] f by (simp_all add: x)
  have run: "run_transcript capture (ops @ [Flush]) seed = (ms, (t, log))" by (simp add: run_transcript_snoc x f)
  have a: "agrees (follow log (map Some seed)) ms" using i n by (simp add: transcript_inv_def)
  have "follow log (map Some seed) = map Some ms"
    if "model_io capture" "tool_io capture" "\<forall>op \<in> set ops. \<not> is_rewrite op"
  proof -
    have "list_all known_event log"
      using run_known [OF that(1,2), of "ops @ [Flush]" seed] that(3) run by auto
    then show ?thesis using agrees_known [OF a] follow_known by fastforce
  qed
  then show ?thesis using a n by (simp add: run)
qed

theorem listener_rebuilds_transcript_witness:
  "let capture = \<lparr>model_io = True, tool_io = True\<rparr>;
       ops = [StartTurn, Append [AssistantMessage ''call'' [\<lparr>tc_id = ''1'', tc_name = ''t'', tc_invalid = None\<rparr>]], Flush,
              DropLast, Append [UserMessage ''again''], CloseTurn, Append [ToolMessage ''1'' ''ok'']] in
    case run_transcript capture (ops @ [Flush]) [UserMessage ''hello''] of (ms, (t, log)) \<Rightarrow>
      ms = [UserMessage ''hello'', UserMessage ''again'', ToolMessage ''1'' ''ok''] \<and>
      follow log [Some (UserMessage ''hello'')] = map Some ms"
proof -
  let ?ops = "[StartTurn, Append [AssistantMessage ''call'' [\<lparr>tc_id = ''1'', tc_name = ''t'', tc_invalid = None\<rparr>]], Flush,
              DropLast, Append [UserMessage ''again''], CloseTurn, Append [ToolMessage ''1'' ''ok'']]"
  have "fst (run_transcript \<lparr>model_io = True, tool_io = True\<rparr> (?ops @ [Flush]) [UserMessage ''hello'']) =
      [UserMessage ''hello'', UserMessage ''again'', ToolMessage ''1'' ''ok'']"
    by (simp add: run_transcript_def turn_tracker_new_def start_turn_def close_turn_def flush_def retract_to_def clip_open_def Let_def)
  then show ?thesis
    using listener_rebuilds_transcript [of ?ops "[UserMessage ''hello'']" "\<lparr>model_io = True, tool_io = True\<rparr>"]
    by (auto simp: Let_def split: prod.splits)
qed

end
