(* ===== verification/Recovery.thy ===== *)
theory Recovery
  imports Errors Limits Transcript "HOL-Library.List_Lexorder" "HOL-Library.Char_ord"
begin

text \<open>
  Recovery of a turn whose response cannot be taken at face value:
  \<open>tinyagents-harness/src/agent_loop/turn_recovery.rs\<close> and \<open>agent_loop/response_recovery.rs\<close>.

  \<open>TurnRecovery\<close> holds the counters of the logical turn in flight.  \<open>recover_unusable_response\<close> looks at a
  response without a real tool call and either lets it stand, asks for another model call, or fails;
  \<open>reject_truncated_tool_calls\<close> looks at the calls of a response that hit the output limit.

  The four computations the code does in floating point (the rate of the dead call, its projection to
  another cap, the comparison with half the remaining clock and the cap that fits there) are the fields of
  \<open>rate_port\<close>; nothing is assumed of them.  The clock that is left and the time are arguments, in
  milliseconds.  The events of the message tracker and those of the recovery are kept in two logs.  The
  status snapshot, which repeats the last event, is left out, and so is the branch of
  \<open>reject_truncated_tool_calls\<close> that fails the whole turn through the tool pipeline: it is the outcome
  \<open>StructuredCut\<close>.
\<close>

section \<open>State\<close>

definition TRUNCATED_NUDGE_CAP_FLOOR :: u32 where "TRUNCATED_NUDGE_CAP_FLOOR = 2048"
definition TRUNCATED_CLOCK_NUDGE_LIMIT :: u32 where "TRUNCATED_CLOCK_NUDGE_LIMIT = 6"

record TurnRecovery =
  truncated_empty_retries_used :: u32
  truncated_empty_nudges_used :: u32
  empty_response_retries_used :: u32
  dropped_tool_call_nudges_used :: u32
  withheld_call_nudges_used :: u32
  truncated_tool_call_retries_used :: u32
  truncated_tool_names :: "string set"
  truncated_repeat_names :: "string set"
  boosted_max_tokens :: "u32 option"
  truncation_base :: "u32 option"
  reasoning_off_next :: bool
  dead_calls_this_run :: u32
  reasoning_off_sticky :: bool

definition default_recovery :: TurnRecovery where
  "default_recovery = \<lparr>truncated_empty_retries_used = 0, truncated_empty_nudges_used = 0, empty_response_retries_used = 0,
     dropped_tool_call_nudges_used = 0, withheld_call_nudges_used = 0, truncated_tool_call_retries_used = 0,
     truncated_tool_names = {}, truncated_repeat_names = {}, boosted_max_tokens = None, truncation_base = None,
     reasoning_off_next = False, dead_calls_this_run = 0, reasoning_off_sticky = False\<rparr>"

record RecoveryPolicy =
  dropped_tool_call_nudges :: u32
  truncated_empty_retries :: u32
  truncated_empty_constant_cap :: bool
  truncated_empty_reasoning_off :: bool
  truncated_empty_reasoning_off_sticky_after :: u32
  truncated_empty_nudges :: u32
  empty_response_retries :: u32
  policy_rejects_truncated :: bool
  truncated_tool_call_retries :: u32

record rate_port =
  projected_ms :: "u64 \<Rightarrow> u64 \<Rightarrow> u32 \<Rightarrow> u64"
  prorated_ms :: "u64 \<Rightarrow> u32 \<Rightarrow> u32 \<Rightarrow> u64"
  within_share :: "u64 \<Rightarrow> nat \<Rightarrow> bool"
  affordable_tokens :: "u64 \<Rightarrow> u64 \<Rightarrow> nat \<Rightarrow> u64"

section \<open>The plan of a retry\<close>

record TruncatedRetryPlan =
  pl_current :: "u32 option"
  pl_next :: "u32 option"
  pl_base :: "u32 option"
  pl_dead_tokens :: u64
  pl_dead_ms :: u64
  pl_remaining :: "nat option"
  pl_first_retry :: bool
  pl_constant_cap :: bool

definition rate_known :: "TruncatedRetryPlan \<Rightarrow> bool" where
  "rate_known p \<longleftrightarrow> pl_dead_tokens p > 0 \<and> pl_dead_ms p > 0"

definition cap_grows :: "TruncatedRetryPlan \<Rightarrow> bool" where
  "cap_grows p = (case (pl_current p, pl_next p) of (Some c, Some n) \<Rightarrow> n > c | _ \<Rightarrow> True)"

definition expected_ms :: "rate_port \<Rightarrow> TruncatedRetryPlan \<Rightarrow> u64" where
  "expected_ms port p =
     (case pl_next p of
        None \<Rightarrow> pl_dead_ms p
      | Some next_cap \<Rightarrow>
          if rate_known p then projected_ms port (pl_dead_ms p) (pl_dead_tokens p) next_cap
          else case pl_current p of
                 Some c \<Rightarrow> if c > 0 then prorated_ms port (pl_dead_ms p) next_cap c else pl_dead_ms p
               | None \<Rightarrow> pl_dead_ms p)"

definition fits_clock :: "rate_port \<Rightarrow> TruncatedRetryPlan \<Rightarrow> bool" where
  "fits_clock port p = (case pl_remaining p of Some r \<Rightarrow> within_share port (expected_ms port p) r | None \<Rightarrow> True)"

definition worth_it :: "rate_port \<Rightarrow> TruncatedRetryPlan \<Rightarrow> bool" where
  "worth_it port p \<longleftrightarrow> (pl_first_retry p \<or> pl_constant_cap p \<or> cap_grows p) \<and> fits_clock port p"

definition show_u32 :: "u32 \<Rightarrow> string" where "show_u32 n = show_nat (unat n)"

definition skip_reason :: "rate_port \<Rightarrow> TruncatedRetryPlan \<Rightarrow> string" where
  "skip_reason port p =
     (if \<not> pl_first_retry p \<and> \<not> pl_constant_cap p \<and> \<not> cap_grows p
      then ''the output cap is already at its ceiling ('' @
             (case pl_current p of None \<Rightarrow> ''unset'' | Some c \<Rightarrow> show_u32 c) @
             ''); re-sending the same transcript at the same cap fails the same way''
      else ''a retry at '' @ (case pl_next p of None \<Rightarrow> ''the same cap'' | Some c \<Rightarrow> show_u32 c) @
             '' tokens would run about '' @ show_nat (unat (expected_ms port p) div 1000) @
             ''s at the rate of the call that just died, more than half the '' @
             show_nat (case pl_remaining p of None \<Rightarrow> 0 | Some r \<Rightarrow> r div 1000) @ ''s left'')"

definition affordable_cap :: "rate_port \<Rightarrow> TruncatedRetryPlan \<Rightarrow> u32 option" where
  "affordable_cap port p =
     (case (pl_current p, pl_remaining p) of
        (Some current, Some remaining) \<Rightarrow>
          if rate_known p
          then let affordable = affordable_tokens port (pl_dead_ms p) (pl_dead_tokens p) remaining;
                   floor_cap = max (min (case pl_base p of None \<Rightarrow> current | Some b \<Rightarrow> b) current) 1 in
               (if affordable \<ge> ucast floor_cap then Some (ucast (min affordable (ucast current))) else None)
          else None
      | _ \<Rightarrow> None)"

definition halved_cap :: "TruncatedRetryPlan \<Rightarrow> u32 option" where
  "halved_cap p = map_option (\<lambda>current. min (max (current div 2) TRUNCATED_NUDGE_CAP_FLOOR) current) (pl_current p)"

definition nudge_cap :: "rate_port \<Rightarrow> TruncatedRetryPlan \<Rightarrow> u32 option" where
  "nudge_cap port p =
     (case halved_cap p of
        None \<Rightarrow> None
      | Some halved \<Rightarrow>
          (case pl_remaining p of
             Some remaining \<Rightarrow>
               if rate_known p
               then let affordable = affordable_tokens port (pl_dead_ms p) (pl_dead_tokens p) remaining;
                        minimum = min halved TRUNCATED_NUDGE_CAP_FLOOR in
                    (if affordable \<ge> ucast minimum then Some (min halved (ucast (min affordable (ucast (- 1 :: u32))))) else None)
               else Some halved
           | None \<Rightarrow> Some halved))"

definition another_nudge_fits :: "rate_port \<Rightarrow> TruncatedRetryPlan \<Rightarrow> bool" where
  "another_nudge_fits port p =
     (case pl_remaining p of
        None \<Rightarrow> False
      | Some remaining \<Rightarrow>
          (case pl_current p of
             None \<Rightarrow> within_share port (pl_dead_ms p) remaining
           | Some _ \<Rightarrow>
               (case nudge_cap port p of
                  None \<Rightarrow> False
                | Some cap \<Rightarrow>
                    within_share port
                      (if rate_known p then projected_ms port (pl_dead_ms p) (pl_dead_tokens p) cap else pl_dead_ms p)
                      remaining)))"

definition truncated_retry_plan :: "u32 option \<Rightarrow> u64 \<Rightarrow> u64 \<Rightarrow> nat option \<Rightarrow> bool \<Rightarrow> TurnRecovery \<Rightarrow> TruncatedRetryPlan" where
  "truncated_retry_plan attempt_cap dead_tokens dead_ms remaining constant_cap t =
     (let first_retry = (truncated_empty_retries_used t = 0) in
      \<lparr>pl_current = (case boosted_max_tokens t of Some b \<Rightarrow> Some b | None \<Rightarrow> attempt_cap),
       pl_next = map_option (\<lambda>sent.
         let base = (case truncation_base t of Some b \<Rightarrow> b | None \<Rightarrow> sent);
             current = (case boosted_max_tokens t of Some b \<Rightarrow> b | None \<Rightarrow> sent) in
         if first_retry \<or> constant_cap then current else min (sat_mul current 2) (sat_mul base 4)) attempt_cap,
       pl_base = (case truncation_base t of Some b \<Rightarrow> Some b | None \<Rightarrow> attempt_cap),
       pl_dead_tokens = dead_tokens, pl_dead_ms = dead_ms, pl_remaining = remaining,
       pl_first_retry = first_retry, pl_constant_cap = constant_cap\<rparr>)"

section \<open>Counters\<close>

definition take_truncated_retry :: "u32 option \<Rightarrow> TruncatedRetryPlan \<Rightarrow> TurnRecovery \<Rightarrow> TurnRecovery" where
  "take_truncated_retry attempt_cap p t =
     (let t' = t\<lparr>truncated_empty_retries_used := truncated_empty_retries_used t + 1\<rparr> in
      case attempt_cap of
        None \<Rightarrow> t'
      | Some sent \<Rightarrow>
          t'\<lparr>truncation_base := Some (case truncation_base t of Some b \<Rightarrow> b | None \<Rightarrow> sent), boosted_max_tokens := pl_next p\<rparr>)"

definition boost_max_tokens :: "u32 option \<Rightarrow> TurnRecovery \<Rightarrow> TurnRecovery" where
  "boost_max_tokens attempt_cap t =
     (case attempt_cap of
        None \<Rightarrow> t
      | Some sent \<Rightarrow>
          let base = (case truncation_base t of Some b \<Rightarrow> b | None \<Rightarrow> sent) in
          t\<lparr>truncation_base := Some base,
            boosted_max_tokens := Some (min (sat_mul (case boosted_max_tokens t of Some b \<Rightarrow> b | None \<Rightarrow> sent) 2) (sat_mul base 4))\<rparr>)"

definition reset_truncated_empty :: "TurnRecovery \<Rightarrow> TurnRecovery" where
  "reset_truncated_empty t = t\<lparr>truncated_empty_retries_used := 0, truncated_empty_nudges_used := 0,
     boosted_max_tokens := None, truncation_base := None, reasoning_off_next := False\<rparr>"

definition reset_nudges :: "TurnRecovery \<Rightarrow> TurnRecovery" where
  "reset_nudges t = t\<lparr>dropped_tool_call_nudges_used := 0, withheld_call_nudges_used := 0, empty_response_retries_used := 0\<rparr>"

definition reset_truncation :: "TurnRecovery \<Rightarrow> TurnRecovery" where
  "reset_truncation t = reset_truncated_empty
     (t\<lparr>truncated_tool_call_retries_used := 0, truncated_tool_names := {}, truncated_repeat_names := {}\<rparr>)"

definition reset_after_tool_turn :: "bool \<Rightarrow> TurnRecovery \<Rightarrow> TurnRecovery" where
  "reset_after_tool_turn had_truncated t = (if had_truncated then reset_nudges t else reset_truncation (reset_nudges t))"

definition reset_after_final :: "TurnRecovery \<Rightarrow> TurnRecovery" where
  "reset_after_final t = reset_truncation (reset_nudges t)"

section \<open>Recovering a response\<close>

record dropped_blocks =
  db_withheld :: nat
  db_unterminated :: nat
  db_malformed :: nat

record model_response =
  mr_finish_reason :: "string option"
  mr_text :: string
  mr_output_tokens :: "u64 option"
  mr_continue_turn :: "string option"
  mr_served_from_cache :: bool

record ResponseTurn =
  rt_call_id :: string
  rt_response :: model_response
  rt_tool_calls :: "ToolCall list"
  rt_attempt_max_tokens :: "u32 option"
  rt_started_at_ms :: u64
  rt_dropped :: dropped_blocks
  rt_tools_available :: bool
  rt_text_dialect_calls_recoverable :: bool
  rt_has_structured_plan :: bool
  rt_structured_call_names :: "string list"

datatype recovery_event = ControlApplied string string | RetryScheduled string nat

record 'c recovery_state =
  rv_recovery :: TurnRecovery
  rv_messages :: "'c Message list"
  rv_turns :: "'c announcing"
  rv_events :: "recovery_event list"

record 'c recovery_env =
  re_rates :: rate_port
  re_content :: "string \<Rightarrow> 'c"
  re_run_id :: string
  re_policy :: RecoveryPolicy
  re_limits :: LimitTracker
  re_remaining :: "nat option"
  re_now_ms :: u64
  re_structured :: bool

definition is_length_stop :: "string option \<Rightarrow> bool" where
  "is_length_stop r \<longleftrightarrow> r = Some ''length'' \<or> r = Some ''max_tokens'' \<or> r = Some ''MAX_TOKENS''"

definition DROPPED_TOOL_CALL_NUDGE :: string where
  "DROPPED_TOOL_CALL_NUDGE = ''Your previous turn indicated a tool call but none was included. If you meant to call a tool, issue the actual tool call now; otherwise answer directly.''"

definition WITHHELD_TOOL_CALL_NUDGE :: string where
  "WITHHELD_TOOL_CALL_NUDGE = ''Your previous reply was a tool call, but tools are not available for this reply, so it did not run. Do not write tool calls. Answer now in plain text from the results already gathered, and state any remaining uncertainty.''"

definition TRUNCATED_EMPTY_TOOL_NUDGE :: string where
  "TRUNCATED_EMPTY_TOOL_NUDGE = ''Your last reply ran out of output tokens while reasoning and produced no tool call. Stop deliberating: make the next tool call now, and write files incrementally in small pieces.''"

definition TRUNCATED_EMPTY_ANSWER_NUDGE :: string where
  "TRUNCATED_EMPTY_ANSWER_NUDGE = ''Your last reply ran out of output tokens while reasoning and produced no answer. Stop deliberating and write a short answer now from what you already have.''"

definition UNDECODABLE_TOOL_CALL_NUDGE :: string where
  "UNDECODABLE_TOOL_CALL_NUDGE = ''Your previous turn contained a tool-call block that could not be parsed, so no tool ran. Re-issue the call using exactly the format from the tool protocol; otherwise answer directly.''"

definition pop_row :: "'c recovery_state \<Rightarrow> 'c recovery_state" where
  "pop_row s = s\<lparr>rv_messages := butlast (rv_messages s),
     rv_turns := retract_to (length (butlast (rv_messages s))) (rv_turns s)\<rparr>"

definition push_user :: "'c recovery_env \<Rightarrow> string \<Rightarrow> 'c recovery_state \<Rightarrow> 'c recovery_state" where
  "push_user env text s = s\<lparr>rv_messages := rv_messages s @ [UserMessage (re_content env text)]\<rparr>"

definition log_event :: "recovery_event \<Rightarrow> 'c recovery_state \<Rightarrow> 'c recovery_state" where
  "log_event e s = s\<lparr>rv_events := rv_events s @ [e]\<rparr>"

definition on_recovery :: "(TurnRecovery \<Rightarrow> TurnRecovery) \<Rightarrow> 'c recovery_state \<Rightarrow> 'c recovery_state" where
  "on_recovery f s = s\<lparr>rv_recovery := f (rv_recovery s)\<rparr>"

abbreviation calls_left :: "'c recovery_env \<Rightarrow> bool" where
  "calls_left env \<equiv> remaining_model_calls (re_limits env) > 0"

definition withheld_nudge :: "'c recovery_env \<Rightarrow> ResponseTurn \<Rightarrow> 'c recovery_state \<Rightarrow> 'c recovery_state" where
  "withheld_nudge env turn s =
     (let s1 = on_recovery (\<lambda>t. t\<lparr>withheld_call_nudges_used := withheld_call_nudges_used t + 1\<rparr>) s;
          s2 = log_event (ControlApplied ''withheld_tool_call''
                 (show_nat (db_withheld (rt_dropped turn)) @ '' tool call(s) written while no tool was callable in model call ''
                   @ quoted (rt_call_id turn) @ ''; scrubbed, not run, re-prompted'')) (pop_row s1);
          s3 = push_user env WITHHELD_TOOL_CALL_NUDGE s2 in
      log_event (RetryScheduled (rt_call_id turn) (unat (withheld_call_nudges_used (rv_recovery s3)))) s3)"

definition cut_inside_call :: "ResponseTurn \<Rightarrow> bool" where
  "cut_inside_call turn \<longleftrightarrow> rt_text_dialect_calls_recoverable turn \<and> db_unterminated (rt_dropped turn) > 0"

definition truncated_empty :: "ResponseTurn \<Rightarrow> bool" where
  "truncated_empty turn \<longleftrightarrow> rt_tool_calls turn = [] \<and> is_length_stop (mr_finish_reason (rt_response turn)) \<and>
     (str_trim (mr_text (rt_response turn)) = [] \<or> cut_inside_call turn)"

definition count_dead_call :: "'c recovery_env \<Rightarrow> TurnRecovery \<Rightarrow> TurnRecovery" where
  "count_dead_call env t =
     (let t1 = t\<lparr>dead_calls_this_run := dead_calls_this_run t + 1\<rparr>;
          after = truncated_empty_reasoning_off_sticky_after (re_policy env) in
      if after > 0 \<and> \<not> reasoning_off_sticky t1 \<and> dead_calls_this_run t1 \<ge> after
      then t1\<lparr>reasoning_off_sticky := True\<rparr> else t1)"

definition retry_plan :: "'c recovery_env \<Rightarrow> ResponseTurn \<Rightarrow> TurnRecovery \<Rightarrow> TruncatedRetryPlan" where
  "retry_plan env turn t =
     truncated_retry_plan (rt_attempt_max_tokens turn)
       (case mr_output_tokens (rt_response turn) of None \<Rightarrow> 0 | Some n \<Rightarrow> n)
       (if re_now_ms env \<ge> rt_started_at_ms turn then re_now_ms env - rt_started_at_ms turn else 0)
       (re_remaining env) (truncated_empty_constant_cap (re_policy env)) t"

definition truncated_retry :: "'c recovery_env \<Rightarrow> ResponseTurn \<Rightarrow> TruncatedRetryPlan \<Rightarrow> 'c recovery_state \<Rightarrow> 'c recovery_state" where
  "truncated_retry env turn p s =
     (let s1 = on_recovery (\<lambda>t. (take_truncated_retry (rt_attempt_max_tokens turn) p t)
                 \<lparr>reasoning_off_next := truncated_empty_reasoning_off (re_policy env)\<rparr>) (pop_row s) in
      log_event (RetryScheduled (rt_call_id turn) (unat (truncated_empty_retries_used (rv_recovery s1)))) s1)"

definition note_skipped_retry :: "'c recovery_env \<Rightarrow> ResponseTurn \<Rightarrow> TruncatedRetryPlan \<Rightarrow> 'c recovery_state \<Rightarrow> 'c recovery_state" where
  "note_skipped_retry env turn p s =
     (if \<not> worth_it (re_rates env) p \<and>
         truncated_empty_retries_used (rv_recovery s) < truncated_empty_retries (re_policy env)
      then let s1 = log_event (ControlApplied ''truncated_empty_retry_skipped''
                      (''model call '' @ quoted (rt_call_id turn) @ '': '' @ skip_reason (re_rates env) p)) s in
           (case affordable_cap (re_rates env) p of
              None \<Rightarrow> s1
            | Some cap \<Rightarrow> on_recovery (\<lambda>t. t\<lparr>boosted_max_tokens := Some cap\<rparr>) s1)
      else s)"

definition nudge_allowed :: "'c recovery_env \<Rightarrow> TruncatedRetryPlan \<Rightarrow> TurnRecovery \<Rightarrow> bool" where
  "nudge_allowed env p t \<longleftrightarrow>
     (truncated_empty_nudges_used t < truncated_empty_nudges (re_policy env) \<or>
      truncated_empty_nudges (re_policy env) > 0 \<and> another_nudge_fits (re_rates env) p \<and>
      truncated_empty_nudges_used t < TRUNCATED_CLOCK_NUDGE_LIMIT) \<and>
     (pl_remaining p = None \<or> another_nudge_fits (re_rates env) p)"

definition nudge_text :: "ResponseTurn \<Rightarrow> u32 option \<Rightarrow> string" where
  "nudge_text turn repeat_cap =
     (case repeat_cap of
        Some cap \<Rightarrow>
          ''Your reply was cut off again before any tool call or answer. The output limit for the next call is '' @
          show_u32 cap @ '' tokens: reason in a few sentences at most, then act: '' @
          (if rt_tools_available turn then ''make one tool call'' else ''write a short answer from what you already have'') @ ''.''
      | None \<Rightarrow> if rt_tools_available turn then TRUNCATED_EMPTY_TOOL_NUDGE else TRUNCATED_EMPTY_ANSWER_NUDGE)"

definition truncated_nudge :: "'c recovery_env \<Rightarrow> ResponseTurn \<Rightarrow> TruncatedRetryPlan \<Rightarrow> 'c recovery_state \<Rightarrow> 'c recovery_state" where
  "truncated_nudge env turn p s =
     (let clock_only = truncated_empty_nudges_used (rv_recovery s) \<ge> truncated_empty_nudges (re_policy env);
          s1 = on_recovery (\<lambda>t. t\<lparr>truncated_empty_nudges_used := truncated_empty_nudges_used t + 1,
                 reasoning_off_next := truncated_empty_reasoning_off (re_policy env)\<rparr>) (pop_row s);
          repeat_cap = (if truncated_empty_nudges_used (rv_recovery s1) > 1 \<or> clock_only \<or> \<not> fits_clock (re_rates env) p
                           \<or> \<not> pl_first_retry p \<and> \<not> cap_grows p
                        then nudge_cap (re_rates env) p else None);
          s2 = (case repeat_cap of None \<Rightarrow> s1 | Some cap \<Rightarrow> on_recovery (\<lambda>t. t\<lparr>boosted_max_tokens := Some cap\<rparr>) s1);
          s3 = log_event (ControlApplied ''truncated_empty_nudge''
                 (''model call '' @ quoted (rt_call_id turn) @ '' ran out of output tokens while reasoning after '' @
                  show_u32 (truncated_empty_retries_used (rv_recovery s2)) @ '' retry(ies); re-prompted to act'')) s2;
          s4 = push_user env (nudge_text turn repeat_cap) s3 in
      log_event (RetryScheduled (rt_call_id turn)
        (unat (truncated_empty_retries_used (rv_recovery s4) + truncated_empty_nudges_used (rv_recovery s4)))) s4)"

definition nontruncated_empty :: "'c recovery_env \<Rightarrow> ResponseTurn \<Rightarrow> bool" where
  "nontruncated_empty env turn \<longleftrightarrow> rt_tool_calls turn = [] \<and> str_trim (mr_text (rt_response turn)) = [] \<and>
     mr_continue_turn (rt_response turn) = None \<and> \<not> rt_has_structured_plan turn \<and> \<not> re_structured env \<and>
     \<not> is_length_stop (mr_finish_reason (rt_response turn)) \<and> mr_finish_reason (rt_response turn) \<noteq> Some ''tool_calls'' \<and>
     \<not> mr_served_from_cache (rt_response turn)"

definition empty_retry :: "ResponseTurn \<Rightarrow> 'c recovery_state \<Rightarrow> 'c recovery_state" where
  "empty_retry turn s =
     (let s1 = on_recovery (\<lambda>t. t\<lparr>empty_response_retries_used := empty_response_retries_used t + 1\<rparr>) (pop_row s) in
      log_event (RetryScheduled (rt_call_id turn) (unat (empty_response_retries_used (rv_recovery s1)))) s1)"

definition undecodable_text_call :: "ResponseTurn \<Rightarrow> bool" where
  "undecodable_text_call turn \<longleftrightarrow> rt_text_dialect_calls_recoverable turn \<and>
     db_malformed (rt_dropped turn) +
       (if is_length_stop (mr_finish_reason (rt_response turn)) then 0 else db_unterminated (rt_dropped turn)) > 0"

definition dropped_nudge :: "'c recovery_env \<Rightarrow> ResponseTurn \<Rightarrow> 'c recovery_state \<Rightarrow> 'c recovery_state" where
  "dropped_nudge env turn s =
     (let s1 = on_recovery (\<lambda>t. t\<lparr>dropped_tool_call_nudges_used := dropped_tool_call_nudges_used t + 1\<rparr>) s;
          s2 = push_user env (if undecodable_text_call turn then UNDECODABLE_TOOL_CALL_NUDGE else DROPPED_TOOL_CALL_NUDGE) s1 in
      log_event (RetryScheduled (rt_call_id turn) (unat (dropped_tool_call_nudges_used (rv_recovery s2)))) s2)"

definition after_truncation :: "'c recovery_env \<Rightarrow> ResponseTurn \<Rightarrow> 'c recovery_state \<Rightarrow> (TinyAgentsError, bool) result \<times> 'c recovery_state" where
  "after_truncation env turn s =
     (if truncated_empty turn \<and> cut_inside_call turn
      then (Inl (LimitExceeded (''run '' @ quoted (re_run_id env) @ '' stopped: model call '' @ quoted (rt_call_id turn) @
              '' was cut off by the output token limit inside a tool-call block on every retry'')), pop_row s)
      else if nontruncated_empty env turn \<and> empty_response_retries_used (rv_recovery s) < empty_response_retries (re_policy env) \<and> calls_left env
      then (Inr True, empty_retry turn s)
      else if rt_tool_calls turn = [] \<and> (mr_finish_reason (rt_response turn) = Some ''tool_calls'' \<or> undecodable_text_call turn) \<and>
         rt_tools_available turn \<and> dropped_tool_call_nudges_used (rv_recovery s) < dropped_tool_call_nudges (re_policy env)
      then (if \<not> calls_left env then (Inr True, s) else (Inr True, dropped_nudge env turn s))
      else (Inr False, s))"

definition recover_truncated :: "'c recovery_env \<Rightarrow> ResponseTurn \<Rightarrow> 'c recovery_state \<Rightarrow> (TinyAgentsError, bool) result \<times> 'c recovery_state" where
  "recover_truncated env turn s =
     (let s1 = on_recovery (count_dead_call env) s;
          p = retry_plan env turn (rv_recovery s1) in
      if truncated_empty_retries_used (rv_recovery s1) < truncated_empty_retries (re_policy env) \<and> calls_left env \<and> worth_it (re_rates env) p
      then (Inr True, truncated_retry env turn p s1)
      else
        let s2 = note_skipped_retry env turn p s1 in
        if nudge_allowed env p (rv_recovery s2) \<and> calls_left env
        then (Inr True, truncated_nudge env turn p s2)
        else after_truncation env turn s2)"

definition recover_unusable_response ::
  "'c recovery_env \<Rightarrow> ResponseTurn \<Rightarrow> 'c recovery_state \<Rightarrow> (TinyAgentsError, bool) result \<times> 'c recovery_state" where
  "recover_unusable_response env turn s =
     (if db_withheld (rt_dropped turn) > 0 \<and>
         withheld_call_nudges_used (rv_recovery s) < dropped_tool_call_nudges (re_policy env) \<and> calls_left env
      then (Inr True, withheld_nudge env turn s)
      else if truncated_empty turn then recover_truncated env turn s
      else after_truncation env turn s)"

section \<open>Calls cut off by the output limit\<close>

datatype TruncationOutcome = TruncationClean | CallsRejected | StructuredCut

definition truncated_call_positions :: "ToolCall list \<Rightarrow> nat list" where
  "truncated_call_positions calls =
     filter (\<lambda>i. i = length calls - 1 \<or> tc_invalid (calls ! i) \<noteq> None) [0..<length calls]"

fun batch_positions :: "string list \<Rightarrow> (nat \<Rightarrow> ToolCall \<Rightarrow> bool) \<Rightarrow> nat \<Rightarrow> nat \<Rightarrow> ToolCall list \<Rightarrow> nat list" where
  "batch_positions structured hit i k [] = []"
| "batch_positions structured hit i k (c # cs) =
     (if tc_name c \<in> set structured then batch_positions structured hit (i + 1) k cs
      else (if hit i c then [k] else []) @ batch_positions structured hit (i + 1) (k + 1) cs)"

definition truncated_names :: "ToolCall list \<Rightarrow> string set" where
  "truncated_names calls = (\<lambda>i. tc_name (calls ! i)) ` set (truncated_call_positions calls)"

definition note_truncated :: "ResponseTurn \<Rightarrow> string set \<Rightarrow> TurnRecovery \<Rightarrow> TurnRecovery" where
  "note_truncated turn names t =
     (let t1 = boost_max_tokens (rt_attempt_max_tokens turn)
                 (t\<lparr>truncated_tool_call_retries_used := truncated_tool_call_retries_used t + 1\<rparr>) in
      t1\<lparr>truncated_repeat_names := truncated_repeat_names t1 \<union> (names \<inter> truncated_tool_names t1), truncated_tool_names := names\<rparr>)"

text \<open>The result carries the positions that admission answers with an error and, among them, those that
  get the stop-repeating text.\<close>

definition reject_truncated_tool_calls ::
  "'c recovery_env \<Rightarrow> ResponseTurn \<Rightarrow> 'c recovery_state
    \<Rightarrow> (TinyAgentsError, TruncationOutcome \<times> nat list \<times> nat list) result \<times> 'c recovery_state" where
  "reject_truncated_tool_calls env turn s =
     (let calls = rt_tool_calls turn;
          t = rv_recovery s;
          positions = truncated_call_positions calls;
          names = truncated_names calls;
          repeated = names \<inter> truncated_tool_names t in
      if policy_rejects_truncated (re_policy env) \<and> calls \<noteq> [] \<and> is_length_stop (mr_finish_reason (rt_response turn)) \<and> positions \<noteq> []
      then
        (case find (\<lambda>n. n \<in> truncated_repeat_names t) (sorted_list_of_set names) of
           Some name \<Rightarrow>
             (Inl (LimitExceeded (''run '' @ quoted (re_run_id env) @ '' stopped: tool '' @ quoted name @
                '' was cut off by the output token limit on consecutive turns after being told to split the call into smaller ones (RunPolicy::reject_truncated_tool_calls)'')),
              pop_row s)
         | None \<Rightarrow>
             if truncated_tool_call_retries_used t \<ge> truncated_tool_call_retries (re_policy env)
             then (Inl (LimitExceeded (''run '' @ quoted (re_run_id env) @ '' stopped: '' @ show_u32 (truncated_tool_call_retries_used t) @
                '' consecutive retries of a tool call truncated by the output token limit did not produce a complete call (RunPolicy::truncated_tool_call_retries)'')),
                pop_row s)
             else
               let s1 = log_event (ControlApplied ''truncated_tool_calls''
                          (''model call '' @ quoted (rt_call_id turn) @ '' hit its output limit mid-turn; '' @ show_nat (length positions) @
                           '' of '' @ show_nat (length calls) @ '' tool call(s) answered with an error, not run''))
                          (on_recovery (note_truncated turn names) s) in
               if list_ex (\<lambda>i. tc_name (calls ! i) \<in> set (rt_structured_call_names turn)) positions
               then (Inr (StructuredCut, [], []), s1)
               else (Inr (CallsRejected,
                       batch_positions (rt_structured_call_names turn) (\<lambda>i _. i \<in> set positions) 0 0 calls,
                       batch_positions (rt_structured_call_names turn) (\<lambda>i c. i \<in> set positions \<and> tc_name c \<in> repeated) 0 0 calls), s1))
      else (Inr (TruncationClean, [], []), s))"

section \<open>Budgets\<close>

lemma rv_simps [simp]:
  "rv_recovery (pop_row s) = rv_recovery s" "rv_recovery (push_user env x s) = rv_recovery s"
  "rv_recovery (log_event e s) = rv_recovery s" "rv_recovery (on_recovery f s) = f (rv_recovery s)"
  by (simp_all add: pop_row_def push_user_def log_event_def on_recovery_def)

lemma stage_recovery [simp]:
  "rv_recovery (withheld_nudge env turn s) = (rv_recovery s)\<lparr>withheld_call_nudges_used := withheld_call_nudges_used (rv_recovery s) + 1\<rparr>"
  "rv_recovery (empty_retry turn s) = (rv_recovery s)\<lparr>empty_response_retries_used := empty_response_retries_used (rv_recovery s) + 1\<rparr>"
  "rv_recovery (dropped_nudge env turn s) = (rv_recovery s)\<lparr>dropped_tool_call_nudges_used := dropped_tool_call_nudges_used (rv_recovery s) + 1\<rparr>"
  "rv_recovery (truncated_retry env turn p s) = (take_truncated_retry (rt_attempt_max_tokens turn) p (rv_recovery s))
     \<lparr>reasoning_off_next := truncated_empty_reasoning_off (re_policy env)\<rparr>"
  by (simp_all add: withheld_nudge_def empty_retry_def dropped_nudge_def truncated_retry_def Let_def)

definition nudge_limit :: "RecoveryPolicy \<Rightarrow> nat" where
  "nudge_limit pol = (if truncated_empty_nudges pol = 0 then 0 else max (unat (truncated_empty_nudges pol)) 6)"

definition recoveries_left :: "RecoveryPolicy \<Rightarrow> TurnRecovery \<Rightarrow> nat" where
  "recoveries_left pol t =
     (unat (dropped_tool_call_nudges pol) - unat (withheld_call_nudges_used t)) +
     (unat (truncated_empty_retries pol) - unat (truncated_empty_retries_used t)) +
     (nudge_limit pol - unat (truncated_empty_nudges_used t)) +
     (unat (empty_response_retries pol) - unat (empty_response_retries_used t)) +
     (unat (dropped_tool_call_nudges pol) - unat (dropped_tool_call_nudges_used t))"

lemma spend:
  fixes used bound :: u32
  assumes "unat used < unat bound"
  shows "unat (used + 1) = Suc (unat used)"
proof -
  have "unat used + 1 < 2 ^ 32" using assms unat_bound [of bound] by simp
  then show ?thesis by (simp add: unat_word_ariths)
qed

lemma spend_left:
  fixes used bound :: u32
  shows "used < bound \<Longrightarrow> unat bound - unat used = Suc (unat bound - unat (used + 1))"
  using spend [of used bound] by (simp add: word_less_nat_alt)

lemma spend_nudge:
  assumes "used < truncated_empty_nudges pol \<or> truncated_empty_nudges pol > 0 \<and> used < TRUNCATED_CLOCK_NUDGE_LIMIT"
  shows "Suc (nudge_limit pol - unat (used + 1)) = nudge_limit pol - unat used"
proof -
  have six: "unat TRUNCATED_CLOCK_NUDGE_LIMIT = 6" by (simp add: TRUNCATED_CLOCK_NUDGE_LIMIT_def)
  have "unat (used + 1) = Suc (unat used)"
    using assms spend [of used "truncated_empty_nudges pol"] spend [of used TRUNCATED_CLOCK_NUDGE_LIMIT]
    by (auto simp: word_less_nat_alt)
  moreover have "truncated_empty_nudges pol \<noteq> 0" using assms by auto
  moreover have "unat used < max (unat (truncated_empty_nudges pol)) 6"
    using assms six by (auto simp: word_less_nat_alt)
  ultimately show ?thesis by (simp add: nudge_limit_def)
qed

lemma count_dead_call_fields [simp]:
  "withheld_call_nudges_used (count_dead_call env t) = withheld_call_nudges_used t"
  "truncated_empty_retries_used (count_dead_call env t) = truncated_empty_retries_used t"
  "truncated_empty_nudges_used (count_dead_call env t) = truncated_empty_nudges_used t"
  "empty_response_retries_used (count_dead_call env t) = empty_response_retries_used t"
  "dropped_tool_call_nudges_used (count_dead_call env t) = dropped_tool_call_nudges_used t"
  "boosted_max_tokens (count_dead_call env t) = boosted_max_tokens t"
  "truncation_base (count_dead_call env t) = truncation_base t"
  by (simp_all add: count_dead_call_def Let_def)

lemma recoveries_left_cong:
  "withheld_call_nudges_used t' = withheld_call_nudges_used t \<Longrightarrow>
   truncated_empty_retries_used t' = truncated_empty_retries_used t \<Longrightarrow>
   truncated_empty_nudges_used t' = truncated_empty_nudges_used t \<Longrightarrow>
   empty_response_retries_used t' = empty_response_retries_used t \<Longrightarrow>
   dropped_tool_call_nudges_used t' = dropped_tool_call_nudges_used t \<Longrightarrow> recoveries_left pol t' = recoveries_left pol t"
  by (simp add: recoveries_left_def)

lemma note_skipped_left: "recoveries_left pol (rv_recovery (note_skipped_retry env turn p s)) = recoveries_left pol (rv_recovery s)"
  by (rule recoveries_left_cong) (auto simp: note_skipped_retry_def Let_def split: option.splits)

lemma after_truncation_left:
  assumes "after_truncation env turn s = (Inr True, s')" "calls_left env"
  shows "Suc (recoveries_left (re_policy env) (rv_recovery s')) = recoveries_left (re_policy env) (rv_recovery s)"
proof -
  let ?t = "rv_recovery s" and ?pol = "re_policy env"
  have "s' = empty_retry turn s \<and> empty_response_retries_used ?t < empty_response_retries ?pol \<or>
      s' = dropped_nudge env turn s \<and> dropped_tool_call_nudges_used ?t < dropped_tool_call_nudges ?pol"
    using assms unfolding after_truncation_def by (simp split: if_splits)
  then show ?thesis
  proof (elim disjE conjE)
    assume s': "s' = empty_retry turn s" and l: "empty_response_retries_used ?t < empty_response_retries ?pol"
    show ?thesis unfolding s' recoveries_left_def spend_left [OF l] by simp
  next
    assume s': "s' = dropped_nudge env turn s" and l: "dropped_tool_call_nudges_used ?t < dropped_tool_call_nudges ?pol"
    show ?thesis unfolding s' recoveries_left_def spend_left [OF l] by simp
  qed
qed

lemma recover_truncated_left:
  assumes "recover_truncated env turn s = (Inr True, s')" "calls_left env"
  shows "Suc (recoveries_left (re_policy env) (rv_recovery s')) = recoveries_left (re_policy env) (rv_recovery s)"
proof -
  let ?s1 = "on_recovery (count_dead_call env) s"
  let ?p = "retry_plan env turn (rv_recovery ?s1)"
  let ?s2 = "note_skipped_retry env turn ?p ?s1"
  let ?left = "\<lambda>s. recoveries_left (re_policy env) (rv_recovery s)"
  have l1: "?left ?s1 = ?left s" by (simp add: recoveries_left_def)
  have l2: "?left ?s2 = ?left s" using note_skipped_left l1 by metis
  show ?thesis
  proof (cases "truncated_empty_retries_used (rv_recovery ?s1) < truncated_empty_retries (re_policy env) \<and> worth_it (re_rates env) ?p")
    case True
    then have s': "s' = truncated_retry env turn ?p ?s1"
      using assms unfolding recover_truncated_def Let_def by simp
    have l: "truncated_empty_retries_used (rv_recovery s) < truncated_empty_retries (re_policy env)" using True by simp
    have f: "truncated_empty_retries_used (rv_recovery s') = truncated_empty_retries_used (rv_recovery s) + 1"
      "withheld_call_nudges_used (rv_recovery s') = withheld_call_nudges_used (rv_recovery s)"
      "truncated_empty_nudges_used (rv_recovery s') = truncated_empty_nudges_used (rv_recovery s)"
      "empty_response_retries_used (rv_recovery s') = empty_response_retries_used (rv_recovery s)"
      "dropped_tool_call_nudges_used (rv_recovery s') = dropped_tool_call_nudges_used (rv_recovery s)"
      unfolding s' by (simp_all add: take_truncated_retry_def Let_def split: option.split)
    show ?thesis unfolding recoveries_left_def f spend_left [OF l] by simp
  next
    case no_retry: False
    show ?thesis
    proof (cases "nudge_allowed env ?p (rv_recovery ?s2)")
      case True
      then have s': "s' = truncated_nudge env turn ?p ?s2"
        using assms no_retry unfolding recover_truncated_def Let_def by auto
      have n: "Suc (nudge_limit (re_policy env) - unat (truncated_empty_nudges_used (rv_recovery ?s2) + 1)) =
          nudge_limit (re_policy env) - unat (truncated_empty_nudges_used (rv_recovery ?s2))"
        by (rule spend_nudge) (use True in \<open>auto simp: nudge_allowed_def\<close>)
      have f: "truncated_empty_nudges_used (rv_recovery s') = truncated_empty_nudges_used (rv_recovery ?s2) + 1"
        "withheld_call_nudges_used (rv_recovery s') = withheld_call_nudges_used (rv_recovery ?s2)"
        "truncated_empty_retries_used (rv_recovery s') = truncated_empty_retries_used (rv_recovery ?s2)"
        "empty_response_retries_used (rv_recovery s') = empty_response_retries_used (rv_recovery ?s2)"
        "dropped_tool_call_nudges_used (rv_recovery s') = dropped_tool_call_nudges_used (rv_recovery ?s2)"
        unfolding s' truncated_nudge_def Let_def by (simp_all split: option.split)
      have "Suc (?left s') = ?left ?s2" unfolding recoveries_left_def f n [symmetric] by simp
      then show ?thesis using l2 by simp
    next
      case False
      then have "after_truncation env turn ?s2 = (Inr True, s')"
        using assms no_retry unfolding recover_truncated_def Let_def by auto
      then show ?thesis using after_truncation_left assms(2) l2 by metis
    qed
  qed
qed

lemma recover_left:
  assumes "recover_unusable_response env turn s = (Inr True, s')" "calls_left env"
  shows "Suc (recoveries_left (re_policy env) (rv_recovery s')) = recoveries_left (re_policy env) (rv_recovery s)"
proof (cases "db_withheld (rt_dropped turn) > 0 \<and> withheld_call_nudges_used (rv_recovery s) < dropped_tool_call_nudges (re_policy env)")
  case True
  then have s': "s' = withheld_nudge env turn s" using assms unfolding recover_unusable_response_def by simp
  have e: "unat (dropped_tool_call_nudges (re_policy env)) - unat (withheld_call_nudges_used (rv_recovery s)) =
      Suc (unat (dropped_tool_call_nudges (re_policy env)) - unat (withheld_call_nudges_used (rv_recovery s) + 1))"
    using True by (simp add: spend_left)
  show ?thesis unfolding s' recoveries_left_def e by simp
next
  case False
  then show ?thesis
    using assms recover_truncated_left [OF _ assms(2)] after_truncation_left [OF _ assms(2)]
    unfolding recover_unusable_response_def by (auto split: if_splits)
qed
text \<open>The model calls of one logical turn, each with its response.  The counters carry over; a request goes
  out with the boosted cap when there is one and the caller's cap otherwise (\<open>build_turn_request\<close>; middleware
  that rewrites the cap of a request is left out), and takes the one-call reasoning switch.  \<open>None\<close>: a response
  was not recovered.\<close>

definition sent_cap :: "u32 option \<Rightarrow> TurnRecovery \<Rightarrow> u32 option" where
  "sent_cap cap t = (case boosted_max_tokens t of Some b \<Rightarrow> Some b | None \<Rightarrow> cap)"

definition sent_turn :: "u32 option \<Rightarrow> TurnRecovery \<Rightarrow> ResponseTurn \<Rightarrow> ResponseTurn" where
  "sent_turn cap t turn = turn\<lparr>rt_attempt_max_tokens := sent_cap cap t\<rparr>"

fun recover_run ::
  "u32 option \<Rightarrow> ('c recovery_env \<times> ResponseTurn \<times> 'c recovery_state) list \<Rightarrow> TurnRecovery \<Rightarrow> TurnRecovery option" where
  "recover_run cap [] t = Some t"
| "recover_run cap ((env, turn, s) # xs) t =
     (case recover_unusable_response env (sent_turn cap t turn) (s\<lparr>rv_recovery := t\<lparr>reasoning_off_next := False\<rparr>\<rparr>) of
        (Inr True, s') \<Rightarrow> recover_run cap xs (rv_recovery s')
      | _ \<Rightarrow> None)"

lemma recover_run_left:
  "recover_run cap xs t = Some t' \<Longrightarrow> (\<forall>(env, turn, s) \<in> set xs. re_policy env = pol \<and> calls_left env) \<Longrightarrow>
    length xs + recoveries_left pol t' = recoveries_left pol t"
proof (induction xs arbitrary: t)
  case (Cons x xs)
  obtain env turn s where x: "x = (env, turn, s)" by (cases x)
  let ?s = "s\<lparr>rv_recovery := t\<lparr>reasoning_off_next := False\<rparr>\<rparr>"
  obtain s' where r: "recover_unusable_response env (sent_turn cap t turn) ?s = (Inr True, s')" and run: "recover_run cap xs (rv_recovery s') = Some t'"
    using Cons.prems(1) by (auto simp: x split: prod.splits sum.splits bool.splits)
  have "Suc (recoveries_left pol (rv_recovery s')) = recoveries_left pol t"
    using recover_left [OF r] Cons.prems(2) by (auto simp: x recoveries_left_def)
  then show ?case using Cons.IH [OF run] Cons.prems(2) by (simp add: x)
qed simp

text \<open>C10. Recovery ends: within one logical turn, every re-issued or re-prompted model call spends exactly one
  unit of a budget fixed by the policy, so a turn that starts afresh is recovered at most that many times,
  whatever the model answers and whatever the clock says.\<close>

theorem recovery_terminates:
  assumes "\<forall>(env, turn, s) \<in> set xs. re_policy env = pol \<and> calls_left env" "recover_run cap xs default_recovery = Some t"
  shows "length xs + recoveries_left pol t =
    2 * unat (dropped_tool_call_nudges pol) + unat (truncated_empty_retries pol) + nudge_limit pol + unat (empty_response_retries pol)"
  using recover_run_left [OF assms(2,1)] by (simp add: recoveries_left_def default_recovery_def)

section \<open>Caps\<close>

definition cap_inv :: "u32 \<Rightarrow> TurnRecovery \<Rightarrow> bool" where
  "cap_inv c t \<longleftrightarrow>
     (case truncation_base t of
        None \<Rightarrow> (\<forall>b. boosted_max_tokens t = Some b \<longrightarrow> b \<le> c)
      | Some base \<Rightarrow> base \<le> c \<and> (\<forall>b. boosted_max_tokens t = Some b \<longrightarrow> unat b \<le> 4 * unat c))"

lemma cap_inv_weak: "cap_inv c t \<Longrightarrow> boosted_max_tokens t = Some b \<Longrightarrow> unat b \<le> 4 * unat c"
  by (auto simp: cap_inv_def word_le_nat_alt split: option.splits)

lemma cap_inv_lower:
  "cap_inv c t \<Longrightarrow> sent_cap (Some c) t = Some m \<Longrightarrow> b \<le> m \<Longrightarrow> truncation_base t' = truncation_base t \<Longrightarrow>
    boosted_max_tokens t' = Some b \<Longrightarrow> cap_inv c t'"
  by (auto simp: cap_inv_def sent_cap_def word_le_nat_alt split: option.splits)

lemma sat_mul_4: "unat (sat_mul (b :: u32) 4) \<le> 4 * unat b"
  by (simp add: unat_sat_mul)

lemma halved_le: "halved_cap p = Some b \<Longrightarrow> pl_current p = Some m \<Longrightarrow> b \<le> m"
  by (auto simp: halved_cap_def)

lemma nudge_cap_le: "nudge_cap port p = Some b \<Longrightarrow> pl_current p = Some m \<Longrightarrow> b \<le> m"
  using halved_le [of p]
  by (fastforce simp: nudge_cap_def Let_def min_def split: option.splits if_splits)

lemma ucast_min_le: "ucast (min a (ucast (c :: u32)) :: u64) \<le> c"
proof -
  have "unat (min a (ucast c :: u64)) \<le> unat (ucast c :: u64)" by (simp add: word_le_nat_alt [symmetric])
  also have "\<dots> \<le> unat c" by (simp add: unsigned_ucast_eq)
  finally have "take_bit 32 (unat (min a (ucast c :: u64))) \<le> unat c" using take_bit_nat_less_eq_self le_trans by blast
  then show ?thesis by (simp add: word_le_nat_alt unsigned_ucast_eq)
qed

lemma affordable_le: "affordable_cap port p = Some b \<Longrightarrow> pl_current p = Some m \<Longrightarrow> b \<le> m"
  by (auto simp: affordable_cap_def Let_def ucast_min_le split: option.splits if_splits)

lemma cap_inv_cong: "boosted_max_tokens t' = boosted_max_tokens t \<Longrightarrow> truncation_base t' = truncation_base t \<Longrightarrow> cap_inv c t' = cap_inv c t"
  by (simp only: cap_inv_def)

lemma sent_cap_le: "cap_inv c t \<Longrightarrow> sent_cap (Some c) t = Some m \<Longrightarrow> unat m \<le> 4 * unat c"
  by (auto simp: sent_cap_def dest: cap_inv_weak split: option.splits)

lemma unat_min: "unat (min a b) = min (unat a) (unat b)" for a b :: u32
  by (simp add: min_def word_le_nat_alt)

lemma truncated_retry_cap:
  assumes "cap_inv c t" "pl = truncated_retry_plan (sent_cap (Some c) t) x y r k t"
  shows "cap_inv c (take_truncated_retry (sent_cap (Some c) t) pl t)"
proof -
  obtain m where m: "sent_cap (Some c) t = Some m" by (cases "boosted_max_tokens t") (simp_all add: sent_cap_def)
  have base: "(case truncation_base t of None \<Rightarrow> m | Some b \<Rightarrow> b) \<le> c"
    using assms(1) m by (auto simp: cap_inv_def sent_cap_def split: option.splits)
  then have "unat (sat_mul (case truncation_base t of None \<Rightarrow> m | Some b \<Rightarrow> b) 4) \<le> 4 * unat c"
    using sat_mul_4 by (meson le_trans mult_le_mono2 word_le_nat_alt)
  then have next_le: "unat n \<le> 4 * unat c" if "pl_next pl = Some n" for n
    using that sent_cap_le [OF assms(1) m] m
    by (auto simp: assms(2) truncated_retry_plan_def Let_def m sent_cap_def unat_min split: option.splits if_splits)
  show ?thesis using base next_le by (simp add: cap_inv_def take_truncated_retry_def m Let_def)
qed

lemma plan_current [simp]: "pl_current (truncated_retry_plan a x y r k t) = sent_cap a t"
  by (simp add: truncated_retry_plan_def sent_cap_def Let_def)

lemma sent_some: "\<exists>m. sent_cap (Some c) t = Some m"
  by (cases "boosted_max_tokens t") (simp_all add: sent_cap_def)

lemma note_skipped_cap:
  assumes "cap_inv c (rv_recovery s)" "pl_current p = sent_cap (Some c) (rv_recovery s)"
  shows "cap_inv c (rv_recovery (note_skipped_retry env turn p s))"
proof -
  obtain m where m: "sent_cap (Some c) (rv_recovery s) = Some m" using sent_some by blast
  have "cap_inv c ((rv_recovery s)\<lparr>boosted_max_tokens := Some b\<rparr>)" if "affordable_cap (re_rates env) p = Some b" for b
    using cap_inv_lower [OF assms(1) m] affordable_le [OF that] assms(2) m by simp
  then show ?thesis using assms(1) by (auto simp: note_skipped_retry_def Let_def split: option.split)
qed

lemma truncated_nudge_caps:
  "truncation_base (rv_recovery (truncated_nudge env turn p s)) = truncation_base (rv_recovery s)"
  "boosted_max_tokens (rv_recovery (truncated_nudge env turn p s)) = boosted_max_tokens (rv_recovery s) \<or>
   (\<exists>b. nudge_cap (re_rates env) p = Some b \<and> boosted_max_tokens (rv_recovery (truncated_nudge env turn p s)) = Some b)"
  unfolding truncated_nudge_def Let_def by (simp_all split: option.split)

lemma truncated_nudge_cap:
  assumes "cap_inv c t" "sent_cap (Some c) t = Some m" "pl_current p = Some m"
    "cap_inv c (rv_recovery s)" "truncation_base (rv_recovery s) = truncation_base t"
  shows "cap_inv c (rv_recovery (truncated_nudge env turn p s))"
  using truncated_nudge_caps(2) [where env = env and turn = turn and p = p and s = s]
proof (elim disjE exE conjE)
  assume "boosted_max_tokens (rv_recovery (truncated_nudge env turn p s)) = boosted_max_tokens (rv_recovery s)"
  then show ?thesis using cap_inv_cong truncated_nudge_caps(1) assms(4) by metis
next
  fix b
  assume "nudge_cap (re_rates env) p = Some b" "boosted_max_tokens (rv_recovery (truncated_nudge env turn p s)) = Some b"
  then show ?thesis
    using cap_inv_lower [OF assms(1,2)] nudge_cap_le [OF _ assms(3)] truncated_nudge_caps(1) assms(5) by metis
qed

lemma after_truncation_caps:
  assumes "after_truncation env turn s = (r, s')"
  shows "boosted_max_tokens (rv_recovery s') = boosted_max_tokens (rv_recovery s)"
    "truncation_base (rv_recovery s') = truncation_base (rv_recovery s)"
  using assms by (auto simp: after_truncation_def split: if_splits)

lemma recover_truncated_cap:
  assumes "recover_truncated env turn s = (r, s')" "cap_inv c (rv_recovery s)" "rt_attempt_max_tokens turn = sent_cap (Some c) (rv_recovery s)"
  shows "cap_inv c (rv_recovery s')"
proof -
  let ?s1 = "on_recovery (count_dead_call env) s"
  let ?t = "rv_recovery ?s1"
  let ?p = "retry_plan env turn ?t"
  let ?s2 = "note_skipped_retry env turn ?p ?s1"
  have inv: "cap_inv c ?t" using assms(2) cap_inv_cong [of ?t "rv_recovery s" c] by simp
  have sent: "rt_attempt_max_tokens turn = sent_cap (Some c) ?t" using assms(3) by (simp add: sent_cap_def)
  obtain m where m: "sent_cap (Some c) ?t = Some m" using sent_some by blast
  have cur: "pl_current ?p = Some m" using sent m by (auto simp: retry_plan_def sent_cap_def split: option.splits)
  have inv2: "cap_inv c (rv_recovery ?s2)" by (rule note_skipped_cap [OF inv]) (simp add: cur m del: rv_simps)
  have base2: "truncation_base (rv_recovery ?s2) = truncation_base ?t"
    by (simp add: note_skipped_retry_def Let_def split: option.split)
  consider "s' = truncated_retry env turn ?p ?s1" | "s' = truncated_nudge env turn ?p ?s2" | "after_truncation env turn ?s2 = (r, s')"
    using assms(1) unfolding recover_truncated_def Let_def by (auto split: if_splits)
  then show ?thesis
  proof cases
    case 1
    have "cap_inv c (take_truncated_retry (sent_cap (Some c) ?t) ?p ?t)"
      by (rule truncated_retry_cap [OF inv]) (simp only: retry_plan_def sent)
    then show ?thesis unfolding 1 stage_recovery sent by (simp add: cap_inv_def cong: option.case_cong)
  next
    case 2
    show ?thesis unfolding 2 by (rule truncated_nudge_cap [OF inv m cur inv2 base2])
  next
    case 3
    then show ?thesis using inv2 cap_inv_cong after_truncation_caps by metis
  qed
qed

lemma recover_cap:
  assumes "recover_unusable_response env turn s = (r, s')" "cap_inv c (rv_recovery s)" "rt_attempt_max_tokens turn = sent_cap (Some c) (rv_recovery s)"
  shows "cap_inv c (rv_recovery s')"
proof -
  consider "s' = withheld_nudge env turn s" | "recover_truncated env turn s = (r, s')" | "after_truncation env turn s = (r, s')"
    using assms(1) unfolding recover_unusable_response_def by (auto split: if_splits)
  then show ?thesis
  proof cases
    case 1
    then show ?thesis using assms(2) cap_inv_cong [of "rv_recovery s'" "rv_recovery s" c] by simp
  next
    case 2
    then show ?thesis using recover_truncated_cap assms by blast
  next
    case 3
    then show ?thesis using assms(2) cap_inv_cong after_truncation_caps by metis
  qed
qed

lemma recover_run_cap: "recover_run (Some c) xs t = Some t' \<Longrightarrow> cap_inv c t \<Longrightarrow> cap_inv c t'"
proof (induction xs arbitrary: t)
  case (Cons x xs)
  obtain env turn s where x: "x = (env, turn, s)" by (cases x)
  let ?s = "s\<lparr>rv_recovery := t\<lparr>reasoning_off_next := False\<rparr>\<rparr>"
  obtain s' where r: "recover_unusable_response env (sent_turn (Some c) t turn) ?s = (Inr True, s')"
    and run: "recover_run (Some c) xs (rv_recovery s') = Some t'"
    using Cons.prems(1) by (auto simp: x split: prod.splits sum.splits bool.splits)
  have "cap_inv c (rv_recovery ?s)" using Cons.prems(2) cap_inv_cong [of "rv_recovery ?s" t c] by simp
  then have "cap_inv c (rv_recovery s')" by (rule recover_cap [OF r]) (simp add: sent_turn_def sent_cap_def)
  then show ?case using Cons.IH [OF run] by blast
qed simp

section \<open>Consecutive cut-off turns\<close>

text \<open>What the loop does with the counters once the calls of a cut-off turn are answered: a rejected batch
  ends a tool turn that keeps the truncation budget, a structured call cut off goes straight to the next
  model call, and a turn with nothing cut off starts afresh.\<close>

definition next_turn_recovery :: "TruncationOutcome \<Rightarrow> TurnRecovery \<Rightarrow> TurnRecovery" where
  "next_turn_recovery outcome t =
     (case outcome of
        TruncationClean \<Rightarrow> reset_after_tool_turn False t
      | CallsRejected \<Rightarrow> reset_after_tool_turn True t
      | StructuredCut \<Rightarrow> t)"

fun tool_turns :: "('c recovery_env \<times> ResponseTurn \<times> 'c recovery_state) list \<Rightarrow> TurnRecovery \<Rightarrow> (TinyAgentsError, TurnRecovery) result" where
  "tool_turns [] t = Inr t"
| "tool_turns ((env, turn, s) # xs) t =
     (case reject_truncated_tool_calls env turn (s\<lparr>rv_recovery := t\<rparr>) of
        (Inl e, _) \<Rightarrow> Inl e
      | (Inr (outcome, _, _), s') \<Rightarrow> tool_turns xs (next_turn_recovery outcome (rv_recovery s')))"

definition cuts_off :: "string \<Rightarrow> 'c recovery_env \<Rightarrow> ResponseTurn \<Rightarrow> bool" where
  "cuts_off name env turn \<longleftrightarrow> policy_rejects_truncated (re_policy env) \<and>
     is_length_stop (mr_finish_reason (rt_response turn)) \<and> name \<in> truncated_names (rt_tool_calls turn)"

lemma boost_names [simp]:
  "truncated_tool_names (boost_max_tokens a t) = truncated_tool_names t"
  "truncated_repeat_names (boost_max_tokens a t) = truncated_repeat_names t"
  by (simp_all add: boost_max_tokens_def Let_def split: option.split)

lemma note_truncated_names:
  "truncated_tool_names (note_truncated turn names t) = names"
  "truncated_repeat_names (note_truncated turn names t) = truncated_repeat_names t \<union> (names \<inter> truncated_tool_names t)"
  by (simp_all add: note_truncated_def Let_def)

lemma truncated_names_fin: "finite (truncated_names calls)"
  by (simp add: truncated_names_def)

lemma cuts_off_calls: "cuts_off name env turn \<Longrightarrow> rt_tool_calls turn \<noteq> [] \<and> truncated_call_positions (rt_tool_calls turn) \<noteq> []"
proof -
  assume "cuts_off name env turn"
  then have "truncated_call_positions (rt_tool_calls turn) \<noteq> []" by (auto simp: cuts_off_def truncated_names_def)
  moreover have "truncated_call_positions [] = []" by (simp add: truncated_call_positions_def)
  ultimately show ?thesis by metis
qed

lemma cut_off_step:
  assumes "cuts_off name env turn" "reject_truncated_tool_calls env turn s = (r, s')"
  shows "(\<exists>msg. r = Inl (LimitExceeded msg)) \<or>
    (\<exists>outcome ps rs. r = Inr (outcome, ps, rs) \<and> outcome \<noteq> TruncationClean \<and> name \<notin> truncated_repeat_names (rv_recovery s) \<and>
      truncated_tool_names (rv_recovery s') = truncated_names (rt_tool_calls turn) \<and>
      truncated_repeat_names (rv_recovery s') =
        truncated_repeat_names (rv_recovery s) \<union> (truncated_names (rt_tool_calls turn) \<inter> truncated_tool_names (rv_recovery s)))"
proof -
  let ?t = "rv_recovery s" and ?names = "truncated_names (rt_tool_calls turn)"
  have c: "policy_rejects_truncated (re_policy env)" "is_length_stop (mr_finish_reason (rt_response turn))" "name \<in> ?names"
    "rt_tool_calls turn \<noteq> []" "truncated_call_positions (rt_tool_calls turn) \<noteq> []"
    using assms(1) cuts_off_calls [OF assms(1)] by (simp_all add: cuts_off_def)
  show ?thesis
  proof (cases "find (\<lambda>n. n \<in> truncated_repeat_names ?t) (sorted_list_of_set ?names)")
    case None
    then have "name \<notin> truncated_repeat_names ?t" using c(3) by (auto simp: find_None_iff truncated_names_fin)
    then show ?thesis using assms(2) c(1,2,4,5) None
      unfolding reject_truncated_tool_calls_def Let_def by (auto simp: note_truncated_names split: if_splits)
  next
    case (Some n)
    then show ?thesis using assms(2) c(1,2,4,5) unfolding reject_truncated_tool_calls_def Let_def by auto
  qed
qed

lemma next_turn_names [simp]:
  "outcome \<noteq> TruncationClean \<Longrightarrow> truncated_tool_names (next_turn_recovery outcome t) = truncated_tool_names t"
  "outcome \<noteq> TruncationClean \<Longrightarrow> truncated_repeat_names (next_turn_recovery outcome t) = truncated_repeat_names t"
  by (cases outcome; simp add: next_turn_recovery_def reset_after_tool_turn_def reset_nudges_def)+

lemma tool_turns_cut:
  assumes "cuts_off name env turn"
  shows "(\<exists>msg. tool_turns ((env, turn, s) # xs) t = Inl (LimitExceeded msg)) \<or>
    (\<exists>t'. tool_turns ((env, turn, s) # xs) t = tool_turns xs t' \<and> name \<notin> truncated_repeat_names t \<and> name \<in> truncated_tool_names t' \<and>
       (name \<in> truncated_tool_names t \<longrightarrow> name \<in> truncated_repeat_names t'))"
proof -
  obtain r s' where r: "reject_truncated_tool_calls env turn (s\<lparr>rv_recovery := t\<rparr>) = (r, s')" by fastforce
  have "name \<in> truncated_names (rt_tool_calls turn)" using assms by (simp add: cuts_off_def)
  then show ?thesis using cut_off_step [OF assms r] r by auto
qed

section \<open>Branches\<close>

lemma dead_call_retried:
  assumes "db_withheld (rt_dropped turn) = 0" "truncated_empty turn" "calls_left env"
    "truncated_empty_retries_used (rv_recovery s) < truncated_empty_retries (re_policy env)"
    "worth_it (re_rates env) (retry_plan env turn (count_dead_call env (rv_recovery s)))"
  shows "recover_unusable_response env turn s =
    (Inr True, truncated_retry env turn (retry_plan env turn (count_dead_call env (rv_recovery s))) (on_recovery (count_dead_call env) s))"
  using assms by (simp add: recover_unusable_response_def recover_truncated_def Let_def)

lemma empty_response_retried:
  assumes "db_withheld (rt_dropped turn) = 0" "nontruncated_empty env turn" "calls_left env"
    "empty_response_retries_used (rv_recovery s) < empty_response_retries (re_policy env)"
  shows "recover_unusable_response env turn s = (Inr True, empty_retry turn s)"
proof -
  have "\<not> truncated_empty turn" using assms(2) by (simp add: truncated_empty_def nontruncated_empty_def)
  then show ?thesis using assms by (simp add: recover_unusable_response_def after_truncation_def)
qed

section \<open>A concrete turn\<close>

definition sample_rates :: rate_port where
  "sample_rates = \<lparr>projected_ms = (\<lambda>ms tokens cap. if tokens = 0 then 0 else ms * ucast cap div tokens),
     prorated_ms = (\<lambda>ms cap cur. if cur = 0 then ms else ms * ucast cap div ucast cur),
     within_share = (\<lambda>ms remaining. 2 * unat ms \<le> remaining),
     affordable_tokens = (\<lambda>ms tokens remaining. if ms = 0 then 0 else of_nat (remaining div 2) * tokens div ms)\<rparr>"

definition sample_recovery_policy :: RecoveryPolicy where
  "sample_recovery_policy = \<lparr>dropped_tool_call_nudges = 1, truncated_empty_retries = 2, truncated_empty_constant_cap = False,
     truncated_empty_reasoning_off = False, truncated_empty_reasoning_off_sticky_after = 0, truncated_empty_nudges = 0,
     empty_response_retries = 1, policy_rejects_truncated = True, truncated_tool_call_retries = 5\<rparr>"

definition sample_recovery_env :: "string recovery_env" where
  "sample_recovery_env = \<lparr>re_rates = sample_rates, re_content = (\<lambda>x. x), re_run_id = ''r'', re_policy = sample_recovery_policy,
     re_limits = tracker_new default_run_limits 0, re_remaining = None, re_now_ms = 0, re_structured = False\<rparr>"

definition sample_response :: "string \<Rightarrow> ToolCall list \<Rightarrow> ResponseTurn" where
  "sample_response reason calls = \<lparr>rt_call_id = ''m1'',
     rt_response = \<lparr>mr_finish_reason = Some reason, mr_text = '''', mr_output_tokens = None, mr_continue_turn = None, mr_served_from_cache = False\<rparr>,
     rt_tool_calls = calls, rt_attempt_max_tokens = None, rt_started_at_ms = 0,
     rt_dropped = \<lparr>db_withheld = 0, db_unterminated = 0, db_malformed = 0\<rparr>, rt_tools_available = True,
     rt_text_dialect_calls_recoverable = False, rt_has_structured_plan = False, rt_structured_call_names = []\<rparr>"

definition sample_recovery_state :: "string recovery_state" where
  "sample_recovery_state = \<lparr>rv_recovery = default_recovery, rv_messages = [], rv_turns = (turn_tracker_new 0, []), rv_events = []\<rparr>"

abbreviation sample_call :: "string \<Rightarrow> ToolCall list \<Rightarrow> string recovery_env \<times> ResponseTurn \<times> string recovery_state" where
  "sample_call reason calls \<equiv> (sample_recovery_env, sample_response reason calls, sample_recovery_state)"

definition sample_calls :: "(string recovery_env \<times> ResponseTurn \<times> string recovery_state) list" where
  "sample_calls = [sample_call ''length'' [], sample_call ''length'' [], sample_call ''stop'' []]"

lemma sample_env:
  "re_policy sample_recovery_env = sample_recovery_policy" "calls_left sample_recovery_env"
  "re_remaining sample_recovery_env = None" "re_structured sample_recovery_env = False" "re_now_ms sample_recovery_env = 0"
  by (simp_all add: sample_recovery_env_def tracker_new_def default_run_limits_def remaining_model_calls_def)

lemma sample_turn:
  "db_withheld (rt_dropped (sent_turn c t (sample_response reason []))) = 0"
  "rt_attempt_max_tokens (sent_turn c t (sample_response reason [])) = sent_cap c t"
  "truncated_empty (sent_turn c t (sample_response ''length'' []))"
  "nontruncated_empty sample_recovery_env (sent_turn c t (sample_response ''stop'' []))"
  by (simp_all add: sent_turn_def sample_response_def truncated_empty_def nontruncated_empty_def is_length_stop_def sample_env
      str_trim_def trim_start_def trim_end_def)

definition sample_after :: "nat \<Rightarrow> TurnRecovery" where
  "sample_after n = default_recovery\<lparr>truncated_empty_retries_used := of_nat n, truncation_base := if n = 0 then None else Some 1000,
     boosted_max_tokens := if n = 0 then None else Some (of_nat (n * 1000)), dead_calls_this_run := of_nat n\<rparr>"

lemma sample_dead_step:
  assumes "n < 2"
  shows "\<exists>s'. recover_unusable_response sample_recovery_env (sent_turn (Some 1000) (sample_after n) (sample_response ''length'' []))
      (s\<lparr>rv_recovery := (sample_after n)\<lparr>reasoning_off_next := False\<rparr>\<rparr>) = (Inr True, s') \<and> rv_recovery s' = sample_after (Suc n)"
proof -
  let ?t = "(sample_after n)\<lparr>reasoning_off_next := False\<rparr>"
  let ?turn = "sent_turn (Some 1000) (sample_after n) (sample_response ''length'' [])"
  let ?p = "retry_plan sample_recovery_env ?turn (count_dead_call sample_recovery_env ?t)"
  have n: "n = 0 \<or> n = 1" using assms by auto
  have w: "worth_it (re_rates sample_recovery_env) ?p"
    using n by (auto simp: worth_it_def fits_clock_def retry_plan_def truncated_retry_plan_def cap_grows_def Let_def sample_env sample_turn
        sample_after_def default_recovery_def sent_cap_def sat_mul_def sample_recovery_policy_def)
  have u: "truncated_empty_retries_used ?t < truncated_empty_retries (re_policy sample_recovery_env)"
    using n by (auto simp: sample_after_def sample_env sample_recovery_policy_def)
  have r: "recover_unusable_response sample_recovery_env ?turn (s\<lparr>rv_recovery := ?t\<rparr>) =
      (Inr True, truncated_retry sample_recovery_env ?turn ?p (on_recovery (count_dead_call sample_recovery_env) (s\<lparr>rv_recovery := ?t\<rparr>)))"
    using dead_call_retried [OF sample_turn(1) sample_turn(3) sample_env(2), of "s\<lparr>rv_recovery := ?t\<rparr>"] u w by simp
  have "(take_truncated_retry (sent_cap (Some 1000) (sample_after n)) ?p (count_dead_call sample_recovery_env ?t))
      \<lparr>reasoning_off_next := truncated_empty_reasoning_off (re_policy sample_recovery_env)\<rparr> = sample_after (Suc n)"
    using n by (auto simp: take_truncated_retry_def retry_plan_def truncated_retry_plan_def count_dead_call_def Let_def sample_env sample_turn
        sample_after_def default_recovery_def sent_cap_def sat_mul_def sample_recovery_policy_def)
  then show ?thesis unfolding r by (simp add: sample_turn)
qed

lemma sample_calls_run:
  "\<exists>t. recover_run (Some 1000) sample_calls default_recovery = Some t \<and> boosted_max_tokens t = Some 2000"
proof -
  have t0: "default_recovery = sample_after 0" by (simp add: sample_after_def default_recovery_def)
  have e: "recover_unusable_response sample_recovery_env (sent_turn (Some 1000) (sample_after 2) (sample_response ''stop'' []))
      (s\<lparr>rv_recovery := (sample_after 2)\<lparr>reasoning_off_next := False\<rparr>\<rparr>) =
      (Inr True, empty_retry (sent_turn (Some 1000) (sample_after 2) (sample_response ''stop'' [])) (s\<lparr>rv_recovery := (sample_after 2)\<lparr>reasoning_off_next := False\<rparr>\<rparr>))" for s
    by (rule empty_response_retried [OF sample_turn(1,4) sample_env(2)])
      (simp add: sample_after_def default_recovery_def sample_env sample_recovery_policy_def)
  obtain s1 where s1: "recover_unusable_response sample_recovery_env (sent_turn (Some 1000) (sample_after 0) (sample_response ''length'' []))
      (sample_recovery_state\<lparr>rv_recovery := (sample_after 0)\<lparr>reasoning_off_next := False\<rparr>\<rparr>) = (Inr True, s1)" "rv_recovery s1 = sample_after 1"
    using sample_dead_step [of 0 sample_recovery_state] by auto
  obtain s2 where s2: "recover_unusable_response sample_recovery_env (sent_turn (Some 1000) (sample_after 1) (sample_response ''length'' []))
      (sample_recovery_state\<lparr>rv_recovery := (sample_after 1)\<lparr>reasoning_off_next := False\<rparr>\<rparr>) = (Inr True, s2)" "rv_recovery s2 = sample_after 2"
    using sample_dead_step [of 1 sample_recovery_state] by (auto simp: numeral_2_eq_2)
  show ?thesis unfolding sample_calls_def t0
    by (simp only: recover_run.simps s1 s2 e prod.case sum.case bool.case option.inject stage_recovery)
      (simp add: sample_after_def)
qed

lemma sample_calls_env: "\<forall>(env, turn, s) \<in> set sample_calls. re_policy env = sample_recovery_policy \<and> calls_left env"
  by (simp add: sample_calls_def sample_env)

theorem recovery_terminates_witness:
  "\<exists>t. recover_run (Some 1000) sample_calls default_recovery = Some t \<and>
    length sample_calls + recoveries_left sample_recovery_policy t = 5"
proof -
  obtain t where t: "recover_run (Some 1000) sample_calls default_recovery = Some t" using sample_calls_run by blast
  show ?thesis using recovery_terminates [OF sample_calls_env t] t
    by (simp add: sample_recovery_policy_def nudge_limit_def)
qed



end
