(* ===== verification/Spec2Isabelle.thy ===== *)
theory Spec2Isabelle
  imports Prelude Errors Limits Failover ModelCall Breaker RunQueue Steering Tasks Reconcile CompositeKey Repo Leases Counters NoProgress RepeatGuard CancelTokens DetachedRegistry EffectMonad Completions CompletionRouter CompletionLaws Transcript Recovery
begin

text \<open>
  A verification library for tinyagents, a Rust runtime for language-model agents (crates under
  \<open>src/crates\<close>).

  \<^bold>\<open>The program.\<close>  The harness crate runs an agent: a loop that asks a model, runs the tools it calls and
  asks again.  A run is bounded by limits, its model calls are retried and fail over to other models, a
  breaker guards each provider, guards stop a run that makes no progress, a queue and a steering handle
  bring in messages and commands from outside, cancellation tokens end whole trees of runs, and turns whose
  response is unusable are recovered.  The tasks crate manages detached runs: their records, their live
  handles, the sweep that settles orphans, and the router that brings a finished child's result back to its
  parent exactly as long as the parent wants it.  The storage kit gives both a typed repository with
  compare-and-swap updates, and leases and counters on top of it.

  \<^bold>\<open>Foundations.\<close>  \<open>Prelude\<close> has the shared vocabulary: results as sums, saturating and checked arithmetic on
  words, strings as UTF-8 bytes, JSON values.  \<open>EffectMonad\<close> has fallible operations on a shared world and the
  locale \<open>world_relation\<close>, the contract under which a relation between worlds is preserved by sequences,
  branches and loops; it is interpreted for the three relations of the completion router.  \<open>Errors\<close> is
  \<open>tinyagents-harness/src/error.rs\<close>.

  \<^bold>\<open>The harness.\<close>
  \<^item> \<open>Limits\<close> (\<open>limits/\<close>): \<open>RunLimits\<close>, \<open>LimitTracker\<close>; the two call counters are instances of the locale
    \<open>bounded_counter\<close>.  A cap of n admits exactly n calls, and the nested-call counter, modelled as the
    interleaved steps of its compare-exchange loop, refines an atomic counter that never passes the cap.
  \<^item> \<open>Failover\<close> (\<open>retry/mod.rs\<close>, \<open>retry/types.rs\<close>, \<open>retry/failover.rs\<close>) and \<open>ModelCall\<close>
    (\<open>agent_loop/model_call.rs\<close>, \<open>agent_loop/model_switch.rs\<close>): classification of a provider error, the
    decision to retry or fail over, the retry loop and the fallback chain.  A call always returns after a
    bounded number of attempts, a fallback is a model that may serve the request, and a rejected credential
    is not sent again.
  \<^item> \<open>Breaker\<close> (\<open>retry/circuit_breaker.rs\<close>): the step relation of any number of attempts; at most one guard
    owns a key, and the slot is never leaked.
  \<^item> \<open>RunQueue\<close> (\<open>run_queue/\<close>) and \<open>Steering\<close> (\<open>steering/\<close>): lanes, guarded admission, commands and their
    checkpoint.  Consumers (locale \<open>lane_consumer\<close>) lose, duplicate and reorder nothing; a checkpoint applies
    exactly the permitted commands before the first cancel; a pause holds until it is resumed; the window of
    request ids is the locale \<open>dedup_window\<close>.
  \<^item> \<open>NoProgress\<close> and \<open>RepeatGuard\<close> (\<open>no_progress/\<close>): the failure ladders and the guards against repeated
    successful calls, with the messages they send.  A stuck run is stopped within six failures, and the
    staged escalation warns, blocks and stops at exactly the configured calls.
  \<^item> \<open>CancelTokens\<close> (\<open>cancel/\<close>): tokens on a heap with weak links, sequentially and as an interleaving of
    threads.  Cancelling reaches the whole lineage and nothing else, and no waiter sleeps through it.
  \<^item> \<open>Transcript\<close> (\<open>agent_loop/lifecycle.rs\<close>): the tracker that announces messages and turns.  A listener
    rebuilds the transcript from the events.
  \<^item> \<open>Recovery\<close> (\<open>agent_loop/turn_recovery.rs\<close>, \<open>agent_loop/response_recovery.rs\<close>, \<open>finish_reason.rs\<close>): what the
    loop does with an unusable or cut-off response.  Every recovery spends one unit of a budget fixed by the
    policy, so recovery ends; the output cap stays within four times the caller's; a tool cut off on three
    turns in a row ends the run.

  \<^bold>\<open>Tasks.\<close>
  \<^item> \<open>Tasks\<close> (\<open>types.rs\<close>, \<open>store.rs\<close>): the lifecycle of a task record and the in-memory store, which refines
    it; terminal records are final and every reachable record is well formed.
  \<^item> \<open>Reconcile\<close> (\<open>reconcile.rs\<close>): the orphan sweep, verified against the locale \<open>reconcilable_store\<close> and
    interpreted on the in-memory store.
  \<^item> \<open>DetachedRegistry\<close> (\<open>runtime.rs\<close>, \<open>steering_registry.rs\<close>): handles of live tasks.  No task is lost
    silently, cancelling a task cancels everything below it, and a caller that is not the owner gets nothing.
  \<^item> \<open>Completions\<close> (\<open>completions/types.rs\<close>, \<open>store.rs\<close>, \<open>lifecycle.rs\<close>), \<open>CompletionRouter\<close>
    (\<open>completions/router.rs\<close>, \<open>admission.rs\<close>) and \<open>CompletionLaws\<close>: records, claims, parent gates and the
    router.  Settled records stay settled, a cancelled parent receives nothing, a deleted one never does
    again, and a stale receipt settles nothing.

  \<^bold>\<open>Storage kit.\<close>
  \<^item> \<open>CompositeKey\<close> (\<open>lib.rs\<close>): document ids; the encoding has a left inverse and ids are injective as far as
    the digest is.
  \<^item> \<open>Repo\<close> (\<open>primitives/repo.rs\<close>), \<open>Leases\<close> (\<open>primitives/leases.rs\<close>), \<open>Counters\<close> (\<open>primitives/counters.rs\<close>):
    updates and conditional deletes are atomic under the laws \<open>store_laws\<close> of the document store, whatever
    other clients do; lease epochs fence, and counters only grow.

  \<^bold>\<open>Correspondence.\<close>  A struct is a record, an enum a datatype, a method a definition of the same name (with a
  prefix where two types share a method name); state behind a lock is a value that each operation returns
  updated.  Integers that can overflow keep their width; \<open>usize\<close> counters are natural numbers.  The clock,
  random numbers, hash functions, provider matchers, floating-point formulas, the document store and the
  host are arguments; what a theorem needs of them is a hypothesis of that theorem, with an instance in its
  witness.  Log lines are left out.

  \<^bold>\<open>Bounds and fuel.\<close>  No definition takes fuel.  Loops are structural recursions, or recursions on a measure
  with a termination proof: the models of the chain not visited yet, the attempts a policy leaves, the links
  of the cancellation heap.  Waiting is a schedule of wake-ups given as a list, and
  a wait whose schedule ends first is pending (\<open>None\<close>).

  \<^bold>\<open>Interleaving.\<close>  The nested-call counter, the breaker, the cancellation tokens, the repository with its leases
  and counters, and the waits of the registry are modelled with other parties acting in between.  Calls of the
  completion router are taken one after another: what other routers do while a call waits for its gate is
  placed before the call.  \<open>tombstone\<close> reads its record before it waits, so an interleaving in that window is
  outside \<open>CompletionLaws\<close>.  \<open>take_admitted\<close> is modelled for one consumer.

  \<^bold>\<open>Not modelled.\<close>  The body of the agent loop (\<open>agent_loop/run_loop.rs\<close>) and tool execution
  (\<open>agent_loop/tools.rs\<close>) are single asynchronous functions over the provider stream, the middleware, the
  tools and the host; what they decide by themselves is in the theories above, and the rest passes values
  between parties that are not part of the repository.  Middleware and its library, prompts, summaries,
  titles, dialects and structured output work on message text and on JSON values of third-party types.
  Retry backoff, the rate limiter, costs and token estimates are floating point.  Providers, media, events,
  observability, the built-in tools, hooks, definitions and the session crates are input and output,
  serialisation and wiring.  The driver-backed stores implement, on third-party storage drivers, the
  contracts that the in-memory stores are verified for.  The migration of a completion router to another
  store is left out, and so are lock poisoning (except in \<open>DetachedRegistry\<close>) and the tests.
\<close>

end
